(* ===== verification/C_Float.thy ===== *)
theory C_Float
  imports Complex_Main
begin

text \<open>
  Floating point arithmetic of C on rational numbers: \<open>fl\<close> rounds to the nearest multiple of the
  unit in the last place, ties to even, as IEEE 754 formats of \<open>p\<close> digits do for every finite
  result; \<open>f32\<close> and \<open>f64\<close> are the types \<open>float\<close> and \<open>double\<close>.  The exponent is found by search
  over the binades from the subnormals up; values beyond the largest binade do not occur in the
  firmware.
\<close>

definition round_half_even :: "rat \<Rightarrow> int" where
  "round_half_even x =
     (let n = \<lfloor>x\<rfloor>; r = x - of_int n
      in if r < 1 / 2 then n else if r > 1 / 2 then n + 1 else if even n then n else n + 1)"

definition fl_exponent :: "nat \<Rightarrow> int \<Rightarrow> int \<Rightarrow> rat \<Rightarrow> int" where
  "fl_exponent p lo hi x =
     (case List.find (\<lambda>e. \<bar>x\<bar> < 2 ^ p * 2 powi e) [lo..hi] of Some e \<Rightarrow> e | None \<Rightarrow> hi)"

definition fl :: "nat \<Rightarrow> int \<Rightarrow> int \<Rightarrow> rat \<Rightarrow> rat" where
  "fl p lo hi x = (let u = 2 powi fl_exponent p lo hi x in of_int (round_half_even (x / u)) * u)"

definition f32 :: "rat \<Rightarrow> rat" where "f32 = fl 24 (-149) 104"
definition f64 :: "rat \<Rightarrow> rat" where "f64 = fl 53 (-1074) 971"

lemma round_half_even_error: "\<bar>of_int (round_half_even x) - x\<bar> \<le> 1 / 2"
proof -
  define r where "r = x - of_int \<lfloor>x\<rfloor>"
  have "0 \<le> r" "r < 1" unfolding r_def by linarith+
  moreover have "\<bar>of_int \<lfloor>x\<rfloor> - x\<bar> = \<bar>r\<bar>" "\<bar>of_int (\<lfloor>x\<rfloor> + 1) - x\<bar> = \<bar>1 - r\<bar>"
    by (simp_all add: r_def abs_minus_commute)
  moreover have "round_half_even x = (if r < 1 / 2 then \<lfloor>x\<rfloor> else if r > 1 / 2 then \<lfloor>x\<rfloor> + 1
      else if even \<lfloor>x\<rfloor> then \<lfloor>x\<rfloor> else \<lfloor>x\<rfloor> + 1)"
    by (simp add: round_half_even_def r_def Let_def)
  ultimately show ?thesis by (auto split: if_splits)
qed

lemma round_half_even_of_int [simp]: "round_half_even (of_int n) = n"
  by (simp add: round_half_even_def Let_def)

lemma find_append:
  "List.find P (xs @ ys) = (case List.find P xs of None \<Rightarrow> List.find P ys | Some x \<Rightarrow> Some x)"
  by (induction xs) auto

lemma find_upto_le:
  assumes "a \<le> m" and "m \<le> b" and "P m"
  shows "\<exists>e \<le> m. List.find P [a..b] = Some (e :: int)"
proof -
  have "List.find P [a..m] \<noteq> None" using assms by (auto simp: find_None_iff)
  then obtain e where e: "List.find P [a..m] = Some e" by blast
  then have "e \<in> set [a..m]" by (auto simp: find_Some_iff)
  moreover have "[a..b] = [a..m] @ [m + 1..b]" using assms by (intro upto_split2) auto
  ultimately show ?thesis using e by (auto simp: find_append)
qed

lemma find_first_upto:
  assumes "a \<le> e" and "e \<le> b" and "P e" and "\<And>k. a \<le> k \<Longrightarrow> k < e \<Longrightarrow> \<not> P k"
  shows "List.find P [a..b] = Some (e :: int)"
proof -
  have "[a..b] = [a..e - 1] @ e # [e + 1..b]"
    using assms(1,2) by (rule upto_split3)
  moreover have "List.find P [a..e - 1] = None"
    using assms(4) by (auto simp: find_None_iff)
  ultimately show ?thesis using assms(3) by (simp add: find_append)
qed

lemma fl_exponentI:
  assumes "0 < p" and "lo \<le> e" and "e \<le> hi" and "2 ^ (p - 1) * 2 powi e \<le> \<bar>x\<bar>" and "\<bar>x\<bar> < 2 ^ p * 2 powi e"
  shows "fl_exponent p lo hi x = e"
proof -
  have "\<not> \<bar>x\<bar> < 2 ^ p * 2 powi k" if "k < e" for k
  proof -
    have "(2 :: rat) powi (k + 1) \<le> 2 powi e" using that by (intro power_int_increasing) auto
    then have "2 * (2 :: rat) powi k \<le> 2 powi e" by (simp add: power_int_add)
    then have "2 ^ (p - 1) * (2 * (2 :: rat) powi k) \<le> 2 ^ (p - 1) * 2 powi e" by simp
    moreover have "(2 :: rat) ^ p = 2 ^ (p - 1) * 2" using assms(1) by (cases p) simp_all
    ultimately have "2 ^ p * (2 :: rat) powi k \<le> 2 ^ (p - 1) * 2 powi e" by simp
    then show ?thesis using assms(4) by linarith
  qed
  then show ?thesis
    using find_first_upto [of lo e hi "\<lambda>e. \<bar>x\<bar> < 2 ^ p * 2 powi e"] assms
    by (simp add: fl_exponent_def)
qed

text \<open>The relative error of one operation, on values of ordinary size.\<close>

lemma fl_error:
  assumes "0 < p" and "lo \<le> hi" and "2 ^ (p - 1) * 2 powi lo \<le> \<bar>x\<bar>" and "\<bar>x\<bar> < 2 ^ p * 2 powi hi"
  shows "\<bar>fl p lo hi x - x\<bar> \<le> \<bar>x\<bar> / 2 ^ p"
proof -
  have pp: "(2 :: rat) ^ p = 2 ^ (p - 1) * 2" using assms(1) by (cases p) simp_all
  obtain e where e: "lo \<le> e" "e \<le> hi" "2 ^ (p - 1) * 2 powi e \<le> \<bar>x\<bar>" "\<bar>x\<bar> < 2 ^ p * 2 powi e"
  proof -
    let ?P = "\<lambda>n :: nat. \<bar>x\<bar> < 2 ^ p * 2 powi (lo + int n)"
    have ex: "?P (nat (hi - lo))" using assms(2,4) by simp
    define n where "n = (LEAST n. ?P n)"
    have n: "?P n" "n \<le> nat (hi - lo)" unfolding n_def by (rule LeastI [of ?P, OF ex]) (rule Least_le [of ?P, OF ex])
    have "2 ^ (p - 1) * 2 powi (lo + int n) \<le> \<bar>x\<bar>"
    proof (cases n)
      case 0
      then show ?thesis using assms(3) by simp
    next
      case (Suc m)
      have "\<not> ?P m" by (rule not_less_Least) (simp only: n_def [symmetric] Suc)
      moreover have "(2 :: rat) powi (lo + int n) = 2 * 2 powi (lo + int m)"
        using power_int_add [of "2 :: rat" 1 "lo + int m"] by (simp add: Suc algebra_simps)
      ultimately show ?thesis using pp by simp
    qed
    then show ?thesis using that [of "lo + int n"] n assms(2) by simp
  qed
  let ?u = "(2 :: rat) powi e"
  have u: "0 < ?u" by simp
  have "fl p lo hi x = of_int (round_half_even (x / ?u)) * ?u"
    using fl_exponentI [OF assms(1) e] by (simp add: fl_def Let_def)
  then have "fl p lo hi x - x = (of_int (round_half_even (x / ?u)) - x / ?u) * ?u"
    using u by (simp add: left_diff_distrib)
  then have "\<bar>fl p lo hi x - x\<bar> = \<bar>of_int (round_half_even (x / ?u)) - x / ?u\<bar> * ?u"
    using u by (simp only: abs_mult abs_of_pos)
  also have "\<dots> \<le> 1 / 2 * ?u" using round_half_even_error u by (intro mult_right_mono) auto
  also have "\<dots> \<le> \<bar>x\<bar> / 2 ^ p" using e(3) pp by (simp add: field_simps)
  finally show ?thesis .
qed

text \<open>The absolute error of one operation whose exact result lies below a binade.\<close>

lemma fl_abs_error:
  assumes "lo \<le> e" and "e \<le> hi" and "\<bar>x\<bar> < 2 ^ p * 2 powi e"
  shows "\<bar>fl p lo hi x - x\<bar> \<le> 2 powi e / 2"
proof -
  obtain k where k: "k \<le> e" "fl_exponent p lo hi x = k"
    using find_upto_le [of lo e hi "\<lambda>e. \<bar>x\<bar> < 2 ^ p * 2 powi e"] assms by (auto simp: fl_exponent_def)
  let ?u = "(2 :: rat) powi k"
  have u: "0 < ?u" "?u \<le> 2 powi e" using k(1) by (simp_all add: power_int_increasing)
  have "fl p lo hi x - x = (of_int (round_half_even (x / ?u)) - x / ?u) * ?u"
    using u(1) by (simp add: fl_def k(2) Let_def left_diff_distrib)
  then have "\<bar>fl p lo hi x - x\<bar> = \<bar>of_int (round_half_even (x / ?u)) - x / ?u\<bar> * ?u"
    using u(1) by (simp only: abs_mult abs_of_pos)
  also have "\<dots> \<le> 1 / 2 * ?u" using round_half_even_error u(1) by (intro mult_right_mono) auto
  finally show ?thesis using u(2) by linarith
qed

lemma fl_exponent_nonpos: "\<lbrakk>\<bar>x\<bar> < 2 ^ p; lo \<le> 0; 0 \<le> hi\<rbrakk> \<Longrightarrow> fl_exponent p lo hi x \<le> 0"
  using find_upto_le [of lo 0 hi "\<lambda>e. \<bar>x\<bar> < 2 ^ p * 2 powi e"] by (auto simp: fl_exponent_def)

lemma round_half_even_ge: "of_int n \<le> x \<Longrightarrow> n \<le> round_half_even x"
  unfolding round_half_even_def Let_def by (smt (verit) le_floor_iff)

lemma fl_ge_of_int:
  assumes "of_int n \<le> x" and "\<bar>x\<bar> < 2 ^ p" and "lo \<le> 0" and "0 \<le> hi"
  shows "of_int n \<le> fl p lo hi x"
proof -
  let ?e = "fl_exponent p lo hi x"
  have u: "(2 :: rat) powi ?e = 1 / 2 ^ nat (- ?e)"
    using fl_exponent_nonpos [OF assms(2-4)] by (simp add: power_int_def field_simps)
  have "of_int (n * 2 ^ nat (- ?e)) \<le> x / 2 powi ?e" using assms(1) unfolding u by simp
  then have "n * 2 ^ nat (- ?e) \<le> round_half_even (x / 2 powi ?e)" by (rule round_half_even_ge)
  then have "(of_int (n * 2 ^ nat (- ?e)) :: rat) \<le> of_int (round_half_even (x / 2 powi ?e))"
    by (simp only: of_int_le_iff)
  then show ?thesis unfolding fl_def Let_def u by (simp add: field_simps)
qed

lemma round_half_even_le: "x \<le> of_int n \<Longrightarrow> round_half_even x \<le> n"
  unfolding round_half_even_def Let_def by (cases "x = of_int n") (auto, linarith+)

lemma fl_le_of_int:
  assumes "x \<le> of_int n" and "\<bar>x\<bar> < 2 ^ p" and "lo \<le> 0" and "0 \<le> hi"
  shows "fl p lo hi x \<le> of_int n"
proof -
  let ?e = "fl_exponent p lo hi x"
  have u: "(2 :: rat) powi ?e = 1 / 2 ^ nat (- ?e)"
    using fl_exponent_nonpos [OF assms(2-4)] by (simp add: power_int_def field_simps)
  have "x / 2 powi ?e \<le> of_int (n * 2 ^ nat (- ?e))" using assms(1) unfolding u by simp
  then have "round_half_even (x / 2 powi ?e) \<le> n * 2 ^ nat (- ?e)" by (rule round_half_even_le)
  then have "(of_int (round_half_even (x / 2 powi ?e)) :: rat) \<le> of_int (n * 2 ^ nat (- ?e))"
    by (simp only: of_int_le_iff)
  then show ?thesis unfolding fl_def Let_def u by (simp add: field_simps)
qed

lemma fl_of_int_small:
  assumes "\<bar>n\<bar> < 2 ^ p" and "lo \<le> 0" and "0 \<le> hi"
  shows "fl p lo hi (of_int n) = of_int n"
proof -
  let ?e = "fl_exponent p lo hi (of_int n)"
  have "(of_int \<bar>n\<bar> :: rat) < of_int (2 ^ p)" using assms(1) by (simp only: of_int_less_iff)
  then have e: "?e \<le> 0" using fl_exponent_nonpos assms(2,3) by simp
  then have "(of_int n :: rat) / 2 powi ?e = of_int (n * 2 ^ nat (- ?e))"
    by (simp add: power_int_def field_simps)
  then show ?thesis
    using e by (simp only: fl_def Let_def round_half_even_of_int) (simp add: power_int_def field_simps)
qed

lemma round_half_even_sign:
  "x \<le> 0 \<Longrightarrow> round_half_even x \<le> 0"
proof -
  assume x: "x \<le> 0"
  show ?thesis
  proof (cases "x = 0")
    case False
    then have "\<lfloor>x\<rfloor> < 0" using x by simp
    then show ?thesis by (auto simp: round_half_even_def Let_def)
  qed (simp add: round_half_even_def)
qed

lemma fl_nonpos: "x \<le> 0 \<Longrightarrow> fl p lo hi x \<le> 0"
proof -
  assume "x \<le> 0"
  then have "round_half_even (x / 2 powi fl_exponent p lo hi x) \<le> 0"
    by (intro round_half_even_sign) (simp add: divide_nonpos_pos)
  then show ?thesis by (simp add: fl_def Let_def mult_nonpos_nonneg)
qed

lemma fl_nonneg: "0 \<le> x \<Longrightarrow> 0 \<le> fl p lo hi x"
proof -
  assume x: "0 \<le> x"
  then have "0 \<le> \<lfloor>x / 2 powi fl_exponent p lo hi x\<rfloor>" by simp
  then have "0 \<le> round_half_even (x / 2 powi fl_exponent p lo hi x)"
    by (auto simp: round_half_even_def Let_def)
  then show ?thesis by (simp add: fl_def Let_def)
qed

lemma f32_error:
  assumes "2 powi (-126) \<le> \<bar>x\<bar>" and "\<bar>x\<bar> < 2 powi 128"
  shows "\<bar>f32 x - x\<bar> \<le> \<bar>x\<bar> / 2 ^ 24"
  unfolding f32_def by (rule fl_error) (use assms in \<open>simp_all add: power_int_def power_divide\<close>)

lemma f64_error:
  assumes "2 powi (-1022) \<le> \<bar>x\<bar>" and "\<bar>x\<bar> < 2 powi 1024"
  shows "\<bar>f64 x - x\<bar> \<le> \<bar>x\<bar> / 2 ^ 53"
  unfolding f64_def by (rule fl_error) (use assms in \<open>simp_all add: power_int_def power_divide\<close>)

lemma f64_error_below:
  assumes "\<bar>x\<bar> < 2 ^ k" and "k \<le> 53"
  shows "x - 1 / 2 ^ (54 - k) \<le> f64 x" and "f64 x \<le> x + 1 / 2 ^ (54 - k)"
proof -
  have "(2 :: rat) powi (int k - 53) = 1 / 2 ^ (53 - k)" "(2 :: rat) ^ 53 * 2 powi (int k - 53) = 2 ^ k"
    using assms(2) power_add [of "2 :: rat" k "53 - k"] by (simp_all add: power_int_def field_simps nat_diff_distrib)
  moreover have "(2 :: rat) ^ (54 - k) = 2 * 2 ^ (53 - k)" using assms(2) by (simp add: Suc_diff_le flip: power_Suc)
  ultimately have "\<bar>f64 x - x\<bar> \<le> 1 / 2 ^ (54 - k)"
    using fl_abs_error [of "-1074" "int k - 53" 971 x 53] assms unfolding f64_def by simp
  then show "x - 1 / 2 ^ (54 - k) \<le> f64 x" and "f64 x \<le> x + 1 / 2 ^ (54 - k)"
    by (simp_all only: abs_le_iff) linarith+
qed

lemma f64_ge_of_int: "of_int n \<le> x \<Longrightarrow> \<bar>x\<bar> < 2 ^ 53 \<Longrightarrow> of_int n \<le> f64 x"
  unfolding f64_def by (rule fl_ge_of_int) simp_all

lemma f64_le_of_int: "x \<le> of_int n \<Longrightarrow> \<bar>x\<bar> < 2 ^ 53 \<Longrightarrow> f64 x \<le> of_int n"
  unfolding f64_def by (rule fl_le_of_int) simp_all

lemma f32_of_int_small: "\<bar>n\<bar> < 2 ^ 24 \<Longrightarrow> f32 (of_int n) = of_int n"
  unfolding f32_def by (rule fl_of_int_small) simp_all

lemma f64_of_int_small: "\<bar>n\<bar> < 2 ^ 53 \<Longrightarrow> f64 (of_int n) = of_int n"
  unfolding f64_def by (rule fl_of_int_small) simp_all

lemma f32_nonpos: "x \<le> 0 \<Longrightarrow> f32 x \<le> 0"
  unfolding f32_def by (rule fl_nonpos)

lemma f32_nonneg: "0 \<le> x \<Longrightarrow> 0 \<le> f32 x"
  unfolding f32_def by (rule fl_nonneg)

lemma f64_nonneg: "0 \<le> x \<Longrightarrow> 0 \<le> f64 x"
  unfolding f64_def by (rule fl_nonneg)

end
