(* ===== verification/Daq_Prelude.thy ===== *)
theory Daq_Prelude
  imports Main "HOL-Library.Word"
begin

text \<open>
  Shared vocabulary of the development: the machine integer types of the firmware, C's
  truncating division, the little-endian byte order in which both firmwares put 64-bit
  payloads on the bus and on the card, and ESP-IDF error codes.

  Conventions.  \<open>uint8_t\<close>, \<open>uint32_t\<close>, \<open>uint64_t\<close> and \<open>TickType_t\<close> are words, so they wrap
  as in C.  Values of type \<open>int64_t\<close> (microsecond and millisecond times) and \<open>int32_t\<close>
  (measurements) are \<open>int\<close>; where a C expression could leave its range a theorem states the
  bound under which it does not.  Calls into ESP-IDF and FreeRTOS are not definitions of
  this library: their results are arguments.
\<close>

unbundle bit_operations_syntax

type_synonym u8 = "8 word"
type_synonym u16 = "16 word"
type_synonym u32 = "32 word"
type_synonym u64 = "64 word"

named_theorems payload_simps \<open>packing and unpacking of sample payloads\<close>
named_theorems inv_intros \<open>preservation of component invariants\<close>
named_theorems frame_simps \<open>fields an operation leaves alone\<close>

subsection \<open>ESP-IDF error codes\<close>

text \<open>The codes the sources name; any other code is \<open>ESP_ERR_OTHER\<close>.\<close>

datatype esp_err =
    ESP_OK
  | ESP_FAIL
  | ESP_ERR_NO_MEM
  | ESP_ERR_INVALID_ARG
  | ESP_ERR_INVALID_STATE
  | ESP_ERR_NOT_FOUND
  | ESP_ERR_TIMEOUT
  | ESP_ERR_OTHER nat

subsection \<open>Words\<close>

lemma unat_ucast_u8_u32 [simp]: "unat (ucast (x :: u8) :: u32) = unat x"
proof -
  have "unat x < 2 ^ 8" using unsigned_less [of x] by simp
  then show ?thesis by (simp only: unsigned_ucast_eq) (simp add: take_bit_nat_eq_self)
qed

lemma uint_ucast_u32_u64 [simp]: "uint (ucast (x :: u32) :: u64) = uint x"
proof -
  have "uint x < 2 ^ 32" using uint_lt2p [of x] by simp
  then show ?thesis by (simp only: unsigned_ucast_eq) (simp add: take_bit_int_eq_self)
qed

text \<open>
  Differences of wrapping tick counters are exact as long as less than one full turn of the
  counter lies between the two readings.
\<close>

lemma unat_tick_diff:
  assumes "a \<le> b" and "b - a < 2 ^ 32"
  shows "unat ((word_of_nat b :: u32) - word_of_nat a) = b - a"
proof -
  have "(word_of_nat b :: u32) - word_of_nat a = word_of_nat (b - a)"
    using assms(1) by simp
  then show ?thesis using assms(2) by (simp only: unsigned_of_nat) (simp add: take_bit_nat_eq_self)
qed

lemma tick_diff_ge_iff:
  assumes "a \<le> b" and "b - a < 2 ^ 32"
  shows "(w :: u32) \<le> word_of_nat b - word_of_nat a \<longleftrightarrow> a + unat w \<le> b"
  unfolding word_le_nat_alt unat_tick_diff [OF assms] using assms(1) by linarith

text \<open>A quotient from bounds of the dividend.\<close>

lemma div_between:
  fixes x :: int
  assumes "0 < d" and "k * d \<le> x" and "x < (m + 1) * d"
  shows "k \<le> x div d" and "x div d \<le> m"
proof -
  have "x div d * d \<le> x" "x < (x div d + 1) * d"
    using assms(1) div_mult_mod_eq [of x d] pos_mod_bound [of d x] pos_mod_sign [of d x]
    unfolding distrib_right by linarith+
  then have "k * d < (x div d + 1) * d" "x div d * d < (m + 1) * d" using assms(2,3) by linarith+
  then show "k \<le> x div d" and "x div d \<le> m" using assms(1) by (simp_all add: mult_less_cancel_right_disj)
qed

subsection \<open>Signed ranges and C division\<close>

definition in_i32 :: "int \<Rightarrow> bool" where
  "in_i32 x \<longleftrightarrow> - (2 ^ 31) \<le> x \<and> x < 2 ^ 31"

definition in_i64 :: "int \<Rightarrow> bool" where
  "in_i64 x \<longleftrightarrow> - (2 ^ 63) \<le> x \<and> x < 2 ^ 63"

text \<open>Division of C: the quotient is truncated towards zero.\<close>

definition c_div :: "int \<Rightarrow> int \<Rightarrow> int" where
  "c_div a b = sgn a * sgn b * (\<bar>a\<bar> div \<bar>b\<bar>)"

lemma c_div_nonneg: "0 \<le> a \<Longrightarrow> 0 < b \<Longrightarrow> c_div a b = a div b"
  by (auto simp: c_div_def sgn_if)

lemma c_div_neg: "a < 0 \<Longrightarrow> 0 < b \<Longrightarrow> c_div a b = - ((- a) div b)"
  by (auto simp: c_div_def sgn_if)

lemma c_div_0 [simp]: "c_div 0 b = 0"
  by (simp add: c_div_def)

lemma c_div_mult [simp]: "0 < b \<Longrightarrow> c_div (a * b) b = a"
  by (simp add: c_div_def abs_mult sgn_mult sgn_mult_abs)

lemma c_div_mono: 
  assumes "0 < b" and "a \<le> a'"
  shows "c_div a b \<le> c_div a' b"
proof (cases "0 \<le> a")
  case True
  then show ?thesis using assms by (simp add: c_div_nonneg zdiv_mono1)
next
  case False
  then have a: "c_div a b = - ((- a) div b)" using assms by (simp add: c_div_neg)
  show ?thesis
  proof (cases "0 \<le> a'")
    case True
    have "0 \<le> (- a) div b" using False assms by (simp add: pos_imp_zdiv_nonneg_iff)
    moreover have "0 \<le> a' div b" using True assms by (simp add: pos_imp_zdiv_nonneg_iff)
    ultimately show ?thesis using a True assms by (simp add: c_div_nonneg)
  next
    case False
    have "(- a') div b \<le> (- a) div b" using assms by (intro zdiv_mono1) auto
    then show ?thesis using a False assms by (simp add: c_div_neg)
  qed
qed

lemma c_div_bounds:
  assumes "0 < b"
  shows "a - b < c_div a b * b" and "c_div a b * b < a + b"
proof -
  have m: "x div b * b \<le> x" "x < x div b * b + b" for x :: int
    using div_mult_mod_eq [of x b] pos_mod_bound [OF assms, of x] pos_mod_sign [OF assms, of x]
    by linarith+
  show "a - b < c_div a b * b"
    using m [of a] m [of "- a"] assms by (cases "0 \<le> a") (simp_all add: c_div_nonneg c_div_neg)
  show "c_div a b * b < a + b"
    using m [of a] m [of "- a"] assms by (cases "0 \<le> a") (simp_all add: c_div_nonneg c_div_neg)
qed

lemma c_div_abs_le:
  assumes "0 < b"
  shows "\<bar>c_div a b\<bar> \<le> \<bar>a\<bar> div b"
  using assms by (cases "0 \<le> a") (auto simp: c_div_nonneg c_div_neg pos_imp_zdiv_nonneg_iff)

lemma div_add_split:
  fixes a b d :: int
  assumes "0 < b"
  shows "a div b + d div b \<le> (a + d) div b" and "(a + d) div b \<le> a div b + d div b + 1"
proof -
  have sum: "(a + d) div b = a div b + d div b + (a mod b + d mod b) div b"
    by (rule div_add1_eq)
  have m: "0 \<le> a mod b + d mod b" "a mod b + d mod b < 2 * b"
    using pos_mod_sign [OF assms, of a] pos_mod_sign [OF assms, of d]
      pos_mod_bound [OF assms, of a] pos_mod_bound [OF assms, of d] by linarith+
  have "0 \<le> (a mod b + d mod b) div b" using m(1) assms by (simp add: pos_imp_zdiv_nonneg_iff)
  moreover have "(a mod b + d mod b) div b < 2"
  proof (rule ccontr)
    let ?q = "(a mod b + d mod b) div b"
    assume "\<not> ?q < 2"
    then have "2 * b \<le> ?q * b" using assms by (intro mult_right_mono) auto
    also have "\<dots> \<le> a mod b + d mod b"
      using div_mult_mod_eq [of "a mod b + d mod b" b] pos_mod_sign [OF assms, of "a mod b + d mod b"]
      by linarith
    finally show False using m(2) by simp
  qed
  ultimately show "a div b + d div b \<le> (a + d) div b" "(a + d) div b \<le> a div b + d div b + 1"
    using sum by linarith+
qed

lemma c_div_diff_le:
  assumes "0 < b" and "x \<le> y"
  shows "c_div y b - c_div x b \<le> (y - x) div b + 1"
proof -
  note S = div_add_split [OF assms(1)]
  consider "0 \<le> x" | "x < 0" "0 \<le> y" | "y < 0" by linarith
  then show ?thesis
  proof cases
    case 1
    then show ?thesis using S(2) [of x "y - x"] assms by (simp add: c_div_nonneg)
  next
    case 2
    then show ?thesis using S(1) [of y "- x"] assms by (simp add: c_div_nonneg c_div_neg)
  next
    case 3
    then show ?thesis using S(2) [of "- y" "y - x"] assms by (simp add: c_div_neg)
  qed
qed

end
