(* ===== verification/C_Format.thy ===== *)
theory C_Format
  imports Daq_Prelude
begin

text \<open>
  What the firmware uses of C's strings: character classes, \<open>snprintf\<close> with the decimal and
  hexadecimal conversions, and the digit strings they produce, with the inverse reading that
  makes formatted numbers distinct.  Strings are lists of characters without the closing NUL;
  \<open>snprintf\<close> into an array of \<open>n\<close> bytes keeps the first \<open>n - 1\<close> characters.
\<close>

definition snprintf :: "nat \<Rightarrow> string \<Rightarrow> string" where
  "snprintf n text = take (n - 1) text"

lemma snprintf_fits [simp]: "length text < n \<Longrightarrow> snprintf n text = text"
  by (simp add: snprintf_def)

subsection \<open>Character classes\<close>

definition char_isdigit :: "char \<Rightarrow> bool" where
  "char_isdigit c \<longleftrightarrow> 48 \<le> (of_char c :: nat) \<and> (of_char c :: nat) \<le> 57"

definition char_isupper :: "char \<Rightarrow> bool" where
  "char_isupper c \<longleftrightarrow> 65 \<le> (of_char c :: nat) \<and> (of_char c :: nat) \<le> 90"

definition char_islower :: "char \<Rightarrow> bool" where
  "char_islower c \<longleftrightarrow> 97 \<le> (of_char c :: nat) \<and> (of_char c :: nat) \<le> 122"

definition char_isalnum :: "char \<Rightarrow> bool" where
  "char_isalnum c \<longleftrightarrow> char_isdigit c \<or> char_isupper c \<or> char_islower c"

definition char_isxdigit :: "char \<Rightarrow> bool" where
  "char_isxdigit c \<longleftrightarrow> char_isdigit c \<or> (65 \<le> (of_char c :: nat) \<and> (of_char c :: nat) \<le> 70)
     \<or> (97 \<le> (of_char c :: nat) \<and> (of_char c :: nat) \<le> 102)"

lemmas char_class_defs = char_isdigit_def char_isupper_def char_islower_def char_isalnum_def
  char_isxdigit_def

subsection \<open>Decimal numbers\<close>

definition digit_char :: "nat \<Rightarrow> char" where
  "digit_char d = char_of (48 + d)"

definition digit_value :: "char \<Rightarrow> nat" where
  "digit_value c = of_char c - 48"

lemma of_char_digit_char: "d < 10 \<Longrightarrow> (of_char (digit_char d) :: nat) = 48 + d"
  by (simp add: digit_char_def)

lemma digit_value_char [simp]: "d < 10 \<Longrightarrow> digit_value (digit_char d) = d"
  by (simp add: digit_value_def of_char_digit_char)

lemma isdigit_digit_char [simp]: "d < 10 \<Longrightarrow> char_isdigit (digit_char d)"
  by (simp add: char_isdigit_def of_char_digit_char)

text \<open>\<open>%u\<close>: the shortest decimal numeral.\<close>

fun dec :: "nat \<Rightarrow> string" where
  "dec n = (if n < 10 then [digit_char n] else dec (n div 10) @ [digit_char (n mod 10)])"

declare dec.simps [simp del]

text \<open>\<open>%0wu\<close>: padded with zeros to at least \<open>w\<close> characters.\<close>

definition zero_pad :: "nat \<Rightarrow> string \<Rightarrow> string" where
  "zero_pad w text = replicate (w - length text) (digit_char 0) @ text"

definition dec_pad :: "nat \<Rightarrow> nat \<Rightarrow> string" where
  "dec_pad w n = zero_pad w (dec n)"

text \<open>\<open>%d\<close>.\<close>

definition dec_int :: "int \<Rightarrow> string" where
  "dec_int i = (if i < 0 then ''-'' @ dec (nat (- i)) else dec (nat i))"

text \<open>The number a digit string stands for.\<close>

definition dec_value :: "string \<Rightarrow> nat" where
  "dec_value text = foldl (\<lambda>v c. 10 * v + digit_value c) 0 text"

lemma dec_value_snoc [simp]: "dec_value (s @ [c]) = 10 * dec_value s + digit_value c"
  by (simp add: dec_value_def)

lemma dec_value_dec [simp]: "dec_value (dec n) = n"
proof (induction n rule: dec.induct)
  case (1 n)
  show ?case
  proof (cases "n < 10")
    case True
    then show ?thesis by (subst dec.simps) (simp add: dec_value_def)
  next
    case False
    have "10 * (n div 10) + n mod 10 = n" by (rule mult_div_mod_eq)
    then show ?thesis using False 1 [OF False] by (subst dec.simps) simp
  qed
qed

lemma dec_value_zero_pad [simp]: "dec_value (zero_pad w s) = dec_value s"
proof -
  have "dec_value (replicate k (digit_char 0) @ s) = dec_value s" for k
    by (induction k) (simp_all add: dec_value_def)
  then show ?thesis by (simp add: zero_pad_def)
qed

lemma dec_value_dec_pad [simp]: "dec_value (dec_pad w n) = n"
  by (simp add: dec_pad_def)

lemma dec_pad_inject [simp]: "dec_pad w m = dec_pad w n \<longleftrightarrow> m = n"
  by (metis dec_value_dec_pad)

lemma length_dec_less: "n < 10 ^ k \<Longrightarrow> 0 < k \<Longrightarrow> length (dec n) \<le> k"
proof (induction k arbitrary: n)
  case (Suc k)
  show ?case
  proof (cases "n < 10")
    case True
    then show ?thesis by (subst dec.simps) simp
  next
    case False
    then have "0 < k" using Suc.prems(1) by (cases k) auto
    moreover have "n div 10 < 10 ^ k" using Suc.prems(1) by (simp add: less_mult_imp_div_less mult.commute)
    ultimately have "length (dec (n div 10)) \<le> k" by (rule Suc.IH [rotated])
    then show ?thesis using False by (subst dec.simps) simp
  qed
qed simp

lemma length_zero_pad [simp]: "length (zero_pad w s) = max w (length s)"
  by (simp add: zero_pad_def max_def)

lemma length_dec_pad: "n < 10 ^ w \<Longrightarrow> 0 < w \<Longrightarrow> length (dec_pad w n) = w"
  using length_dec_less [of n w] by (simp add: dec_pad_def max_def)

lemma length_dec_int: "\<bar>i\<bar> < 10 ^ k \<Longrightarrow> 0 < k \<Longrightarrow> length (dec_int i) \<le> Suc k"
proof -
  assume a: "\<bar>i\<bar> < 10 ^ k" and k: "0 < k"
  have "nat \<bar>i\<bar> < 10 ^ k" using a by (simp add: nat_less_iff)
  then have "length (dec (nat \<bar>i\<bar>)) \<le> k" by (rule length_dec_less [OF _ k])
  then show ?thesis by (auto simp: dec_int_def)
qed

lemma set_dec_isdigit: "\<forall>c \<in> set (dec n). char_isdigit c"
proof (induction n rule: dec.induct)
  case (1 n)
  then show ?case by (subst dec.simps) auto
qed

lemma set_dec_pad_isdigit: "\<forall>c \<in> set (dec_pad w n). char_isdigit c"
  using set_dec_isdigit [of n] by (auto simp: dec_pad_def zero_pad_def)

subsection \<open>Hexadecimal numbers\<close>

definition hex_char :: "bool \<Rightarrow> nat \<Rightarrow> char" where
  "hex_char upper d = (if d < 10 then char_of (48 + d) else char_of ((if upper then 55 else 87) + d))"

fun hex :: "bool \<Rightarrow> nat \<Rightarrow> string" where
  "hex upper n = (if n < 16 then [hex_char upper n] else hex upper (n div 16) @ [hex_char upper (n mod 16)])"

declare hex.simps [simp del]

definition hex_value :: "char \<Rightarrow> nat" where
  "hex_value c = (let n = of_char c in if n \<le> 57 then n - 48 else if n \<le> 70 then n - 55 else n - 87)"

lemma hex_value_char [simp]: "d < 16 \<Longrightarrow> hex_value (hex_char upper d) = d"
  by (simp add: hex_value_def hex_char_def Let_def)

lemma isxdigit_hex_char [simp]: "d < 16 \<Longrightarrow> char_isxdigit (hex_char upper d)"
  by (auto simp: char_class_defs hex_char_def)

definition hex_number :: "string \<Rightarrow> nat" where
  "hex_number text = foldl (\<lambda>v c. 16 * v + hex_value c) 0 text"

lemma hex_number_snoc [simp]: "hex_number (s @ [c]) = 16 * hex_number s + hex_value c"
  by (simp add: hex_number_def)

lemma hex_number_hex [simp]: "hex_number (hex upper n) = n"
proof (induction upper n rule: hex.induct)
  case (1 upper n)
  show ?case
  proof (cases "n < 16")
    case True
    then show ?thesis by (subst hex.simps) (simp add: hex_number_def)
  next
    case False
    have "16 * (n div 16) + n mod 16 = n" by (rule mult_div_mod_eq)
    then show ?thesis using False 1 [OF False] by (subst hex.simps) simp
  qed
qed

lemma length_hex_less: "n < 16 ^ k \<Longrightarrow> 0 < k \<Longrightarrow> length (hex upper n) \<le> k"
proof (induction k arbitrary: n)
  case (Suc k)
  show ?case
  proof (cases "n < 16")
    case True
    then show ?thesis by (subst hex.simps) simp
  next
    case False
    then have "0 < k" using Suc.prems(1) by (cases k) auto
    moreover have "n div 16 < 16 ^ k" using Suc.prems(1) by (simp add: less_mult_imp_div_less mult.commute)
    ultimately have "length (hex upper (n div 16)) \<le> k" by (rule Suc.IH [rotated])
    then show ?thesis using False by (subst hex.simps) simp
  qed
qed simp

end
