(* ===== verification/C_Time.thy ===== *)
theory C_Time
  imports C_Format
begin

text \<open>
  The calendar: \<open>leap_year\<close> and the month table of \<open>gps/rmc_parser.c\<close>, and the part of C's
  \<open>gmtime_r\<close> and \<open>strftime\<close> the logger and the exporters use, for times from 1970 on.  The main
  fact is that \<open>gmtime\<close> inverts the day count.
\<close>

definition leap_year :: "nat \<Rightarrow> bool" where
  "leap_year year \<longleftrightarrow> year mod 4 = 0 \<and> (year mod 100 \<noteq> 0 \<or> year mod 400 = 0)"

definition month_days :: "nat list" where
  "month_days = [31, 28, 31, 30, 31, 30, 31, 31, 30, 31, 30, 31]"

text \<open>\<open>month_days[m - 1] + (m == 2 && leap_year(year))\<close>.\<close>

definition days_in_month :: "nat \<Rightarrow> nat \<Rightarrow> nat" where
  "days_in_month year m = month_days ! (m - 1) + (if m = 2 \<and> leap_year year then 1 else 0)"

definition days_in_year :: "nat \<Rightarrow> nat" where
  "days_in_year year = 365 + (if leap_year year then 1 else 0)"

text \<open>The days before a date since 1970, as \<open>parse_utc\<close> adds them up.\<close>

definition days_before :: "nat \<Rightarrow> nat \<Rightarrow> nat \<Rightarrow> nat" where
  "days_before year month day =
     (day - 1) + sum_list (map days_in_year [1970..<year]) + sum_list (map (days_in_month year) [1..<month])"

subsection \<open>\<open>gmtime_r\<close>\<close>

record tm =
  tm_year :: nat
  tm_mon :: nat
  tm_mday :: nat
  tm_hour :: nat
  tm_min :: nat
  tm_sec :: nat

function year_and_day :: "nat \<Rightarrow> nat \<Rightarrow> nat \<times> nat" where
  "year_and_day year day =
     (if day < days_in_year year then (year, day)
      else year_and_day (Suc year) (day - days_in_year year))"
  by auto
termination by (relation "measure snd") (auto simp: days_in_year_def)

declare year_and_day.simps [simp del]

fun month_and_day :: "nat \<Rightarrow> nat \<Rightarrow> nat list \<Rightarrow> nat \<times> nat" where
  "month_and_day m day [] = (m, day)"
| "month_and_day m day (len # lens) =
     (if day < len then (m, day) else month_and_day (Suc m) (day - len) lens)"

definition gmtime :: "nat \<Rightarrow> tm" where
  "gmtime seconds =
     (let (year, yday) = year_and_day 1970 (seconds div 86400);
          (month, mday) = month_and_day 1 yday (map (days_in_month year) [1..<13]);
          rest = seconds mod 86400
      in \<lparr>tm_year = year, tm_mon = month, tm_mday = mday + 1,
          tm_hour = rest div 3600, tm_min = rest mod 3600 div 60, tm_sec = rest mod 60\<rparr>)"

lemma year_and_day_add:
  "yday < days_in_year (y + k) \<Longrightarrow>
   year_and_day y (sum_list (map days_in_year [y..<y + k]) + yday) = (y + k, yday)"
proof (induction k arbitrary: y)
  case 0
  then show ?case by (simp add: year_and_day.simps)
next
  case (Suc k)
  have "[y..<y + Suc k] = y # [Suc y..<Suc y + k]" by (simp add: upt_rec)
  then have "year_and_day y (sum_list (map days_in_year [y..<y + Suc k]) + yday)
      = year_and_day (Suc y) (sum_list (map days_in_year [Suc y..<Suc y + k]) + yday)"
    by (subst year_and_day.simps) simp
  then show ?case using Suc.IH [of "Suc y"] Suc.prems by simp
qed

lemma month_and_day_add:
  "k < length lens \<Longrightarrow> mday < lens ! k \<Longrightarrow>
   month_and_day m (sum_list (take k lens) + mday) lens = (m + k, mday)"
proof (induction lens arbitrary: k m)
  case (Cons len lens)
  then show ?case by (cases k) auto
qed simp

lemma sum_months_le:
  assumes "month \<le> 12"
  shows "sum_list (map (days_in_month year) [1..<Suc month]) \<le> days_in_year year"
proof -
  have "[1..<13] = [1..<Suc month] @ [Suc month..<13]"
    using assms upt_add_eq_append [of 1 "Suc month" "12 - month"] by simp
  then have "sum_list (map (days_in_month year) [1..<Suc month])
      \<le> sum_list (map (days_in_month year) [1..<13])" by simp
  also have "\<dots> = days_in_year year"
    by (simp add: upt_rec days_in_month_def month_days_def days_in_year_def)
  finally show ?thesis .
qed

text \<open>\<open>gmtime\<close> reads back the date and time that \<open>days_before\<close> turned into seconds.\<close>

lemma gmtime_days_before:
  assumes "1970 \<le> year" and "1 \<le> month" and "month \<le> 12"
    and "1 \<le> day" and "day \<le> days_in_month year month"
    and "hour < 24" and "minute < 60" and "second < 60"
  shows "gmtime ((days_before year month day * 24 + hour) * 3600 + minute * 60 + second) =
    \<lparr>tm_year = year, tm_mon = month, tm_mday = day, tm_hour = hour, tm_min = minute, tm_sec = second\<rparr>"
proof -
  let ?days = "days_before year month day"
  let ?rest = "hour * 3600 + minute * 60 + second"
  let ?yday = "sum_list (map (days_in_month year) [1..<month]) + (day - 1)"
  have rest: "?rest < 86400" using assms(6-8) by simp
  have split: "(?days * 24 + hour) * 3600 + minute * 60 + second = ?days * 86400 + ?rest" by simp
  have "[1..<Suc month] = [1..<month] @ [month]" using assms(2) by simp
  then have "?yday < sum_list (map (days_in_month year) [1..<Suc month])" using assms(4,5) by simp
  then have "?yday < days_in_year year" using sum_months_le [OF assms(3), of year] by linarith
  moreover have "?days = sum_list (map days_in_year [1970..<1970 + (year - 1970)]) + ?yday"
    using assms(1) by (simp add: days_before_def)
  ultimately have y: "year_and_day 1970 ?days = (year, ?yday)"
    using year_and_day_add [of ?yday 1970 "year - 1970"] assms(1) by simp
  have lens: "take (month - 1) (map (days_in_month year) [1..<13]) = map (days_in_month year) [1..<month]"
    using assms(2,3) by (simp add: take_map)
  have nth: "map (days_in_month year) [1..<13] ! (month - 1) = days_in_month year month"
    using assms(2,3) by simp
  have "month_and_day 1 ?yday (map (days_in_month year) [1..<13]) = (1 + (month - 1), day - 1)"
    unfolding lens [symmetric] by (rule month_and_day_add) (use assms(2-5) nth in auto)
  then have m: "month_and_day 1 ?yday (map (days_in_month year) [1..<13]) = (month, day - 1)"
    using assms(2) by simp
  have h: "?rest div 3600 = hour" "?rest mod 3600 div 60 = minute" "?rest mod 60 = second"
  proof -
    have r: "?rest = hour * 3600 + (minute * 60 + second)" and b: "minute * 60 + second < 3600"
      using assms(7,8) by simp_all
    show "?rest div 3600 = hour" unfolding r using b by simp
    have "?rest mod 3600 = minute * 60 + second" unfolding r using b by simp
    then show "?rest mod 3600 div 60 = minute" using assms(8) by simp
    show "?rest mod 60 = second"
      using assms(8) mod_mult_self3 [of "hour * 60 + minute" 60 second] by (simp add: algebra_simps)
  qed
  have d: "(?days * 86400 + ?rest) div 86400 = ?days" "(?days * 86400 + ?rest) mod 86400 = ?rest"
    using rest by simp_all
  show ?thesis unfolding gmtime_def split d y Let_def prod.case m h using assms(4) by simp
qed

subsection \<open>\<open>strftime\<close>\<close>

text \<open>\<open>strftime\<close> gives None (0 in C) when the text and its NUL do not fit.\<close>

definition strftime :: "nat \<Rightarrow> string \<Rightarrow> string option" where
  "strftime n text = (if length text < n then Some text else None)"

definition strftime_date :: "tm \<Rightarrow> string" where
  "strftime_date t = dec (tm_year t) @ ''-'' @ dec_pad 2 (tm_mon t) @ ''-'' @ dec_pad 2 (tm_mday t)"

definition strftime_time :: "string \<Rightarrow> tm \<Rightarrow> string" where
  "strftime_time sep t = dec_pad 2 (tm_hour t) @ sep @ dec_pad 2 (tm_min t) @ sep @ dec_pad 2 (tm_sec t)"

end
