(* ===== verification/Rmc_Parser.thy ===== *)
theory Rmc_Parser
  imports C_Float C_Time
begin

text \<open>
  The NMEA sentence parser \<open>gps/rmc_parser.c\<close>.  A C string is a list of characters without its
  closing NUL; arrays of 24 bytes hold parts of at most 23 characters.  \<open>strtod\<close> is the
  correctly rounded value of the numeral and the arithmetic on \<open>double\<close> is that of \<open>C_Float\<close>.
\<close>

subsection \<open>Numerals\<close>

definition strtod :: "string \<Rightarrow> string \<Rightarrow> rat" where
  "strtod whole fraction = f64 (of_nat (dec_value (whole @ fraction)) / 10 ^ length fraction)"

definition decimal :: "string \<Rightarrow> rat option" where
  "decimal text =
     (let whole = takeWhile char_isdigit text; rest = dropWhile char_isdigit text
      in if whole = [] then None
         else
           (case rest of
              [] \<Rightarrow> Some (strtod whole [])
            | c # after \<Rightarrow>
                if c \<noteq> CHR ''.'' then None
                else
                  (let fraction = takeWhile char_isdigit after
                   in if fraction = [] \<or> dropWhile char_isdigit after \<noteq> [] then None
                      else Some (strtod whole fraction))))"

text \<open>The number of the first \<open>n\<close> characters; \<open>-1\<close> in C where one of them is no digit.\<close>

definition digits :: "string \<Rightarrow> nat \<Rightarrow> nat option" where
  "digits text n =
     (if length (take n text) = n \<and> list_all char_isdigit (take n text)
      then Some (dec_value (take n text)) else None)"

subsection \<open>Coordinates\<close>

text \<open>The conversion of a numeral in degrees and minutes to ten-millionths of a degree.\<close>

definition coordinate_scaled :: "rat \<Rightarrow> int option" where
  "coordinate_scaled raw =
     (let degrees = \<lfloor>f64 (raw / 100)\<rfloor>;
          minutes = f64 (raw - f64 (of_int degrees * 100))
      in if minutes \<ge> 60 then None
         else Some \<lfloor>f64 (f64 (f64 (of_int degrees + f64 (minutes / 60)) * 10000000) + 1 / 2)\<rfloor>)"

definition coordinate :: "string \<Rightarrow> string \<Rightarrow> bool \<Rightarrow> int option" where
  "coordinate text hemisphere latitude =
     (let width = (if latitude then 4 else 5)
      in if length text < width \<or> (length text > width \<and> text ! width \<noteq> CHR ''.'') then None
         else if \<not> list_all char_isdigit (take width text) then None
         else
           let positive = (if latitude then CHR ''N'' else CHR ''E'');
               negative = (if latitude then CHR ''S'' else CHR ''W'')
           in if length hemisphere \<noteq> 1 \<or> (hemisphere ! 0 \<noteq> positive \<and> hemisphere ! 0 \<noteq> negative) then None
              else
                (case decimal text of
                   None \<Rightarrow> None
                 | Some raw \<Rightarrow>
                     let maximum = (if latitude then 90 else 180)
                     in if raw > maximum * 100 then None
                        else
                          (case coordinate_scaled raw of
                             None \<Rightarrow> None
                           | Some scaled \<Rightarrow> Some (if hemisphere ! 0 = negative then - scaled else scaled))))"

subsection \<open>Fields\<close>

definition nmea_checksum :: "string \<Rightarrow> u8" where
  "nmea_checksum chars = foldl (\<lambda>c x. c XOR of_char x) 0 chars"

text \<open>The loop over the characters before the star, \<open>cur\<close> being the field begun.\<close>

fun split_fields :: "string \<Rightarrow> string \<Rightarrow> string list option" where
  "split_fields cur [] = (if length cur \<ge> 24 then None else Some [cur])"
| "split_fields cur (c # cs) =
     (if c \<noteq> CHR '',''
      then (if (of_char c :: nat) < 32 \<or> (of_char c :: nat) > 126 then None else split_fields (cur @ [c]) cs)
      else if length cur \<ge> 24 then None
      else (case split_fields [] cs of None \<Rightarrow> None | Some parts \<Rightarrow> Some (cur # parts)))"

definition fields_from_rmc :: "string \<Rightarrow> string list option" where
  "fields_from_rmc line =
     (if line = [] \<or> line ! 0 \<noteq> CHR ''$'' then None
      else
        let payload = takeWhile (\<lambda>c. c \<noteq> CHR ''*'') (drop 1 line);
            star = dropWhile (\<lambda>c. c \<noteq> CHR ''*'') (drop 1 line)
        in if length star \<noteq> 3 \<or> \<not> char_isxdigit (star ! 1) \<or> \<not> char_isxdigit (star ! 2) then None
           else if unat (nmea_checksum payload) \<noteq> hex_number (drop 1 star) then None
           else
             (case split_fields [] payload of
                None \<Rightarrow> None
              | Some parts \<Rightarrow>
                  if length parts \<ge> 10 \<and> length (parts ! 0) = 5
                     \<and> char_isupper (parts ! 0 ! 0) \<and> char_isupper (parts ! 0 ! 1)
                     \<and> drop 2 (parts ! 0) = ''RMC'' \<and> parts ! 2 = ''A''
                  then Some (take 10 parts) else None))"

subsection \<open>UTC\<close>

fun fraction_ms :: "string \<Rightarrow> nat \<Rightarrow> nat \<Rightarrow> nat option" where
  "fraction_ms [] scale milliseconds = Some milliseconds"
| "fraction_ms (c # cs) scale milliseconds =
     (if \<not> char_isdigit c then None
      else fraction_ms cs (scale div 10) (milliseconds + digit_value c * scale))"

definition parse_utc :: "string \<Rightarrow> string \<Rightarrow> nat option" where
  "parse_utc time date =
     (if length date \<noteq> 6 \<or> length time < 6
         \<or> (length time > 6 \<and> (time ! 6 \<noteq> CHR ''.'' \<or> length time = 7)) then None
      else
        (case (digits time 2, digits (drop 2 time) 2, digits (drop 4 time) 2) of
           (Some hour, Some minute, Some second) \<Rightarrow>
             if hour > 23 \<or> minute > 59 \<or> second > 59 then None
             else
               (case fraction_ms (drop 7 time) 100 0 of
                  None \<Rightarrow> None
                | Some milliseconds \<Rightarrow>
                    (case (digits date 2, digits (drop 2 date) 2, digits (drop 4 date) 2) of
                       (day, Some month, Some short_year) \<Rightarrow>
                         if short_year < 20 \<or> month < 1 \<or> month > 12 then None
                         else
                           let year = 2000 + short_year
                           in (case day of
                                 None \<Rightarrow> None
                               | Some day \<Rightarrow>
                                   if day < 1 \<or> day > days_in_month year month then None
                                   else Some (((days_before year month day * 24 + hour) * 3600
                                              + minute * 60 + second) * 1000 + milliseconds))
                     | _ \<Rightarrow> None))
         | _ \<Rightarrow> None))"

subsection \<open>The parser\<close>

record gps_rmc_fix =
  fix_utc_ms :: int
  fix_latitude_e7 :: int
  fix_longitude_e7 :: int
  fix_speed_kph_x100 :: int
  has_location :: bool
  has_speed :: bool
  has_utc :: bool

definition no_fix :: gps_rmc_fix where
  "no_fix = \<lparr>fix_utc_ms = 0, fix_latitude_e7 = 0, fix_longitude_e7 = 0, fix_speed_kph_x100 = 0,
     has_location = False, has_speed = False, has_utc = False\<rparr>"

definition rmc_location :: "string list \<Rightarrow> gps_rmc_fix \<Rightarrow> gps_rmc_fix option" where
  "rmc_location parts parsed =
     (if parts ! 3 = [] \<and> parts ! 4 = [] \<and> parts ! 5 = [] \<and> parts ! 6 = [] then Some parsed
      else
        (case coordinate (parts ! 3) (parts ! 4) True of
           None \<Rightarrow> None
         | Some latitude \<Rightarrow>
             (case coordinate (parts ! 5) (parts ! 6) False of
                None \<Rightarrow> None
              | Some longitude \<Rightarrow>
                  Some (parsed\<lparr>fix_latitude_e7 := latitude, fix_longitude_e7 := longitude, has_location := True\<rparr>))))"

definition rmc_speed :: "string list \<Rightarrow> gps_rmc_fix \<Rightarrow> gps_rmc_fix option" where
  "rmc_speed parts parsed =
     (if parts ! 7 = [] then Some parsed
      else
        (case decimal (parts ! 7) of
           None \<Rightarrow> None
         | Some knots \<Rightarrow>
             let speed = f64 (knots * f64 (1852 / 10))
             in if speed > 65535 then None
                else Some (parsed\<lparr>fix_speed_kph_x100 := \<lfloor>f64 (speed + 1 / 2)\<rfloor>, has_speed := True\<rparr>)))"

text \<open>The result and what it stores through \<open>fix\<close>.\<close>

definition gps_rmc_parse :: "string \<Rightarrow> bool \<times> gps_rmc_fix" where
  "gps_rmc_parse line =
     (case fields_from_rmc line of
        None \<Rightarrow> (False, no_fix)
      | Some parts \<Rightarrow>
          (case rmc_location parts no_fix of
             None \<Rightarrow> (False, no_fix)
           | Some parsed \<Rightarrow>
               (case rmc_speed parts parsed of
                  None \<Rightarrow> (False, no_fix)
                | Some parsed \<Rightarrow>
                    (True,
                     (case parse_utc (parts ! 1) (parts ! 9) of
                        None \<Rightarrow> parsed\<lparr>has_utc := False\<rparr>
                      | Some utc \<Rightarrow> parsed\<lparr>fix_utc_ms := int utc, has_utc := True\<rparr>)))))"

lemma no_fix_on_failure: "\<not> fst (gps_rmc_parse line) \<Longrightarrow> snd (gps_rmc_parse line) = no_fix"
  by (auto simp: gps_rmc_parse_def split: option.splits)

subsection \<open>UTC is read exactly\<close>

lemma two_digits_inverse:
  assumes "length t = 2" and "list_all char_isdigit t"
  shows "dec_pad 2 (dec_value t) = t"
proof -
  obtain a b where t: "t = [a, b]" using assms(1) by (auto simp: length_Suc_conv numeral_2_eq_2)
  have d: "digit_value a < 10" "digit_value b < 10" "digit_char (digit_value a) = a" "digit_char (digit_value b) = b"
    using assms(2) by (auto simp: t char_isdigit_def digit_value_def digit_char_def)
  have v: "dec_value t = 10 * digit_value a + digit_value b" by (simp add: t dec_value_def)
  show ?thesis
  proof (cases "digit_value a = 0")
    case True
    have "a = digit_char 0" using True d(3) by simp
    moreover have "dec (digit_value b) = [b]" using d by (simp add: dec.simps [of "digit_value b"])
    ultimately show ?thesis unfolding v True by (simp add: dec_pad_def zero_pad_def t)
  next
    case False
    then have "\<not> 10 * digit_value a + digit_value b < 10" by simp
    moreover have "(10 * digit_value a + digit_value b) div 10 = digit_value a"
      "(10 * digit_value a + digit_value b) mod 10 = digit_value b" using d by simp_all
    ultimately have "dec (10 * digit_value a + digit_value b) = [a, b]"
      using d by (simp add: dec.simps [of "10 * digit_value a + digit_value b"] dec.simps [of "digit_value a"])
    then show ?thesis unfolding v by (simp add: dec_pad_def zero_pad_def t)
  qed
qed

lemma digits_SomeD:
  "digits text n = Some v \<Longrightarrow> length (take n text) = n \<and> list_all char_isdigit (take n text) \<and> v = dec_value (take n text)"
  by (simp add: digits_def split: if_splits)

lemma digits_two_Some: "digits text 2 = Some v \<Longrightarrow> dec_pad 2 v = take 2 text"
  using digits_SomeD [of "text" 2 v] two_digits_inverse [of "take 2 text"] by simp

lemma list_all_dec_pad: "list_all char_isdigit (dec_pad w n)"
  using set_dec_pad_isdigit [of w n] by (simp add: list_all_iff)

lemma digits_dec_pad:
  assumes "n < 100"
  shows "digits (dec_pad 2 n @ rest) 2 = Some n"
  using assms length_dec_pad [of n 2] list_all_dec_pad [of 2 n] by (simp add: digits_def)

text \<open>The milliseconds of the first three fraction digits; further digits weigh nothing.\<close>

definition fraction_value :: "string \<Rightarrow> nat" where
  "fraction_value ds =
     (if length ds > 0 then digit_value (ds ! 0) * 100 else 0)
     + (if length ds > 1 then digit_value (ds ! 1) * 10 else 0)
     + (if length ds > 2 then digit_value (ds ! 2) else 0)"

lemma fraction_ms_zero: "fraction_ms ds 0 m = (if list_all char_isdigit ds then Some m else None)"
  by (induction ds arbitrary: m) simp_all

lemma fraction_ms_value:
  "fraction_ms ds 100 0 = (if list_all char_isdigit ds then Some (fraction_value ds) else None)"
proof -
  consider "ds = []" | a where "ds = [a]" | a b where "ds = [a, b]" | a b c rest where "ds = a # b # c # rest"
    by (metis neq_Nil_conv)
  then show ?thesis
    by cases (simp_all add: fraction_value_def fraction_ms_zero)
qed

lemma fraction_value_less:
  assumes "list_all char_isdigit ds"
  shows "fraction_value ds < 1000"
proof -
  have d: "digit_value c < 10" if "char_isdigit c" for c
    using that by (auto simp: char_isdigit_def digit_value_def)
  consider "ds = []" | a where "ds = [a]" | a b where "ds = [a, b]" | a b c rest where "ds = a # b # c # rest"
    by (metis neq_Nil_conv)
  then show ?thesis
  proof cases
    case (4 a b c rest)
    then have "digit_value a < 10" "digit_value b < 10" "digit_value c < 10" using assms d by auto
    then show ?thesis using 4 by (simp add: fraction_value_def)
  next
    case (3 a b)
    then have "digit_value a < 10" "digit_value b < 10" using assms d by auto
    then show ?thesis using 3 by (simp add: fraction_value_def)
  next
    case (2 a)
    then have "digit_value a < 10" using assms d by auto
    then show ?thesis using 2 by (simp add: fraction_value_def)
  qed (simp add: fraction_value_def)
qed

lemma parse_utc_SomeD:
  assumes "parse_utc time date = Some utc"
  obtains hour minute second day month short_year where
    "digits time 2 = Some hour" "digits (drop 2 time) 2 = Some minute" "digits (drop 4 time) 2 = Some second"
    "digits date 2 = Some day" "digits (drop 2 date) 2 = Some month" "digits (drop 4 date) 2 = Some short_year"
    "hour < 24" "minute < 60" "second < 60" "20 \<le> short_year" "1 \<le> month" "month \<le> 12" "1 \<le> day"
    "day \<le> days_in_month (2000 + short_year) month" "list_all char_isdigit (drop 7 time)" "length date = 6"
    "utc = ((days_before (2000 + short_year) month day * 24 + hour) * 3600 + minute * 60 + second) * 1000
       + fraction_value (drop 7 time)"
  using assms unfolding parse_utc_def fraction_ms_value
  by (auto simp: Let_def not_less split: if_splits option.splits)

lemma parse_utc_print:
  assumes "1 \<le> month" and "month \<le> 12" and "1 \<le> day" and "day \<le> days_in_month (2000 + short_year) month"
    and "hour < 24" and "minute < 60" and "second < 60" and "20 \<le> short_year" and "short_year < 100"
    and "ds = [] \<or> (\<exists>fs. ds = CHR ''.'' # fs \<and> fs \<noteq> [] \<and> list_all char_isdigit fs)"
  shows "parse_utc (dec_pad 2 hour @ dec_pad 2 minute @ dec_pad 2 second @ ds)
      (dec_pad 2 day @ dec_pad 2 month @ dec_pad 2 short_year) =
    Some (((days_before (2000 + short_year) month day * 24 + hour) * 3600 + minute * 60 + second) * 1000
       + fraction_value (drop 1 ds))"
proof -
  have day: "day < 100"
  proof -
    have "month_days ! k \<le> 31" if "k < 12" for k
      using that by (auto simp: month_days_def less_Suc_eq eval_nat_numeral)
    then have "month_days ! (month - 1) \<le> 31" using assms(1,2) by simp
    then have "days_in_month (2000 + short_year) month \<le> 32" unfolding days_in_month_def by (auto split: if_splits)
    then show ?thesis using assms(4) by linarith
  qed
  have len: "length (dec_pad 2 n) = 2" if "n < 100" for n using length_dec_pad [of n 2] that by simp
  have L: "length (dec_pad 2 hour) = 2" "length (dec_pad 2 minute) = 2" "length (dec_pad 2 second) = 2"
      "length (dec_pad 2 day) = 2" "length (dec_pad 2 month) = 2" "length (dec_pad 2 short_year) = 2"
    using assms day by (auto intro!: len)
  let ?time = "dec_pad 2 hour @ dec_pad 2 minute @ dec_pad 2 second @ ds"
  let ?date = "dec_pad 2 day @ dec_pad 2 month @ dec_pad 2 short_year"
  have dg: "digits ?time 2 = Some hour" "digits (drop 2 ?time) 2 = Some minute" "digits (drop 4 ?time) 2 = Some second"
      "digits ?date 2 = Some day" "digits (drop 2 ?date) 2 = Some month" "digits (drop 4 ?date) 2 = Some short_year"
    using assms day L digits_dec_pad [of second ds] digits_dec_pad [of short_year "[]"]
    by (simp_all add: digits_dec_pad)
  have tl: "drop 7 ?time = drop 1 ds" "length ?time = 6 + length ds" "length ?date = 6"
    using L by simp_all
  have t6: "?time ! 6 = ds ! 0" if "ds \<noteq> []" using L by (simp add: nth_append)
  have "list_all char_isdigit (drop 1 ds)" using assms(10) by auto
  then have ms: "fraction_ms (drop 7 ?time) 100 0 = Some (fraction_value (drop 1 ds))"
    by (simp only: tl fraction_ms_value if_True)
  have guard: "\<not> (length ?date \<noteq> 6 \<or> length ?time < 6
         \<or> (length ?time > 6 \<and> (?time ! 6 \<noteq> CHR ''.'' \<or> length ?time = 7)))"
    using assms(10) tl t6 by auto
  show ?thesis
    unfolding parse_utc_def if_not_P [OF guard] dg option.case prod.case ms Let_def
    using assms by simp
qed

text \<open>
  C32: UTC is read exactly.  Printing and parsing are inverse: every valid date from 2020 to 2099
  with any number of fraction digits is accepted with its milliseconds, and whenever a time and
  date are accepted, \<open>gmtime\<close> of the result gives back the six digits of each, so no two
  different accepted times of a day and date are read as the same second.
\<close>
theorem utc_read_exactly:
  "(1 \<le> month \<and> month \<le> 12 \<and> 1 \<le> day \<and> day \<le> days_in_month (2000 + short_year) month
      \<and> hour < 24 \<and> minute < 60 \<and> second < 60 \<and> 20 \<le> short_year \<and> short_year < 100
      \<and> (ds = [] \<or> (\<exists>fs. ds = CHR ''.'' # fs \<and> fs \<noteq> [] \<and> list_all char_isdigit fs)) \<longrightarrow>
    parse_utc (dec_pad 2 hour @ dec_pad 2 minute @ dec_pad 2 second @ ds)
      (dec_pad 2 day @ dec_pad 2 month @ dec_pad 2 short_year) =
    Some (((days_before (2000 + short_year) month day * 24 + hour) * 3600 + minute * 60 + second) * 1000
       + fraction_value (drop 1 ds)))
   \<and> (parse_utc time date = Some utc \<longrightarrow>
        (let t = gmtime (utc div 1000)
         in dec_pad 2 (tm_hour t) @ dec_pad 2 (tm_min t) @ dec_pad 2 (tm_sec t) = take 6 time
          \<and> dec_pad 2 (tm_mday t) @ dec_pad 2 (tm_mon t) @ dec_pad 2 (tm_year t - 2000) = date))"
proof (intro conjI impI)
  assume "parse_utc time date = Some utc"
  then obtain hour minute second day month short_year where p:
    "digits time 2 = Some hour" "digits (drop 2 time) 2 = Some minute" "digits (drop 4 time) 2 = Some second"
    "digits date 2 = Some day" "digits (drop 2 date) 2 = Some month" "digits (drop 4 date) 2 = Some short_year"
    and r: "hour < 24" "minute < 60" "second < 60" "1 \<le> month" "month \<le> 12" "1 \<le> day"
    "day \<le> days_in_month (2000 + short_year) month" and f: "list_all char_isdigit (drop 7 time)"
    and len: "length date = 6" and utc: "utc = ((days_before (2000 + short_year) month day * 24 + hour) * 3600
      + minute * 60 + second) * 1000 + fraction_value (drop 7 time)"
    by (rule parse_utc_SomeD) blast
  have "utc div 1000 = (days_before (2000 + short_year) month day * 24 + hour) * 3600 + minute * 60 + second"
    unfolding utc using fraction_value_less [OF f] by simp
  then have t: "gmtime (utc div 1000) = \<lparr>tm_year = 2000 + short_year, tm_mon = month, tm_mday = day,
      tm_hour = hour, tm_min = minute, tm_sec = second\<rparr>"
    using gmtime_days_before [of "2000 + short_year" month day hour minute second] r by simp
  have "take 6 time = take 2 time @ take 2 (drop 2 time) @ take 2 (drop 4 time)"
    using take_add [of 2 4 time] take_add [of 2 2 "drop 2 time"] by simp
  moreover have "date = take 2 date @ take 2 (drop 2 date) @ take 2 (drop 4 date)"
    using take_add [of 2 4 date] take_add [of 2 2 "drop 2 date"] len by simp
  ultimately show "let t = gmtime (utc div 1000)
         in dec_pad 2 (tm_hour t) @ dec_pad 2 (tm_min t) @ dec_pad 2 (tm_sec t) = take 6 time
          \<and> dec_pad 2 (tm_mday t) @ dec_pad 2 (tm_mon t) @ dec_pad 2 (tm_year t - 2000) = date"
    unfolding t Let_def using p digits_two_Some by simp
qed (blast intro: parse_utc_print)

lemma example_digits:
  "dec_pad 2 12 = ''12''" "dec_pad 2 0 = ''00''" "dec_pad 2 29 = ''29''" "dec_pad 2 2 = ''02''" "dec_pad 2 24 = ''24''"
  by code_simp+

lemma example_date:
  "29 \<le> days_in_month 2024 2" "days_before 2024 2 29 = 19782" "fraction_value ''20'' = 200" "list_all char_isdigit ''20''"
  by (simp_all add: days_in_month_def month_days_def leap_year_def days_before_def upt_rec days_in_year_def
      fraction_value_def digit_value_def char_isdigit_def)

theorem utc_read_exactly_witness:
  "parse_utc ''120000.20'' ''290224'' = Some 1709208000200"
  using utc_read_exactly [of 2 29 24 12 0 0 "''.20''" "[]" "[]" 0, THEN conjunct1] example_digits example_date by simp

lemma utc_example: "parse_utc ''120000.20'' ''290224'' = Some 1709208000200"
  using parse_utc_print [of 2 29 24 12 0 0 "''.20''"] example_digits example_date by simp

subsection \<open>Corruption is detected\<close>

lemma checksum_append: "nmea_checksum (a @ b) = nmea_checksum a XOR nmea_checksum b"
proof (induction b rule: rev_induct)
  case Nil
  then show ?case by (simp add: nmea_checksum_def)
next
  case (snoc x b)
  have "nmea_checksum (xs @ [x]) = nmea_checksum xs XOR of_char x" for xs by (simp add: nmea_checksum_def)
  then show ?case using snoc by (simp flip: append_assoc add: xor.assoc)
qed

lemma checksum_single: "nmea_checksum [c] = of_char c"
  by (simp add: nmea_checksum_def)

lemma unat_of_char_u8: "unat (of_char x :: u8) = of_char x"
proof -
  have "(of_char x :: u8) = word_of_nat (of_char x)" by (simp only: of_nat_of_char)
  moreover have "(of_char x :: nat) < 256" by simp
  ultimately show ?thesis by (simp only: unsigned_of_nat) (simp add: take_bit_nat_eq_self)
qed

lemma of_char_u8_inject: "(of_char c :: u8) = of_char d \<longleftrightarrow> c = d"
  using unat_of_char_u8 [of c] unat_of_char_u8 [of d] by (metis of_char_eq_iff)

lemma checksum_differs:
  "c \<noteq> d \<Longrightarrow> nmea_checksum (p @ c # q) \<noteq> nmea_checksum (p @ d # q)"
proof
  assume "c \<noteq> d" and eq: "nmea_checksum (p @ c # q) = nmea_checksum (p @ d # q)"
  have split: "nmea_checksum (p @ x # q) = of_char x XOR (nmea_checksum p XOR nmea_checksum q)" for x
    using checksum_append [of p "[x] @ q"] checksum_append [of "[x]" q]
    by (simp add: checksum_single xor.left_commute)
  have "(x XOR m) XOR m = x" for x m :: u8 by (simp add: xor.assoc)
  then have "(of_char c :: u8) = of_char d" using eq unfolding split by metis
  then show False using \<open>c \<noteq> d\<close> of_char_u8_inject by blast
qed

definition payload_fields :: "string \<Rightarrow> string list option" where
  "payload_fields payload =
     (case split_fields [] payload of
        None \<Rightarrow> None
      | Some parts \<Rightarrow>
          if length parts \<ge> 10 \<and> length (parts ! 0) = 5
             \<and> char_isupper (parts ! 0 ! 0) \<and> char_isupper (parts ! 0 ! 1)
             \<and> drop 2 (parts ! 0) = ''RMC'' \<and> parts ! 2 = ''A''
          then Some (take 10 parts) else None)"

lemma fields_from_frame:
  assumes "CHR ''*'' \<notin> set payload"
  shows "fields_from_rmc (CHR ''$'' # payload @ CHR ''*'' # hs) =
    (if length hs = 2 \<and> list_all char_isxdigit hs \<and> unat (nmea_checksum payload) = hex_number hs
     then payload_fields payload else None)"
proof -
  have tw: "takeWhile (\<lambda>c. c \<noteq> CHR ''*'') (payload @ CHR ''*'' # hs) = payload"
    "dropWhile (\<lambda>c. c \<noteq> CHR ''*'') (payload @ CHR ''*'' # hs) = CHR ''*'' # hs"
    using assms by (induction payload) auto
  have "length hs = 2 \<Longrightarrow> list_all char_isxdigit hs \<longleftrightarrow> char_isxdigit (hs ! 0) \<and> char_isxdigit (hs ! 1)"
    by (auto simp: length_Suc_conv numeral_2_eq_2)
  then show ?thesis
    unfolding fields_from_rmc_def payload_fields_def Let_def by (auto simp: tw)
qed

lemma split_star: "c \<in> set cs \<Longrightarrow> \<exists>rest. cs = takeWhile (\<lambda>x. x \<noteq> c) cs @ c # rest"
  by (induction cs) auto

lemma fields_without_star:
  assumes "CHR ''*'' \<notin> set cs"
  shows "fields_from_rmc (CHR ''$'' # cs) = None"
proof -
  have "\<forall>c \<in> set cs. c \<noteq> CHR ''*''" using assms by auto
  then have "dropWhile (\<lambda>c. c \<noteq> CHR ''*'') cs = []" by (simp only: dropWhile_eq_Nil_conv)
  then have "length (dropWhile (\<lambda>c. c \<noteq> CHR ''*'') (drop 1 (CHR ''$'' # cs))) \<noteq> 3"
    by (simp only: drop_Suc_Cons drop_0 One_nat_def list.size)
  then show ?thesis unfolding fields_from_rmc_def Let_def by simp
qed

lemma fields_from_rmc_SomeD:
  assumes "fields_from_rmc line = Some parts"
  obtains payload hs where "line = CHR ''$'' # payload @ CHR ''*'' # hs" and "CHR ''*'' \<notin> set payload"
    and "length hs = 2" and "list_all char_isxdigit hs" and "unat (nmea_checksum payload) = hex_number hs"
    and "payload_fields payload = Some parts"
proof -
  obtain cs where line: "line = CHR ''$'' # cs"
    using assms by (cases line) (auto simp: fields_from_rmc_def split: if_splits)
  let ?p = "takeWhile (\<lambda>c. c \<noteq> CHR ''*'') cs"
  have "CHR ''*'' \<in> set cs" using assms fields_without_star [of cs] unfolding line by fastforce
  then obtain hs where cs: "?p @ CHR ''*'' # hs = cs"
    using split_star by metis
  have np: "CHR ''*'' \<notin> set ?p" using set_takeWhileD by fastforce
  then have "fields_from_rmc (CHR ''$'' # ?p @ CHR ''*'' # hs) = Some parts" using assms cs line by simp
  then have "length hs = 2 \<and> list_all char_isxdigit hs \<and> unat (nmea_checksum ?p) = hex_number hs
      \<and> payload_fields ?p = Some parts"
    unfolding fields_from_frame [OF np] by (simp only: split: if_splits) blast+
  moreover have "line = CHR ''$'' # ?p @ CHR ''*'' # hs" using cs line by simp
  ultimately show ?thesis using that np by blast
qed

lemma parse_of_fields:
  "fields_from_rmc a = fields_from_rmc b \<Longrightarrow> gps_rmc_parse a = gps_rmc_parse b"
  by (simp add: gps_rmc_parse_def)

lemma parse_rejected: "fields_from_rmc line = None \<Longrightarrow> gps_rmc_parse line = (False, no_fix)"
  by (simp add: gps_rmc_parse_def)

lemma rmc_example:
  "gps_rmc_parse ''$GPRMC,120000.20,A,,,,,,,290224*06'' = (True, no_fix\<lparr>fix_utc_ms := 1709208000200, has_utc := True\<rparr>)"
proof -
  have "fields_from_rmc ''$GPRMC,120000.20,A,,,,,,,290224*06'' =
      Some [''GPRMC'', ''120000.20'', ''A'', [], [], [], [], [], [], ''290224'']" by code_simp
  then show ?thesis unfolding gps_rmc_parse_def by (simp add: rmc_location_def rmc_speed_def utc_example)
qed

text \<open>One character replaced in the payload, the star or the checksum of a frame.\<close>

lemma payload_error:
  assumes "c \<noteq> d" and "CHR ''*'' \<notin> set (begun @ c # q)" and "length hs = 2"
    and "unat (nmea_checksum (begun @ c # q)) = hex_number hs"
  shows "fields_from_rmc (CHR ''$'' # begun @ d # q @ CHR ''*'' # hs) = None"
proof (cases "d = CHR ''*''")
  case True
  have "CHR ''*'' \<notin> set begun" using assms(2) by simp
  then show ?thesis using fields_from_frame [of begun "q @ CHR ''*'' # hs"] assms(3) by (simp add: True)
next
  case False
  then have "CHR ''*'' \<notin> set (begun @ d # q)" using assms(2) by simp
  moreover have "unat (nmea_checksum (begun @ d # q)) \<noteq> hex_number hs"
    using assms(4) checksum_differs [OF assms(1), of begun q] by (metis word_unat_eq_iff)
  ultimately show ?thesis using fields_from_frame [of "begun @ d # q" hs] by simp
qed

lemma star_error:
  assumes "d \<noteq> CHR ''*''" and "CHR ''*'' \<notin> set payload" and "list_all char_isxdigit hs"
  shows "fields_from_rmc (CHR ''$'' # payload @ d # hs) = None"
proof -
  have "CHR ''*'' \<notin> set hs" using assms(3) by (auto simp: list_all_iff char_class_defs)
  then have "CHR ''*'' \<notin> set (payload @ d # hs)" using assms(1,2) by auto
  then show ?thesis by (rule fields_without_star)
qed

lemma digit_error:
  assumes payload: "CHR ''*'' \<notin> set payload" and len: "length (q @ c # post) = 2"
    and c: "list_all char_isxdigit (q @ c # post)" "unat (nmea_checksum payload) = hex_number (q @ c # post)"
    and found: "fields_from_rmc (CHR ''$'' # payload @ CHR ''*'' # q @ d # post) = Some parts"
  shows "length post < 2 \<and> hex_number (c # post) = hex_number (d # post)
    \<and> fields_from_rmc (CHR ''$'' # payload @ CHR ''*'' # q @ d # post)
        = fields_from_rmc (CHR ''$'' # payload @ CHR ''*'' # q @ c # post)"
proof -
  note f = fields_from_frame [OF payload, of "q @ c # post"] fields_from_frame [OF payload, of "q @ d # post"]
  have same: "hex_number (q @ c # post) = hex_number (q @ d # post)"
    and eq: "fields_from_rmc (CHR ''$'' # payload @ CHR ''*'' # q @ d # post)
        = fields_from_rmc (CHR ''$'' # payload @ CHR ''*'' # q @ c # post)"
    using f c len found by (auto split: if_splits)
  have "q = [] \<or> post = []" using len by (cases q; cases post) auto
  then have "hex_number (c # post) = hex_number (d # post)" using same by (auto simp: hex_number_def)
  then show ?thesis using eq len by simp
qed

text \<open>
  C33: a corrupted character is noticed.  When one character of an accepted line is replaced by
  any other, the line is refused and no fix is delivered; only a checksum digit written in the
  other case is accepted, with the same fix.
\<close>
theorem rmc_detects_single_error:
  assumes "fst (gps_rmc_parse (pre @ c # post))" and "c \<noteq> d"
  shows "gps_rmc_parse (pre @ d # post) = (False, no_fix)
    \<or> length post < 2 \<and> hex_number (c # post) = hex_number (d # post)
       \<and> gps_rmc_parse (pre @ d # post) = gps_rmc_parse (pre @ c # post)"
proof (cases "fields_from_rmc (pre @ d # post)")
  case None
  then show ?thesis using parse_rejected by blast
next
  case (Some found)
  obtain parts where "fields_from_rmc (pre @ c # post) = Some parts"
    using assms(1) by (auto simp: gps_rmc_parse_def split: option.splits)
  then obtain payload hs where line: "pre @ c # post = CHR ''$'' # payload @ CHR ''*'' # hs"
    and np: "CHR ''*'' \<notin> set payload" and hs: "length hs = 2" "list_all char_isxdigit hs"
    and sum: "unat (nmea_checksum payload) = hex_number hs"
    by (rule fields_from_rmc_SomeD)
  from Some have "pre \<noteq> []" using line assms(2) by (auto simp: fields_from_rmc_def)
  then obtain begun where pre: "pre = CHR ''$'' # begun" and rest: "begun @ c # post = payload @ CHR ''*'' # hs"
    using line by (cases pre) simp_all
  consider (payload) q where "payload = begun @ c # q" "post = q @ CHR ''*'' # hs"
    | (star) "payload = begun" "c = CHR ''*''" "post = hs"
    | (digit) q where "begun = payload @ CHR ''*'' # q" "hs = q @ c # post"
    using rest by (force simp: append_eq_append_conv2 Cons_eq_append_conv append_eq_Cons_conv)
  then show ?thesis
  proof cases
    case payload
    then show ?thesis using payload_error [OF assms(2), of begun q hs] np hs sum Some by (simp add: pre)
  next
    case star
    then show ?thesis using star_error [of d payload hs] assms(2) np hs Some by (auto simp: pre)
  next
    case (digit q)
    then have "length post < 2 \<and> hex_number (c # post) = hex_number (d # post)
        \<and> fields_from_rmc (pre @ d # post) = fields_from_rmc (pre @ c # post)"
      using digit_error [OF np, of q c post d found] hs sum Some by (simp add: pre)
    then show ?thesis using parse_of_fields by blast
  qed
qed

theorem rmc_detects_single_error_witness:
  "fst (gps_rmc_parse ''$GPRMC,,A,,,,,,,*26'') \<and> \<not> fst (gps_rmc_parse ''$GPRMC,,V,,,,,,,*26'')"
proof -
  have ok: "fst (gps_rmc_parse (''$GPRMC,,'' @ CHR ''A'' # '',,,,,,,*26''))" by code_simp
  show ?thesis using ok rmc_detects_single_error [OF ok, of "CHR ''V''"] by simp
qed

subsection \<open>Coordinates are accurate\<close>

text \<open>The errors of the seven operations add up to less than a hundredth of the unit.\<close>

lemma coordinate_scaled_accurate:
  fixes V :: rat and D :: int
  assumes "0 \<le> D" and "D \<le> 180" and "0 \<le> M" and "M \<le> 5999999 / 100000" and "V = 100 * of_int D + M"
  obtains s where "coordinate_scaled (f64 V) = Some s"
    and "\<bar>of_int s - 10000000 * (of_int D + M / 60)\<bar> \<le> 51 / 100"
proof -
  define raw where "raw = f64 V"
  define minutes where "minutes = f64 (raw - f64 (of_int D * 100))"
  define part where "part = f64 (minutes / 60)"
  define deg where "deg = f64 (of_int D + part)"
  define product where "product = f64 (deg * 10000000)"
  define total where "total = f64 (product + 1 / 2)"
  have D: "(0 :: rat) \<le> of_int D" "(of_int D :: rat) \<le> 180" using assms(1,2) by simp_all
  have raw: "V - 1 / 2 ^ 39 \<le> raw" "raw \<le> V + 1 / 2 ^ 39" "of_int (100 * D) \<le> raw"
    unfolding raw_def using f64_error_below [of V 15] f64_ge_of_int [of "100 * D" V] assms D
    by simp_all
  have q: "\<lfloor>f64 (raw / 100)\<rfloor> = D"
  proof -
    have "raw / 100 \<le> of_int D + 7 / 10" "of_int D \<le> raw / 100" using raw assms(4,5) by simp_all
    moreover have "f64 (raw / 100) \<le> raw / 100 + 1 / 2 ^ 46"
      using f64_error_below [of "raw / 100" 8] calculation D by simp
    moreover have "of_int D \<le> f64 (raw / 100)" using f64_ge_of_int [of D "raw / 100"] calculation D by simp
    ultimately show ?thesis by (simp add: floor_unique)
  qed
  have hundred: "f64 (of_int D * 100) = of_int D * 100"
    using f64_of_int_small [of "D * 100"] assms(1,2) by simp
  have m: "0 \<le> minutes" "(raw - of_int D * 100) - 1 / 2 ^ 48 \<le> minutes" "minutes \<le> (raw - of_int D * 100) + 1 / 2 ^ 48"
    unfolding minutes_def hundred using f64_nonneg [of "raw - of_int D * 100"]
      f64_error_below [of "raw - of_int D * 100" 6] raw assms(3,4,5) by simp_all
  have m60: "minutes < 60" using m raw assms(4,5) by simp
  have p: "0 \<le> part" "minutes / 60 - 1 / 2 ^ 53 \<le> part" "part \<le> minutes / 60 + 1 / 2 ^ 53"
    unfolding part_def using f64_nonneg [of "minutes / 60"] f64_error_below [of "minutes / 60" 1] m m60
    by simp_all
  have d: "0 \<le> deg" "(of_int D + part) - 1 / 2 ^ 46 \<le> deg" "deg \<le> (of_int D + part) + 1 / 2 ^ 46"
    unfolding deg_def using f64_nonneg [of "of_int D + part"] f64_error_below [of "of_int D + part" 8] p m m60 D
    by simp_all
  have x: "0 \<le> product" "deg * 10000000 - 1 / 2 ^ 23 \<le> product" "product \<le> deg * 10000000 + 1 / 2 ^ 23"
    unfolding product_def using f64_nonneg [of "deg * 10000000"] f64_error_below [of "deg * 10000000" 31] d p m m60 D
    by simp_all
  have t: "(product + 1 / 2) - 1 / 2 ^ 23 \<le> total" "total \<le> (product + 1 / 2) + 1 / 2 ^ 23"
    unfolding total_def using f64_error_below [of "product + 1 / 2" 31] x d p m m60 D by simp_all
  have "coordinate_scaled (f64 V) = Some \<lfloor>total\<rfloor>"
    unfolding coordinate_scaled_def Let_def raw_def [symmetric] q minutes_def [symmetric] part_def [symmetric]
      deg_def [symmetric] product_def [symmetric] total_def [symmetric]
    using m60 by simp
  moreover have "\<bar>of_int \<lfloor>total\<rfloor> - 10000000 * (of_int D + M / 60)\<bar> \<le> 51 / 100"
  proof -
    have "total \<le> 10000000 * (of_int D + M / 60) + 1 / 2 + 1 / 1000"
      using raw m p d x t assms(5) by simp
    moreover have "10000000 * (of_int D + M / 60) + 1 / 2 - 1 / 1000 \<le> total"
      using raw m p d x t assms(5) by simp
    ultimately show ?thesis by linarith
  qed
  ultimately show ?thesis using that by blast
qed

lemma decimal_numeral:
  assumes "whole \<noteq> []" and "list_all char_isdigit whole" and "list_all char_isdigit fs"
  shows "decimal (whole @ (if fs = [] then [] else CHR ''.'' # fs)) = Some (strtod whole fs)"
proof -
  have all: "takeWhile char_isdigit (ds @ rest) = ds" "dropWhile char_isdigit (ds @ rest) = rest"
    if "list_all char_isdigit ds" "rest = [] \<or> \<not> char_isdigit (hd rest)" for ds rest
    using that by (induction ds) (auto split: list.splits, (cases rest; simp)+)
  have dot: "\<not> char_isdigit CHR ''.''" by (simp add: char_isdigit_def)
  show ?thesis
    using assms all [of whole "CHR ''.'' # fs"] all [of whole "[]"] all [of fs "[]", unfolded append_Nil2] dot
    by (simp add: decimal_def Let_def del: takeWhile_eq_all_conv dropWhile_eq_Nil_conv)
qed

text \<open>
  Coordinates are accurate.  A field of whole degrees and minutes with any number of fraction
  digits, of a place on the globe and with minutes below 59.99999, is accepted and becomes the
  nearest ten-millionth of a degree up to a hundredth of that unit, negative in the south and west;
  the seven roundings of the \<open>double\<close> arithmetic never carry the result further.
\<close>
lemma coordinate_accuracy:
  fixes V M :: rat and D :: int
  assumes "list_all char_isdigit (whole @ fs)" and "length whole = (if latitude then 4 else 5)"
    and "V = of_nat (dec_value (whole @ fs)) / 10 ^ length fs"
    and "D = \<lfloor>V / 100\<rfloor>" and "M = V - 100 * of_int D" and "M \<le> 5999999 / 100000"
    and "V \<le> (if latitude then 9000 else 18000)"
    and "h = (if latitude then CHR ''N'' else CHR ''E'') \<or> h = (if latitude then CHR ''S'' else CHR ''W'')"
  shows "\<exists>s. coordinate (whole @ (if fs = [] then [] else CHR ''.'' # fs)) [h] latitude =
        Some (if h = CHR ''S'' \<or> h = CHR ''W'' then - s else s)
      \<and> \<bar>of_int s - 10000000 * (of_int D + M / 60)\<bar> \<le> 51 / 100"
proof -
  let ?text = "whole @ (if fs = [] then [] else CHR ''.'' # fs)"
  have V: "0 \<le> V" "V \<le> 18000" using assms(3,7) by (simp_all split: if_splits)
  have M: "0 \<le> M" "V = 100 * of_int D + M" unfolding assms(5) using assms(4) by linarith+
  have D: "0 \<le> D" "D \<le> 180" unfolding assms(4) using V by linarith+
  obtain s where s: "coordinate_scaled (f64 V) = Some s"
    "\<bar>of_int s - 10000000 * (of_int D + M / 60)\<bar> \<le> 51 / 100"
    by (rule coordinate_scaled_accurate [OF D M(1) assms(6) M(2)])
  have dec: "decimal ?text = Some (f64 V)"
  proof -
    have "whole \<noteq> []" using assms(2) by (auto split: if_splits)
    then show ?thesis using decimal_numeral [of whole fs] assms(1,3) by (simp add: strtod_def)
  qed
  have max: "\<not> f64 V > (if latitude then 90 else 180) * 100"
    using f64_le_of_int [of V "if latitude then 9000 else 18000"] V assms(7) by (auto split: if_splits)
  have width: "\<not> (length ?text < (if latitude then 4 else 5)
      \<or> (length ?text > (if latitude then 4 else 5) \<and> ?text ! (if latitude then 4 else 5) \<noteq> CHR ''.''))"
    unfolding assms(2) [symmetric] by (simp add: nth_append)
  have "take (if latitude then 4 else 5) ?text = whole" unfolding assms(2) [symmetric] by simp
  then have ds: "\<not> \<not> list_all char_isdigit (take (if latitude then 4 else 5) ?text)" using assms(1) by simp
  have "coordinate ?text [h] latitude = Some (if h = CHR ''S'' \<or> h = CHR ''W'' then - s else s)"
    unfolding coordinate_def Let_def if_not_P [OF width] if_not_P [OF ds] dec option.case if_not_P [OF max] s(1)
    using assms(8) by (cases latitude) auto
  then show ?thesis using s(2) by blast
qed

end
