(* ===== verification/Can_Payload.thy ===== *)
theory Can_Payload
  imports Daq_Prelude
begin

text \<open>
  Frames and their payloads.  \<open>can_message\<close> is the \<open>can_message_t\<close> both firmwares pass
  between their interrupt handlers, tasks and modules.  Payload bytes are put together and
  taken apart in little-endian order: the receive interrupts assemble a 64-bit word from up
  to eight bytes, the beacon task and the sample sender do the reverse.  A sample packs a
  signed 32-bit measurement and a 32-bit millisecond time stamp.
\<close>

record can_message =
  msg_id :: u32
  msg_dlc :: u8
  msg_data :: u64

subsection \<open>Bytes of a 64-bit word\<close>

text \<open>The byte loop of \<open>beacon_task\<close>: \<open>payload[i] = (uint8_t)(time_us >> (8 * i))\<close>.\<close>

definition payload_byte :: "u64 \<Rightarrow> nat \<Rightarrow> u8" where
  "payload_byte w i = ucast (drop_bit (8 * i) w)"

definition payload_bytes :: "u64 \<Rightarrow> u8 list" where
  "payload_bytes w = map (payload_byte w) [0..<8]"

text \<open>
  The byte loop of \<open>receive_callback\<close>, after \<open>n\<close> rounds:
  \<open>message.data |= (uint64_t)bytes[i] << (8 * i)\<close> from \<open>message.data = 0\<close>.
\<close>

primrec assemble_data :: "u8 list \<Rightarrow> nat \<Rightarrow> u64" where
  "assemble_data bytes 0 = 0"
| "assemble_data bytes (Suc i) = assemble_data bytes i OR push_bit (8 * i) (ucast (bytes ! i))"

text \<open>
  \<open>receive_callback\<close> up to the queue: the frame's identifier and length code come from the
  driver, the length is cut to eight, and the bytes the driver left in the buffer are
  assembled.
\<close>

definition received_message :: "u32 \<Rightarrow> u16 \<Rightarrow> u8 list \<Rightarrow> can_message" where
  "received_message frame_id frame_dlc bytes =
     (let dlc = (if frame_dlc > 8 then 8 else ucast frame_dlc)
      in \<lparr>msg_id = frame_id, msg_dlc = dlc, msg_data = assemble_data bytes (unat dlc)\<rparr>)"

lemma bit_payload_byte:
  "bit (payload_byte w i) k \<longleftrightarrow> k < 8 \<and> bit w (8 * i + k)"
  by (auto simp: payload_byte_def bit_ucast_iff bit_drop_bit_eq)

lemma bit_assemble_data:
  "n \<le> 8 \<Longrightarrow> bit (assemble_data bytes n) k \<longleftrightarrow> k < 8 * n \<and> bit (bytes ! (k div 8)) (k mod 8)"
proof (induction n)
  case 0
  then show ?case by simp
next
  case (Suc n)
  have "bit (push_bit (8 * n) (ucast (bytes ! n) :: u64)) k
        \<longleftrightarrow> 8 * n \<le> k \<and> k < 8 * n + 8 \<and> bit (bytes ! n) (k - 8 * n)"
    using Suc.prems by (auto simp: bit_push_bit_iff bit_ucast_iff dest: bit_imp_le_length)
  moreover have "k div 8 = n \<and> k mod 8 = k - 8 * n" if "8 * n \<le> k" "k < 8 * n + 8"
  proof -
    have "k = n * 8 + (k - 8 * n)" "k - 8 * n < 8" using that by auto
    then show ?thesis by (metis div_mult_self3 div_less add.right_neutral mod_less mod_mult_self3
          zero_neq_numeral)
  qed
  ultimately show ?case using Suc by (auto simp: bit_or_iff)
qed

lemma length_payload_bytes [simp]: "length (payload_bytes w) = 8"
  by (simp add: payload_bytes_def)

lemma nth_payload_bytes [simp]: "i < 8 \<Longrightarrow> payload_bytes w ! i = payload_byte w i"
  by (simp add: payload_bytes_def)

lemma assemble_payload_bytes [simp, payload_simps]: "assemble_data (payload_bytes w) 8 = w"
proof (rule bit_word_eqI)
  fix k assume "k < LENGTH(64)"
  then have "k div 8 < 8" by simp
  then show "bit (assemble_data (payload_bytes w) 8) k = bit w k"
    using \<open>k < LENGTH(64)\<close> by (simp add: bit_assemble_data bit_payload_byte)
qed

lemma payload_bytes_assemble:
  assumes "length bytes = 8"
  shows "payload_bytes (assemble_data bytes 8) = bytes"
proof (rule nth_equalityI)
  show "length (payload_bytes (assemble_data bytes 8)) = length bytes" using assms by simp
  fix i assume "i < length (payload_bytes (assemble_data bytes 8))"
  then have i: "i < 8" by simp
  show "payload_bytes (assemble_data bytes 8) ! i = bytes ! i"
  proof (rule bit_word_eqI)
    fix k assume k: "k < LENGTH(8)"
    then have "8 * i + k < 64" "(8 * i + k) div 8 = i" "(8 * i + k) mod 8 = k" using i by auto
    then show "bit (payload_bytes (assemble_data bytes 8) ! i) k = bit (bytes ! i) k"
      using i k by (simp add: bit_payload_byte bit_assemble_data)
  qed
qed

subsection \<open>Samples\<close>

text \<open>
  \<open>((uint64_t)(uint32_t)timestamp_ms << 32) | (uint32_t)value\<close>, as \<open>send_task\<close> of the sensor
  nodes and \<open>emit_sample\<close> of the GPS receiver pack a sample.
\<close>

definition pack_sample :: "int \<Rightarrow> u32 \<Rightarrow> u64" where
  "pack_sample value timestamp_ms =
     push_bit 32 (ucast timestamp_ms) OR ucast (word_of_int value :: u32)"

text \<open>
  \<open>(int32_t)(data & UINT32_MAX)\<close> and \<open>(uint32_t)(data >> 32)\<close>, as the live cache, the message
  handler and both exporters read it back.
\<close>

definition sample_value :: "u64 \<Rightarrow> int" where
  "sample_value data = sint (ucast data :: u32)"

definition sample_timestamp :: "u64 \<Rightarrow> u32" where
  "sample_timestamp data = ucast (drop_bit 32 data)"

lemma sint_word_of_int_i32: "in_i32 v \<Longrightarrow> sint (word_of_int v :: u32) = v"
  by (simp add: in_i32_def signed_of_int signed_take_bit_int_eq_self)

lemma in_i32_sint [simp]: "in_i32 (sint (w :: u32))"
  using sint_ge [of w] sint_lt [of w] by (simp add: in_i32_def)

lemma in_i32_sample_value [simp]: "in_i32 (sample_value d)"
  by (simp add: sample_value_def)

lemma ucast_pack_sample: "(ucast (pack_sample v t) :: u32) = word_of_int v"
  by (rule bit_word_eqI) (simp add: pack_sample_def bit_ucast_iff bit_or_iff bit_push_bit_iff)

lemma sample_timestamp_pack [simp, payload_simps]: "sample_timestamp (pack_sample v t) = t"
  by (rule bit_word_eqI)
    (auto simp: sample_timestamp_def pack_sample_def bit_ucast_iff bit_drop_bit_eq bit_or_iff
       bit_push_bit_iff dest: bit_imp_le_length)

lemma sample_value_pack [simp, payload_simps]: "in_i32 v \<Longrightarrow> sample_value (pack_sample v t) = v"
  by (simp add: sample_value_def ucast_pack_sample sint_word_of_int_i32)

lemma pack_sample_unpack: "pack_sample (sample_value d) (sample_timestamp d) = d"
  by (rule bit_word_eqI)
    (auto simp: pack_sample_def sample_value_def sample_timestamp_def bit_ucast_iff bit_or_iff
       bit_push_bit_iff bit_drop_bit_eq)

end
