(* ===== verification/App_Protocol.thy ===== *)
theory App_Protocol
  imports Can_Payload
begin

text \<open>
  The wire contract both firmwares include, \<open>protocol/app_protocol.h\<close>: command, signal and
  state-report identifiers, the time beacon's bit layout, the supported nodes and the map
  from a sensor signal to the node that sends it.
\<close>

definition CAN_ID_STOP :: u32 where "CAN_ID_STOP = 0x0A0"
definition CAN_ID_START :: u32 where "CAN_ID_START = 0x0A1"
definition CAN_ID_MASTER_TIME :: u32 where "CAN_ID_MASTER_TIME = 0x0A2"

definition CAN_ID_FRONT_BRAKE :: u32 where "CAN_ID_FRONT_BRAKE = 0x0B1"
definition CAN_ID_REAR_BRAKE :: u32 where "CAN_ID_REAR_BRAKE = 0x0B2"
definition CAN_ID_MPU_ACCEL_X :: u32 where "CAN_ID_MPU_ACCEL_X = 0x0B3"
definition CAN_ID_MPU_ACCEL_Y :: u32 where "CAN_ID_MPU_ACCEL_Y = 0x0B4"
definition CAN_ID_MPU_ACCEL_Z :: u32 where "CAN_ID_MPU_ACCEL_Z = 0x0B5"
definition CAN_ID_MPU_GYRO_X :: u32 where "CAN_ID_MPU_GYRO_X = 0x0B6"
definition CAN_ID_MPU_GYRO_Y :: u32 where "CAN_ID_MPU_GYRO_Y = 0x0B7"
definition CAN_ID_MPU_GYRO_Z :: u32 where "CAN_ID_MPU_GYRO_Z = 0x0B8"
definition CAN_ID_BEARING_ENCODER :: u32 where "CAN_ID_BEARING_ENCODER = 0x0B9"
definition CAN_ID_GENERIC_ADC :: u32 where "CAN_ID_GENERIC_ADC = 0x0BA"
definition CAN_ID_ENGINE_RPM :: u32 where "CAN_ID_ENGINE_RPM = 0x0BB"
definition CAN_ID_ENGINE_SPARK :: u32 where "CAN_ID_ENGINE_SPARK = 0x0BC"

definition CAN_ID_GPS_SPEED :: u32 where "CAN_ID_GPS_SPEED = 0x700"
definition CAN_ID_GPS_LATITUDE :: u32 where "CAN_ID_GPS_LATITUDE = 0x701"
definition CAN_ID_GPS_LONGITUDE :: u32 where "CAN_ID_GPS_LONGITUDE = 0x702"

lemmas command_id_defs = CAN_ID_STOP_def CAN_ID_START_def CAN_ID_MASTER_TIME_def

lemmas sensor_id_defs =
  CAN_ID_FRONT_BRAKE_def CAN_ID_REAR_BRAKE_def CAN_ID_MPU_ACCEL_X_def CAN_ID_MPU_ACCEL_Y_def
  CAN_ID_MPU_ACCEL_Z_def CAN_ID_MPU_GYRO_X_def CAN_ID_MPU_GYRO_Y_def CAN_ID_MPU_GYRO_Z_def
  CAN_ID_BEARING_ENCODER_def CAN_ID_GENERIC_ADC_def CAN_ID_ENGINE_RPM_def CAN_ID_ENGINE_SPARK_def

lemmas gps_id_defs = CAN_ID_GPS_SPEED_def CAN_ID_GPS_LATITUDE_def CAN_ID_GPS_LONGITUDE_def

definition CAN_MASTER_TIME_PERIOD_MS :: nat where "CAN_MASTER_TIME_PERIOD_MS = 100"
definition CAN_MASTER_TIME_RECORDING_FLAG :: u64 where
  "CAN_MASTER_TIME_RECORDING_FLAG = push_bit 63 1"
definition CAN_MASTER_TIME_VALUE_MASK :: u64 where
  "CAN_MASTER_TIME_VALUE_MASK = CAN_MASTER_TIME_RECORDING_FLAG - 1"

definition CAN_ID_NODE_STATE_BASE :: u32 where "CAN_ID_NODE_STATE_BASE = 0x0C0"
definition CAN_NODE_STATE_LENGTH :: nat where "CAN_NODE_STATE_LENGTH = 3"
definition CAN_NODE_ID_MASK :: u32 where
  "CAN_NODE_ID_MASK = push_bit 1 1 OR push_bit 3 1 OR push_bit 4 1 OR push_bit 5 1 OR push_bit 6 1"
definition CAN_NODE_SLOT_COUNT :: u32 where "CAN_NODE_SLOT_COUNT = 7"

text \<open>\<open>node_state_t\<close> and \<open>node_state_reason_t\<close>, with their numbers on the wire.\<close>

datatype node_state = NODE_STATE_IDLE | NODE_STATE_ACTIVE

primrec node_state_code :: "node_state \<Rightarrow> u8" where
  "node_state_code NODE_STATE_IDLE = 0"
| "node_state_code NODE_STATE_ACTIVE = 1"

datatype node_state_reason =
    NODE_STATE_REASON_BOOT
  | NODE_STATE_REASON_STOP
  | NODE_STATE_REASON_START
  | NODE_STATE_REASON_RECOVERY
  | NODE_STATE_REASON_BEACON_SYNC

primrec node_state_reason_code :: "node_state_reason \<Rightarrow> u8" where
  "node_state_reason_code NODE_STATE_REASON_BOOT = 1"
| "node_state_reason_code NODE_STATE_REASON_STOP = 2"
| "node_state_reason_code NODE_STATE_REASON_START = 3"
| "node_state_reason_code NODE_STATE_REASON_RECOVERY = 4"
| "node_state_reason_code NODE_STATE_REASON_BEACON_SYNC = 5"

text \<open>The switch of \<open>protocol_sensor_node_id\<close>, case by case in the source's order.\<close>

definition protocol_sensor_node_id :: "u32 \<Rightarrow> u8" where
  "protocol_sensor_node_id can_id =
     (if can_id = CAN_ID_FRONT_BRAKE \<or> can_id = CAN_ID_REAR_BRAKE then 1
      else if can_id = CAN_ID_MPU_ACCEL_X \<or> can_id = CAN_ID_MPU_ACCEL_Y
           \<or> can_id = CAN_ID_MPU_ACCEL_Z \<or> can_id = CAN_ID_MPU_GYRO_X
           \<or> can_id = CAN_ID_MPU_GYRO_Y \<or> can_id = CAN_ID_MPU_GYRO_Z then 3
      else if can_id = CAN_ID_BEARING_ENCODER then 4
      else if can_id = CAN_ID_ENGINE_RPM \<or> can_id = CAN_ID_ENGINE_SPARK then 5
      else if can_id = CAN_ID_GENERIC_ADC then 6
      else 0)"

definition protocol_is_sensor_id :: "u32 \<Rightarrow> bool" where
  "protocol_is_sensor_id can_id \<longleftrightarrow> protocol_sensor_node_id can_id \<noteq> 0"

subsection \<open>Node masks\<close>

lemma bit_CAN_NODE_ID_MASK: "bit CAN_NODE_ID_MASK n \<longleftrightarrow> n \<in> {1, 3, 4, 5, 6}"
  unfolding CAN_NODE_ID_MASK_def bit_or_iff bit_push_bit_iff bit_1_iff by auto

lemma CAN_NODE_ID_MASK_fits: "CAN_NODE_ID_MASK < push_bit (unat CAN_NODE_SLOT_COUNT) 1"
  by (simp add: CAN_NODE_ID_MASK_def CAN_NODE_SLOT_COUNT_def)

lemma sensor_node_id_cases:
  "protocol_sensor_node_id can_id \<in> {0, 1, 3, 4, 5, 6}"
  by (simp add: protocol_sensor_node_id_def)

lemma sensor_node_id_slot:
  "protocol_sensor_node_id can_id \<noteq> 0 \<Longrightarrow>
   unat (protocol_sensor_node_id can_id) \<in> {1, 3, 4, 5, 6}"
  using sensor_node_id_cases [of can_id] by auto

subsection \<open>The time beacon\<close>

lemma bit_recording_flag: "bit CAN_MASTER_TIME_RECORDING_FLAG n \<longleftrightarrow> n = 63"
  unfolding CAN_MASTER_TIME_RECORDING_FLAG_def bit_push_bit_iff bit_1_iff by auto

lemma value_mask_eq: "CAN_MASTER_TIME_VALUE_MASK = mask 63"
  by (simp add: CAN_MASTER_TIME_VALUE_MASK_def CAN_MASTER_TIME_RECORDING_FLAG_def mask_eq_decr_exp
      push_bit_eq_mult)

lemma bit_value_mask: "bit CAN_MASTER_TIME_VALUE_MASK n \<longleftrightarrow> n < 63"
  by (auto simp: value_mask_eq bit_mask_iff)

lemma and_recording_flag_zero: "w AND CAN_MASTER_TIME_RECORDING_FLAG = 0 \<longleftrightarrow> \<not> bit w 63"
  unfolding CAN_MASTER_TIME_RECORDING_FLAG_def push_bit_of_1 by (rule and_exp_eq_0_iff_not_bit)

end
