(* ===== verification/Gps_Receiver.thy ===== *)
theory Gps_Receiver
  imports Rmc_Parser App_Protocol Can_Payload "HOL-Library.Sublist"
begin

text \<open>
  The GPS receiver: the UBX commands of \<open>gps/ubx_config.c\<close> and \<open>gps/gps_receiver.c\<close>, which sets
  the receiver's rate, splits its byte stream into sentences and pairs the time of a fix with the
  beginning of the burst that carried it.  A byte read is given with the time it was read and, for
  the byte that ends a line, the time read again when the samples are stamped.
\<close>

subsection \<open>UBX commands\<close>

definition UBX_CLASS_ACK :: u8 where "UBX_CLASS_ACK = 0x05"
definition UBX_ID_ACK_ACK :: u8 where "UBX_ID_ACK_ACK = 0x01"
definition UBX_CLASS_CFG :: u8 where "UBX_CLASS_CFG = 0x06"
definition UBX_ID_CFG_MSG :: u8 where "UBX_ID_CFG_MSG = 0x01"
definition UBX_ID_CFG_RATE :: u8 where "UBX_ID_CFG_RATE = 0x08"
definition NMEA_CLASS :: u8 where "NMEA_CLASS = 0xF0"
definition UBX_MEASUREMENT_PERIOD_MS :: u16 where "UBX_MEASUREMENT_PERIOD_MS = 200"
definition UBX_RATE_COMMAND_COUNT :: nat where "UBX_RATE_COMMAND_COUNT = 6"
definition unused_nmea_ids :: "u8 list" where "unused_nmea_ids = [0x00, 0x01, 0x02, 0x03, 0x05]"

lemmas ubx_defs = UBX_CLASS_ACK_def UBX_ID_ACK_ACK_def UBX_CLASS_CFG_def UBX_ID_CFG_MSG_def
  UBX_ID_CFG_RATE_def NMEA_CLASS_def UBX_MEASUREMENT_PERIOD_MS_def UBX_RATE_COMMAND_COUNT_def unused_nmea_ids_def

definition fletcher :: "u8 list \<Rightarrow> u8 \<times> u8" where
  "fletcher bytes = foldl (\<lambda>(a, b) x. (a + x, b + (a + x))) (0, 0) bytes"

definition ubx_frame :: "u8 \<Rightarrow> u8 \<Rightarrow> u8 list \<Rightarrow> u8 list" where
  "ubx_frame message_class i payload =
     (let len = (of_nat (length payload) :: u16);
          body = [message_class, i, ucast (len AND 0xFF), ucast (drop_bit 8 len)] @ payload;
          (a, b) = fletcher body
      in [0xB5, 0x62] @ body @ [a, b])"

text \<open>The empty list for the length 0 past the last command.\<close>

definition ubx_rate_command :: "nat \<Rightarrow> u8 list" where
  "ubx_rate_command index =
     (let unused_count = length unused_nmea_ids
      in if index < unused_count
         then ubx_frame UBX_CLASS_CFG UBX_ID_CFG_MSG [NMEA_CLASS, unused_nmea_ids ! index, 0]
         else if index = unused_count
         then ubx_frame UBX_CLASS_CFG UBX_ID_CFG_RATE
                [ucast (UBX_MEASUREMENT_PERIOD_MS AND 0xFF), ucast (drop_bit 8 UBX_MEASUREMENT_PERIOD_MS), 1, 0, 1, 0]
         else [])"

definition ubx_expected_ack :: "u8 list \<Rightarrow> u8 list" where
  "ubx_expected_ack command = ubx_frame UBX_CLASS_ACK UBX_ID_ACK_ACK [command ! 2, command ! 3]"

subsection \<open>Setting the rate\<close>

definition GPS_BURST_GAP_US :: int where "GPS_BURST_GAP_US = 50000"
definition GPS_UTC_OUTPUT_DELAY_US :: int where "GPS_UTC_OUTPUT_DELAY_US = 0"
definition GPS_ACK_TIMEOUT_US :: int where "GPS_ACK_TIMEOUT_US = 250000"
definition GPS_COMMAND_ATTEMPTS :: nat where "GPS_COMMAND_ATTEMPTS = 2"
definition GPS_FIX_LOG_PERIOD_US :: int where "GPS_FIX_LOG_PERIOD_US = 1000000"
definition GPS_NMEA_LINE_MAX :: nat where "GPS_NMEA_LINE_MAX = 128"

text \<open>
  The loop of \<open>wait_for_ack\<close> over its rounds: the time the condition reads and what the driver
  hands over, None for no byte.  The result is None while the rounds given do not decide it.
\<close>

fun match_ack :: "u8 list \<Rightarrow> int \<Rightarrow> nat \<Rightarrow> (int \<times> u8 option) list \<Rightarrow> bool option" where
  "match_ack ack deadline_us matched [] = None"
| "match_ack ack deadline_us matched ((now, read) # rounds) =
     (if \<not> now < deadline_us then Some False
      else (case read of
              None \<Rightarrow> match_ack ack deadline_us matched rounds
            | Some byte \<Rightarrow>
                if byte = ack ! matched
                then (if matched + 1 = length ack then Some True
                      else match_ack ack deadline_us (matched + 1) rounds)
                else match_ack ack deadline_us (if byte = ack ! 0 then 1 else 0) rounds))"

definition wait_for_ack :: "u8 list \<Rightarrow> int \<Rightarrow> (int \<times> u8 option) list \<Rightarrow> bool option" where
  "wait_for_ack ack now rounds = match_ack ack (now + GPS_ACK_TIMEOUT_US) 0 rounds"

text \<open>
  The attempts left for one command, from attempt \<open>k\<close>: what is written and whether it was
  acknowledged.  \<open>env i k\<close> is the start time and the rounds of the wait after attempt \<open>k\<close> of
  command \<open>i\<close>.
\<close>

fun command_attempts ::
  "(nat \<Rightarrow> int \<times> (int \<times> u8 option) list) \<Rightarrow> u8 list \<Rightarrow> nat \<Rightarrow> nat \<Rightarrow> (u8 list list \<times> bool) option" where
  "command_attempts env command k 0 = Some ([], False)"
| "command_attempts env command k (Suc left) =
     (case wait_for_ack (ubx_expected_ack command) (fst (env k)) (snd (env k)) of
        None \<Rightarrow> None
      | Some True \<Rightarrow> Some ([command], True)
      | Some False \<Rightarrow> map_option (\<lambda>(w, ok). (command # w, ok)) (command_attempts env command (k + 1) left))"

fun rate_commands ::
  "(nat \<Rightarrow> nat \<Rightarrow> int \<times> (int \<times> u8 option) list) \<Rightarrow> nat list \<Rightarrow> nat \<Rightarrow> (u8 list list \<times> nat) option" where
  "rate_commands env [] acknowledged = Some ([], acknowledged)"
| "rate_commands env (i # rest) acknowledged =
     (if i = UBX_RATE_COMMAND_COUNT - 1 \<and> acknowledged < i then Some ([], acknowledged)
      else (case command_attempts (env i) (ubx_rate_command i) 0 GPS_COMMAND_ATTEMPTS of
              None \<Rightarrow> None
            | Some (written, ok) \<Rightarrow>
                map_option (\<lambda>(w, n). (written @ w, n))
                  (rate_commands env rest (if ok then acknowledged + 1 else acknowledged))))"

text \<open>The commands written before the flush, and whether the log says that the rate is set.\<close>

definition configure_update_rate ::
  "(nat \<Rightarrow> nat \<Rightarrow> int \<times> (int \<times> u8 option) list) \<Rightarrow> (u8 list list \<times> bool) option" where
  "configure_update_rate env =
     map_option (\<lambda>(w, n). (w, n = UBX_RATE_COMMAND_COUNT)) (rate_commands env [0..<UBX_RATE_COMMAND_COUNT] 0)"

subsection \<open>Reading sentences\<close>

definition emit_sample :: "bool \<Rightarrow> u32 \<Rightarrow> int \<Rightarrow> u32 \<Rightarrow> can_message list" where
  "emit_sample on_sample i value timestamp_ms =
     (if \<not> on_sample then []
      else [\<lparr>msg_id = i, msg_dlc = 8,
             msg_data = push_bit 32 (ucast timestamp_ms) OR ucast (word_of_int value :: u32)\<rparr>])"

definition starts_new_burst :: "int \<Rightarrow> int \<Rightarrow> bool" where
  "starts_new_burst received_us previous_byte_us \<longleftrightarrow>
     previous_byte_us = 0 \<or> received_us - previous_byte_us \<ge> GPS_BURST_GAP_US"

record reader =
  rd_line :: string
  rd_overflow :: bool
  rd_burst_start :: int
  rd_previous_byte :: int
  rd_last_fix_log :: int

definition reader_boot :: reader where
  "reader_boot = \<lparr>rd_line = [], rd_overflow = False, rd_burst_start = 0, rd_previous_byte = 0,
     rd_last_fix_log = - GPS_FIX_LOG_PERIOD_US\<rparr>"

datatype gps_action =
    Observe_utc int int
  | Sample can_message
  | Fix_logged gps_rmc_fix

definition chomp :: "string \<Rightarrow> string" where
  "chomp line = (if line \<noteq> [] \<and> List.last line = CHR 0x0D then butlast line else line)"

definition fix_samples :: "bool \<Rightarrow> gps_rmc_fix \<Rightarrow> int \<Rightarrow> can_message list" where
  "fix_samples on_sample fix now_us =
     (let timestamp_ms = word_of_int (now_us div 1000)
      in if has_location fix \<and> has_speed fix
         then emit_sample on_sample CAN_ID_GPS_SPEED (fix_speed_kph_x100 fix) timestamp_ms
            @ emit_sample on_sample CAN_ID_GPS_LATITUDE (fix_latitude_e7 fix) timestamp_ms
            @ emit_sample on_sample CAN_ID_GPS_LONGITUDE (fix_longitude_e7 fix) timestamp_ms
         else [])"

text \<open>The end of a line.\<close>

definition end_line :: "bool \<Rightarrow> int \<Rightarrow> int \<Rightarrow> reader \<Rightarrow> gps_action list \<times> reader" where
  "end_line on_sample received_us now_us rd =
     (let line = chomp (rd_line rd); done = rd\<lparr>rd_line := []\<rparr>
      in if rd_overflow rd then ([], done\<lparr>rd_overflow := False\<rparr>)
         else
           (case gps_rmc_parse line of
              (False, fix) \<Rightarrow> ([], done)
            | (True, fix) \<Rightarrow>
                let observe = has_utc fix \<and> rd_burst_start done \<noteq> 0;
                    observed = (if observe then [Observe_utc (fix_utc_ms fix) (rd_burst_start done - GPS_UTC_OUTPUT_DELAY_US)] else []);
                    done = (if observe then done\<lparr>rd_burst_start := 0\<rparr> else done);
                    logs = has_location fix \<and> has_speed fix
                      \<and> received_us - rd_last_fix_log done \<ge> GPS_FIX_LOG_PERIOD_US
                in (observed @ map Sample (fix_samples on_sample fix now_us) @ (if logs then [Fix_logged fix] else []),
                    if logs then done\<lparr>rd_last_fix_log := received_us\<rparr> else done)))"

definition read_byte :: "bool \<Rightarrow> u8 \<times> int \<times> int \<Rightarrow> reader \<Rightarrow> gps_action list \<times> reader" where
  "read_byte on_sample input rd =
     (case input of (byte, received_us, now_us) \<Rightarrow>
        let rd = (if starts_new_burst received_us (rd_previous_byte rd) then rd\<lparr>rd_burst_start := received_us\<rparr> else rd);
            rd = rd\<lparr>rd_previous_byte := received_us\<rparr>
        in if byte = 10 then end_line on_sample received_us now_us rd
           else if byte = 0 then ([], rd\<lparr>rd_overflow := True\<rparr>)
           else if length (rd_line rd) < GPS_NMEA_LINE_MAX - 1
           then ([], rd\<lparr>rd_line := rd_line rd @ [char_of (unat byte)]\<rparr>)
           else ([], rd\<lparr>rd_overflow := True\<rparr>))"

fun read_sentences :: "bool \<Rightarrow> (u8 \<times> int \<times> int) list \<Rightarrow> reader \<Rightarrow> gps_action list \<times> reader" where
  "read_sentences on_sample [] rd = ([], rd)"
| "read_sentences on_sample (input # inputs) rd =
     (let (acts, rd) = read_byte on_sample input rd; (more, rd) = read_sentences on_sample inputs rd
      in (acts @ more, rd))"

text \<open>\<open>gps_task\<close>: the result of the configuration, then the actions on the bytes received after it.\<close>

definition gps_task ::
  "(nat \<Rightarrow> nat \<Rightarrow> int \<times> (int \<times> u8 option) list) \<Rightarrow> bool \<Rightarrow> (u8 \<times> int \<times> int) list \<Rightarrow> reader \<Rightarrow>
   ((u8 list list \<times> bool) \<times> gps_action list \<times> reader) option" where
  "gps_task env on_sample inputs rd =
     (case configure_update_rate env of
        None \<Rightarrow> None
      | Some configured \<Rightarrow> Some (configured, read_sentences on_sample inputs rd))"

subsection \<open>Starting the receiver\<close>

record gps_receiver =
  gps_task_handle :: bool
  gps_handler :: bool

record uart_env =
  uart_install :: esp_err
  uart_config_result :: esp_err
  uart_pin_result :: esp_err
  uart_threshold :: esp_err
  gps_task_created :: bool

text \<open>The result, whether the driver was deleted again, and the module's variables.\<close>

definition gps_receiver_start :: "uart_env \<Rightarrow> bool \<Rightarrow> gps_receiver \<Rightarrow> esp_err \<times> bool \<times> gps_receiver" where
  "gps_receiver_start env sample_handler r =
     (if \<not> sample_handler then (ESP_ERR_INVALID_ARG, False, r)
      else if gps_task_handle r then (ESP_ERR_INVALID_STATE, False, r)
      else
        let r = r\<lparr>gps_handler := True\<rparr>;
            error = uart_install env;
            error = (if error = ESP_OK then uart_config_result env else error);
            error = (if error = ESP_OK then uart_pin_result env else error);
            error = (if error = ESP_OK then uart_threshold env else error)
        in if error \<noteq> ESP_OK then (error, True, r\<lparr>gps_handler := False\<rparr>)
           else if \<not> gps_task_created env
           then (ESP_ERR_NO_MEM, True, r\<lparr>gps_handler := False, gps_task_handle := False\<rparr>)
           else (ESP_OK, False, r\<lparr>gps_task_handle := True\<rparr>))"

lemma receiver_start_consistent:
  "gps_handler r = gps_task_handle r \<Longrightarrow>
   (case gps_receiver_start env h r of (e, deleted, r') \<Rightarrow>
      gps_handler r' = gps_task_handle r' \<and> (e = ESP_OK \<longrightarrow> gps_task_handle r'))"
  by (auto simp: gps_receiver_start_def Let_def)

subsection \<open>The matcher finds the acknowledgement\<close>

text \<open>
  \<open>m\<close> characters of the pattern are matched: they end the text, no longer beginning of the
  pattern does.
\<close>

definition matched_to :: "'a list \<Rightarrow> 'a list \<Rightarrow> nat \<Rightarrow> bool" where
  "matched_to pat s m \<longleftrightarrow> m < length pat \<and> suffix (take m pat) s
     \<and> (\<forall>k. m < k \<and> k \<le> length pat \<longrightarrow> \<not> suffix (take k pat) s)"

lemma suffix_take_snoc:
  assumes "k < length pat"
  shows "suffix (take (Suc k) pat) (s @ [b]) \<longleftrightarrow> b = pat ! k \<and> suffix (take k pat) s"
  unfolding take_Suc_conv_app_nth [OF assms] by auto

lemma matched_toD:
  assumes "matched_to pat s m" and "suffix (take k pat) s" and "k \<le> length pat"
  shows "k \<le> m"
  using assms unfolding matched_to_def by (meson not_le)

lemma matched_restart:
  assumes m: "matched_to pat s m" and once: "pat ! 0 \<notin> set (tl pat)"
    and k: "suffix (take k pat) s" "k < m"
  shows "k = 0"
proof (rule ccontr)
  assume k0: "k \<noteq> 0"
  have lt: "m < length pat" and sm: "suffix (take m pat) s" using m by (simp_all add: matched_to_def)
  have "suffix (take k pat) (take m pat)"
    by (rule suffix_length_suffix [OF k(1) sm]) (use k(2) lt in simp)
  then obtain zs where zs: "take m pat = zs @ take k pat" by (auto simp: suffix_def)
  have "length zs = m - k" using arg_cong [OF zs, of length] k(2) lt by simp
  then have "take m pat ! (m - k) = take k pat ! 0" unfolding zs by (simp add: nth_append)
  then have "pat ! (m - k) = pat ! 0" using k0 k(2) by simp
  moreover have "pat ! (m - k) \<in> set (tl pat)"
    using k(2) lt nth_mem [of "m - k - 1" "tl pat"] by (simp add: nth_tl Suc_diff_Suc)
  ultimately show False using once by simp
qed

lemma matched_to_step:
  assumes m: "matched_to pat s m" and once: "pat ! 0 \<notin> set (tl pat)" and more: "1 < length pat"
    and neq: "Suc m < length pat \<or> b \<noteq> pat ! m"
  shows "matched_to pat (s @ [b]) (if b = pat ! m then Suc m else if b = pat ! 0 then 1 else 0)"
    (is "matched_to pat (s @ [b]) ?n")
proof -
  have lt: "m < length pat" and sm: "suffix (take m pat) s" using m by (simp_all add: matched_to_def)
  have longest: "k \<le> ?n" if "suffix (take k pat) (s @ [b])" "k \<le> length pat" for k
  proof (cases k)
    case (Suc j)
    then have j: "b = pat ! j" "suffix (take j pat) s" "j < length pat"
      using that suffix_take_snoc [of j pat s b] by simp_all
    show ?thesis
    proof (cases "b = pat ! m")
      case True
      then show ?thesis using matched_toD [OF m j(2)] j(3) Suc by simp
    next
      case False
      then have "j < m" using matched_toD [OF m j(2)] j by (cases "j = m") auto
      then have "j = 0" using matched_restart [OF m once j(2)] by simp
      then show ?thesis using j(1) Suc False by simp
    qed
  qed simp
  have "?n < length pat" using neq more lt by (cases "b = pat ! m") auto
  moreover have "suffix (take ?n pat) (s @ [b])"
  proof -
    have one: "suffix (take 1 pat) (s @ [b])" if "b = pat ! 0"
      using suffix_take_snoc [of 0 pat s b] more that unfolding One_nat_def by (cases pat) auto
    have "suffix (take (Suc m) pat) (s @ [b])" if "b = pat ! m" using suffix_take_snoc [OF lt, of s b] sm that by blast
    then show ?thesis using one by (simp only: split: if_split) simp
  qed
  ultimately show ?thesis unfolding matched_to_def using longest by (meson not_le)
qed

lemma sublist_snoc: "sublist xs (ys @ [y]) \<longleftrightarrow> sublist xs ys \<or> suffix xs (ys @ [y])"
  unfolding sublist_def suffix_def by (metis append_assoc append_is_Nil_conv butlast_append butlast_snoc append_Nil2)

text \<open>What the driver handed over before the deadline.\<close>

definition received :: "int \<times> (int \<times> u8 option) list \<Rightarrow> u8 list" where
  "received wait = List.map_filter snd (takeWhile (\<lambda>(now, read). now < fst wait + GPS_ACK_TIMEOUT_US) (snd wait))"

text \<open>Time passes: some round comes after the deadline.\<close>

definition wait_ends :: "int \<times> (int \<times> u8 option) list \<Rightarrow> bool" where
  "wait_ends wait \<longleftrightarrow> (\<exists>(now, read) \<in> set (snd wait). fst wait + GPS_ACK_TIMEOUT_US \<le> now)"

lemma match_ack_exact:
  assumes "matched_to pat s m" and "\<not> sublist pat s" and once: "pat ! 0 \<notin> set (tl pat)" and more: "1 < length pat"
    and "\<exists>(now, read) \<in> set rounds. deadline \<le> now"
  shows "match_ack pat deadline m rounds =
    Some (sublist pat (s @ List.map_filter snd (takeWhile (\<lambda>(now, read). now < deadline) rounds)))"
  using assms(1,2,5)
proof (induction rounds arbitrary: s m)
  case (Cons round rounds)
  obtain now read where round: "round = (now, read)" by (cases round)
  show ?case
  proof (cases "now < deadline")
    case False
    then show ?thesis using Cons.prems(2) by (simp add: round)
  next
    case True
    then have more_rounds: "\<exists>(now, read) \<in> set rounds. deadline \<le> now" using Cons.prems(3) by (auto simp: round)
    show ?thesis
    proof (cases read)
      case None
      then show ?thesis using Cons.IH [OF Cons.prems(1,2) more_rounds] True by (simp add: round)
    next
      case (Some b)
      have lt: "m < length pat" using Cons.prems(1) by (simp add: matched_to_def)
      show ?thesis
      proof (cases "b = pat ! m \<and> Suc m = length pat")
        case found: True
        then have "suffix pat (s @ [b])"
          using suffix_take_snoc [OF lt, of s b] Cons.prems(1) by (simp add: matched_to_def)
        then have "sublist pat (s @ b # bs)" for bs
          using sublist_appendI [of pat] by (auto simp: suffix_def sublist_def) (metis append.assoc append_Cons append_Nil)
        then show ?thesis using found True by (simp add: round Some)
      next
        case False
        let ?n = "if b = pat ! m then Suc m else if b = pat ! 0 then 1 else 0"
        have step: "matched_to pat (s @ [b]) ?n"
          using False lt by (intro matched_to_step [OF Cons.prems(1) once more]) auto
        then have "\<not> suffix (take (length pat) pat) (s @ [b])" unfolding matched_to_def by blast
        then have "\<not> sublist pat (s @ [b])" using Cons.prems(2) by (simp add: sublist_snoc)
        from Cons.IH [OF step this more_rounds] show ?thesis
          using True False by (cases "b = pat ! m") (simp_all add: round Some)
      qed
    qed
  qed
qed simp

lemma ack_pattern:
  assumes "i < 6"
  defines "ack \<equiv> ubx_expected_ack (ubx_rate_command i)"
  shows "ack ! 0 \<notin> set (tl ack)" and "1 < length ack"
proof -
  have "i = 0 \<or> i = 1 \<or> i = 2 \<or> i = 3 \<or> i = 4 \<or> i = 5" using assms(1) by arith
  moreover have "(\<lambda>ack. ack ! 0 \<notin> set (tl ack) \<and> 1 < length ack) (ubx_expected_ack (ubx_rate_command j))"
    if "j \<in> {0, 1, 2, 3, 4, 5}" for j
    using that by (elim insertE emptyE) (simp only:, code_simp)+
  ultimately show "ack ! 0 \<notin> set (tl ack)" and "1 < length ack" unfolding ack_def by blast+
qed

lemma wait_for_ack_exact:
  assumes "i < 6" and "wait_ends wait"
  shows "wait_for_ack (ubx_expected_ack (ubx_rate_command i)) (fst wait) (snd wait) =
    Some (sublist (ubx_expected_ack (ubx_rate_command i)) (received wait))"
proof -
  let ?ack = "ubx_expected_ack (ubx_rate_command i)"
  note pat = ack_pattern [OF assms(1)]
  have "matched_to ?ack [] 0" "\<not> sublist ?ack []" using pat(2) by (auto simp: matched_to_def)
  then show ?thesis
    using match_ack_exact [OF _ _ pat, of "[]" 0 "snd wait" "fst wait + GPS_ACK_TIMEOUT_US"] assms(2)
    by (simp add: wait_for_ack_def received_def wait_ends_def)
qed

definition command_acked :: "(nat \<Rightarrow> nat \<Rightarrow> int \<times> (int \<times> u8 option) list) \<Rightarrow> nat \<Rightarrow> bool" where
  "command_acked env i \<longleftrightarrow>
     (\<exists>k < GPS_COMMAND_ATTEMPTS. sublist (ubx_expected_ack (ubx_rate_command i)) (received (env i k)))"

lemma attempts_exact:
  assumes "\<And>k. wait_for_ack (ubx_expected_ack command) (fst (env k)) (snd (env k)) = Some (ok k)"
  shows "\<exists>w. command_attempts env command 0 2 = Some (w, ok 0 \<or> ok 1) \<and> set w = {command} \<and> length w \<le> 2"
  using assms [of 0] assms [of 1] by (cases "ok 0"; cases "ok 1") (simp_all add: numeral_2_eq_2)

lemma rate_command_last: "i < 5 \<Longrightarrow> ubx_rate_command i \<noteq> ubx_rate_command 5"
  by (simp add: ubx_rate_command_def ubx_frame_def ubx_defs Let_def split_beta)

text \<open>
  C34: the rate is raised only when nothing else is sent.  Provided time passes, the set-up ends;
  all five sentences that are not needed are turned off first, and the command for five
  measurements a second is written exactly when within 250 ms of one of the two attempts for each
  of them the receiver's bytes contained the acknowledgement, however it was interleaved with
  other output; at most twelve commands are written and success is logged exactly when all six
  were acknowledged.
\<close>
theorem rate_raised_only_alone:
  assumes "\<And>i k. wait_ends (env i k)"
  shows "\<exists>w. configure_update_rate env = Some (w, \<forall>i < 6. command_acked env i)
    \<and> (ubx_rate_command 5 \<in> set w \<longleftrightarrow> (\<forall>i < 5. command_acked env i))
    \<and> (\<forall>i < 5. ubx_rate_command i \<in> set w) \<and> length w \<le> 12"
proof -
  have two: "(\<exists>k < 2. P k) \<longleftrightarrow> P 0 \<or> P 1" for P :: "nat \<Rightarrow> bool" by (auto simp: less_2_cases_iff)
  have some: "\<exists>w. command_attempts (env i) (ubx_rate_command i) 0 2 = Some (w, command_acked env i)
      \<and> set w = {ubx_rate_command i} \<and> length w \<le> 2" if "i < 6" for i
  proof -
    define P where "P k = sublist (ubx_expected_ack (ubx_rate_command i)) (received (env i k))" for k
    have "wait_for_ack (ubx_expected_ack (ubx_rate_command i)) (fst (env i k)) (snd (env i k)) = Some (P k)" for k
      unfolding P_def by (rule wait_for_ack_exact [OF that assms])
    then have "\<exists>w. command_attempts (env i) (ubx_rate_command i) 0 2 = Some (w, P 0 \<or> P 1)
        \<and> set w = {ubx_rate_command i} \<and> length w \<le> 2" by (rule attempts_exact)
    moreover have "command_acked env i \<longleftrightarrow> P 0 \<or> P 1"
      unfolding command_acked_def GPS_COMMAND_ATTEMPTS_def P_def [symmetric] by (rule two)
    ultimately show ?thesis by simp
  qed
  define w where "w i = fst (the (command_attempts (env i) (ubx_rate_command i) 0 2))" for i
  have w: "command_attempts (env i) (ubx_rate_command i) 0 2 = Some (w i, command_acked env i)
      \<and> set (w i) = {ubx_rate_command i} \<and> length (w i) \<le> 2" if i6: "i < 6" for i
  proof -
    obtain v where v: "command_attempts (env i) (ubx_rate_command i) 0 2 = Some (v, command_acked env i)"
      "set v = {ubx_rate_command i}" "length v \<le> 2" using some [OF i6] by blast
    have "w i = v" unfolding w_def v(1) by (simp only: option.sel fst_conv)
    then show ?thesis using v by blast
  qed
  have at: "command_attempts (env i) (ubx_rate_command i) 0 2 = Some (w i, command_acked env i)" if "i \<in> {0, 1, 2, 3, 4, 5}" for i
    using w [of i] that by auto
  have sets: "set (w i) = {ubx_rate_command i}" "length (w i) \<le> 2" if "i \<in> {0, 1, 2, 3, 4, 5}" for i
    using w [of i] that by auto
  have all: "(\<forall>i < 5. P i) \<longleftrightarrow> P 0 \<and> P 1 \<and> P 2 \<and> P 3 \<and> P 4"
    "(\<forall>i < 6. P i) \<longleftrightarrow> P 0 \<and> P 1 \<and> P 2 \<and> P 3 \<and> P 4 \<and> P 5" for P :: "nat \<Rightarrow> bool"
    by (simp_all add: eval_nat_numeral All_less_Suc ac_simps)
  let ?five = "\<forall>i < 5. command_acked env i"
  let ?w = "w 0 @ w 1 @ w 2 @ w 3 @ w 4"
  have list: "[0..<6] = [0, 1, 2, 3, 4, 5 :: nat]" by (simp add: upt_rec)
  have cfg: "configure_update_rate env = Some (if ?five then ?w @ w 5 else ?w, \<forall>i < 6. command_acked env i)"
    unfolding all configure_update_rate_def UBX_RATE_COMMAND_COUNT_def list
    by (simp add: UBX_RATE_COMMAND_COUNT_def GPS_COMMAND_ATTEMPTS_def at)
  have "ubx_rate_command 5 \<notin> set ?w" using rate_command_last by (simp add: sets eq_commute)
  moreover have "\<forall>i < 5. ubx_rate_command i \<in> set ?w" unfolding all by (simp add: sets)
  moreover have "length ?w \<le> 10" using sets(2) [of 0] sets(2) [of 1] sets(2) [of 2] sets(2) [of 3] sets(2) [of 4] by simp
  ultimately show ?thesis unfolding cfg using sets [of 5] by simp
qed

text \<open>A receiver that answers every command at once.\<close>

theorem rate_raised_only_alone_witness:
  "\<exists>w. configure_update_rate (\<lambda>i k. (0, map (\<lambda>b. (0, Some b)) (ubx_expected_ack (ubx_rate_command i)) @ [(300000, None)]))
      = Some (w, True) \<and> ubx_rate_command 5 \<in> set w"
proof -
  define env :: "nat \<Rightarrow> nat \<Rightarrow> int \<times> (int \<times> u8 option) list"
    where "env i k = (0, map (\<lambda>b. (0, Some b)) (ubx_expected_ack (ubx_rate_command i)) @ [(300000, None)])" for i k
  have ends: "wait_ends (env i k)" for i k by (simp add: wait_ends_def env_def GPS_ACK_TIMEOUT_US_def)
  have "List.map_filter snd (takeWhile (\<lambda>(now, read). now < 250000) (map (\<lambda>b. (0 :: int, Some b)) bs @ [(300000, None)])) = bs"
    for bs :: "u8 list" by (induction bs) simp_all
  then have "received (env i k) = ubx_expected_ack (ubx_rate_command i)" for i k
    by (simp add: received_def env_def GPS_ACK_TIMEOUT_US_def)
  then have acked: "command_acked env i" for i by (auto simp: command_acked_def GPS_COMMAND_ATTEMPTS_def intro: exI [of _ 0])
  show ?thesis using rate_raised_only_alone [of env, OF ends] acked unfolding env_def by simp blast
qed

subsection \<open>What the reader does, without its buffer\<close>

text \<open>
  A line is its bytes before the newline, with their times, and the newline.  It is given up when
  it has a NUL or more than 127 bytes; a carriage return at its end does not belong to it.
\<close>

type_synonym timed = "u8 \<times> int \<times> int"

definition sentence :: "timed list \<Rightarrow> string option" where
  "sentence body =
     (if 0 \<in> fst ` set body \<or> length body > 127 then None
      else Some (chomp (map (\<lambda>(byte, _). char_of (unat byte)) body)))"

definition line_fix :: "timed list \<Rightarrow> gps_rmc_fix option" where
  "line_fix body =
     (case sentence body of
        None \<Rightarrow> None
      | Some line \<Rightarrow> if fst (gps_rmc_parse line) then Some (snd (gps_rmc_parse line)) else None)"

definition line_samples :: "timed list \<times> timed \<Rightarrow> can_message list" where
  "line_samples line =
     (case line_fix (fst line) of None \<Rightarrow> [] | Some fix \<Rightarrow> fix_samples True fix (snd (snd (snd line))))"

definition line_utc :: "timed list \<Rightarrow> int option" where
  "line_utc body =
     (case line_fix body of None \<Rightarrow> None | Some fix \<Rightarrow> if has_utc fix then Some (fix_utc_ms fix) else None)"

text \<open>The bytes' times, each with the UTC that its line carried when it ends one.\<close>

definition line_events :: "timed list \<times> timed \<Rightarrow> (int \<times> int option) list" where
  "line_events line = map (\<lambda>b. (fst (snd b), None)) (fst line) @ [(fst (snd (snd line)), line_utc (fst line))]"

text \<open>Bursts are separated by 50 ms of silence.\<close>

fun split_bursts :: "(int \<times> 'a) list \<Rightarrow> (int \<times> 'a) list list" where
  "split_bursts [] = []"
| "split_bursts [x] = [[x]]"
| "split_bursts (x # y # rest) =
     (if fst y - fst x \<ge> 50000 then [x] # split_bursts (y # rest)
      else (case split_bursts (y # rest) of [] \<Rightarrow> [[x]] | g # gs \<Rightarrow> (x # g) # gs))"

text \<open>A burst gives one observation: its first UTC, at the time of its first byte.\<close>

definition burst_utc :: "(int \<times> int option) list \<Rightarrow> int option" where
  "burst_utc burst = (case List.map_filter snd burst of [] \<Rightarrow> None | utc # _ \<Rightarrow> Some utc)"

definition burst_observation :: "(int \<times> int option) list \<Rightarrow> (int \<times> int) option" where
  "burst_observation burst = map_option (\<lambda>utc. (utc, fst (hd burst))) (burst_utc burst)"

definition samples_of :: "gps_action list \<Rightarrow> can_message list" where
  "samples_of acts = List.map_filter (\<lambda>a. case a of Sample m \<Rightarrow> Some m | _ \<Rightarrow> None) acts"

definition observations_of :: "gps_action list \<Rightarrow> (int \<times> int) list" where
  "observations_of acts = List.map_filter (\<lambda>a. case a of Observe_utc u t \<Rightarrow> Some (u, t) | _ \<Rightarrow> None) acts"

lemma map_filter_append [simp]: "List.map_filter f (xs @ ys) = List.map_filter f xs @ List.map_filter f ys"
  by (simp add: List.map_filter_def)

lemma samples_of_simps [simp]:
  "samples_of [] = []" "samples_of (a @ b) = samples_of a @ samples_of b" "samples_of (map Sample ms) = ms"
  "samples_of (Sample m # a) = m # samples_of a" "samples_of (Observe_utc u t # a) = samples_of a"
  "samples_of (Fix_logged f # a) = samples_of a"
  by (induction ms) (simp_all add: samples_of_def)

lemma observations_of_simps [simp]:
  "observations_of [] = []" "observations_of (a @ b) = observations_of a @ observations_of b"
  "observations_of (map Sample ms) = []" "observations_of (Observe_utc u t # a) = (u, t) # observations_of a"
  "observations_of (Fix_logged f # a) = observations_of a"
  by (induction ms) (simp_all add: observations_of_def)

text \<open>The burst logic alone, on the events.\<close>

definition burst_start :: "int \<Rightarrow> int \<Rightarrow> int \<Rightarrow> int" where
  "burst_start b p t = (if starts_new_burst t p then t else b)"

fun pair_bursts :: "int \<Rightarrow> int \<Rightarrow> (int \<times> int option) list \<Rightarrow> (int \<times> int) list \<times> int \<times> int" where
  "pair_bursts b p [] = ([], b, p)"
| "pair_bursts b p ((t, utc) # events) =
     (let b = burst_start b p t
      in case utc of
           Some u \<Rightarrow> if b \<noteq> 0 then (let (os, r) = pair_bursts 0 t events in ((u, b) # os, r)) else pair_bursts b t events
         | None \<Rightarrow> pair_bursts b t events)"

lemma read_sentences_append:
  "read_sentences on (xs @ ys) rd =
     (let (a, rd) = read_sentences on xs rd; (b, rd) = read_sentences on ys rd in (a @ b, rd))"
  by (induction xs arbitrary: rd) (simp_all add: split_beta Let_def)

lemma pair_bursts_append:
  "pair_bursts b p (xs @ ys) =
     (let (os, b, p) = pair_bursts b p xs; (os', r) = pair_bursts b p ys in (os @ os', r))"
  by (induction b p xs rule: pair_bursts.induct) (auto simp: split_beta Let_def split: option.splits)

abbreviation bare :: "timed list \<Rightarrow> (int \<times> int option) list" where
  "bare body \<equiv> map (\<lambda>b. (fst (snd b), None)) body"

abbreviation burst_state :: "reader \<Rightarrow> int \<times> int" where
  "burst_state rd \<equiv> (rd_burst_start rd, rd_previous_byte rd)"

lemma read_byte_inside:
  assumes "fst input \<noteq> 10"
  shows "fst (read_byte on input rd) = []"
    and "burst_state (snd (read_byte on input rd)) =
      (burst_start (rd_burst_start rd) (rd_previous_byte rd) (fst (snd input)), fst (snd input))"
    and "rd_overflow (snd (read_byte on input rd)) \<longleftrightarrow> rd_overflow rd \<or> fst input = 0 \<or> length (rd_line rd) \<ge> 127"
    and "rd_line (snd (read_byte on input rd)) =
      (if fst input = 0 \<or> length (rd_line rd) \<ge> 127 then rd_line rd else rd_line rd @ [char_of (unat (fst input))])"
  using assms by (auto simp: read_byte_def split_beta Let_def burst_start_def GPS_NMEA_LINE_MAX_def)

lemma read_cons_inside:
  "fst input \<noteq> 10 \<Longrightarrow> read_sentences on (input # body) rd = read_sentences on body (snd (read_byte on input rd))"
  by (simp add: split_beta Let_def read_byte_inside(1))

lemma body_silent: "10 \<notin> fst ` set body \<Longrightarrow> fst (read_sentences on body rd) = []"
  by (induction body arbitrary: rd) (simp, subst read_cons_inside, auto)

lemma body_bursts:
  "10 \<notin> fst ` set body \<Longrightarrow> pair_bursts (rd_burst_start rd) (rd_previous_byte rd) (bare body) =
     ([], burst_state (snd (read_sentences on body rd)))"
proof (induction body arbitrary: rd)
  case (Cons input body)
  have ne: "fst input \<noteq> 10" and rest: "10 \<notin> fst ` set body" using Cons.prems by auto
  show ?case
    using Cons.IH [OF rest, of "snd (read_byte on input rd)"] read_byte_inside(2) [OF ne, of on rd]
    unfolding read_cons_inside [OF ne] by (simp add: Let_def)
qed simp

lemma body_overflow_stays:
  "10 \<notin> fst ` set body \<Longrightarrow> rd_overflow rd \<Longrightarrow> rd_overflow (snd (read_sentences on body rd))"
proof (induction body arbitrary: rd)
  case (Cons input body)
  have ne: "fst input \<noteq> 10" and rest: "10 \<notin> fst ` set body" using Cons.prems by auto
  show ?case unfolding read_cons_inside [OF ne]
    by (rule Cons.IH [OF rest]) (simp add: read_byte_inside(3) [OF ne] Cons.prems)
qed simp

lemma body_overflow:
  "10 \<notin> fst ` set body \<Longrightarrow> length (rd_line rd) \<le> 127 \<Longrightarrow>
   rd_overflow (snd (read_sentences on body rd)) \<longleftrightarrow>
     rd_overflow rd \<or> 0 \<in> fst ` set body \<or> length (rd_line rd) + length body > 127"
proof (induction body arbitrary: rd)
  case (Cons input body)
  have ne: "fst input \<noteq> 10" and rest: "10 \<notin> fst ` set body" using Cons.prems by auto
  let ?rd = "snd (read_byte on input rd)"
  note one = read_byte_inside(3,4) [OF ne, of on rd]
  show ?case
  proof (cases "fst input = 0 \<or> length (rd_line rd) \<ge> 127")
    case True
    then have "rd_overflow ?rd" unfolding one by blast
    then show ?thesis
      unfolding read_cons_inside [OF ne] using body_overflow_stays [OF rest] True by auto
  next
    case False
    then show ?thesis unfolding read_cons_inside [OF ne] using Cons.IH [OF rest, of ?rd] one by auto
  qed
qed simp

lemma body_line:
  "10 \<notin> fst ` set body \<Longrightarrow> 0 \<notin> fst ` set body \<Longrightarrow> length (rd_line rd) + length body \<le> 127 \<Longrightarrow>
   rd_line (snd (read_sentences on body rd)) = rd_line rd @ map (\<lambda>(byte, _). char_of (unat byte)) body"
proof (induction body arbitrary: rd)
  case (Cons input body)
  have ne: "fst input \<noteq> 10" and rest: "10 \<notin> fst ` set body" using Cons.prems by auto
  show ?case unfolding read_cons_inside [OF ne]
    using Cons.IH [OF rest, of "snd (read_byte on input rd)"] Cons.prems read_byte_inside(4) [OF ne, of on rd]
    by (auto simp: split_beta)
qed simp

text \<open>The end of a line, by the fix it carries.\<close>

lemma end_line_cases:
  assumes "rd_overflow rd \<longleftrightarrow> sentence body = None"
    and "\<And>line. sentence body = Some line \<Longrightarrow> chomp (rd_line rd) = line"
  shows "samples_of (fst (end_line True t now rd)) = line_samples (body, (10, t, now))"
    and "observations_of (fst (end_line True t now rd)) =
      (case line_utc body of Some u \<Rightarrow> if rd_burst_start rd \<noteq> 0 then [(u, rd_burst_start rd)] else [] | None \<Rightarrow> [])"
    and "burst_state (snd (end_line True t now rd)) =
      ((case line_utc body of Some u \<Rightarrow> 0 | None \<Rightarrow> rd_burst_start rd), rd_previous_byte rd)"
    and "rd_line (snd (end_line True t now rd)) = []" and "\<not> rd_overflow (snd (end_line True t now rd))"
  using assms
  by (cases "sentence body"; cases "gps_rmc_parse (chomp (rd_line rd))";
      auto simp: end_line_def line_samples_def line_utc_def line_fix_def Let_def GPS_UTC_OUTPUT_DELAY_US_def
        split: bool.splits)+

lemma read_line:
  assumes "10 \<notin> fst ` set body" and "lf = (10, t, now)" and "rd_line rd = []" and "\<not> rd_overflow rd"
  defines "out \<equiv> read_sentences True (body @ [lf]) rd"
  shows "samples_of (fst out) = line_samples (body, lf)"
    and "(observations_of (fst out), burst_state (snd out)) =
      pair_bursts (rd_burst_start rd) (rd_previous_byte rd) (line_events (body, lf))"
    and "rd_line (snd out) = []" and "\<not> rd_overflow (snd out)"
proof -
  let ?rd = "snd (read_sentences True body rd)"
  let ?lf = "?rd\<lparr>rd_burst_start := burst_start (rd_burst_start ?rd) (rd_previous_byte ?rd) t, rd_previous_byte := t\<rparr>"
  have out: "out = end_line True t now ?lf"
    unfolding out_def read_sentences_append using body_silent [OF assms(1)] assms(2)
    by (cases "starts_new_burst t (rd_previous_byte ?rd)")
      (auto simp: split_beta Let_def read_byte_def burst_start_def)
  have ov: "rd_overflow ?lf \<longleftrightarrow> sentence body = None"
    using body_overflow [OF assms(1), of rd] assms(3,4) by (simp add: sentence_def)
  have ln: "chomp (rd_line ?lf) = line" if "sentence body = Some line" for line
    using that body_line [OF assms(1), of rd] assms(3) by (auto simp: sentence_def split: if_splits)
  note e = end_line_cases [OF ov ln, where t = t and now = now, folded out]
  show "samples_of (fst out) = line_samples (body, lf)" "rd_line (snd out) = []" "\<not> rd_overflow (snd out)"
    using e assms(2) by simp_all
  show "(observations_of (fst out), burst_state (snd out)) =
      pair_bursts (rd_burst_start rd) (rd_previous_byte rd) (line_events (body, lf))"
    unfolding line_events_def fst_conv snd_conv pair_bursts_append body_bursts [OF assms(1), of rd True] assms(2)
    using e(2,3) by (simp add: Let_def split: option.splits)
qed

abbreviation stream :: "(timed list \<times> timed) list \<Rightarrow> timed list \<Rightarrow> timed list" where
  "stream ls tail \<equiv> concat (map (\<lambda>l. fst l @ [snd l]) ls) @ tail"

abbreviation events :: "(timed list \<times> timed) list \<Rightarrow> timed list \<Rightarrow> (int \<times> int option) list" where
  "events ls tail \<equiv> concat (map line_events ls) @ bare tail"

lemma read_stream:
  assumes "\<forall>(body, lf) \<in> set ls. 10 \<notin> fst ` set body \<and> fst lf = 10" and "10 \<notin> fst ` set tail"
    and "rd_line rd = []" and "\<not> rd_overflow rd"
  shows "samples_of (fst (read_sentences True (stream ls tail) rd)) = concat (map line_samples ls)
    \<and> observations_of (fst (read_sentences True (stream ls tail) rd)) =
      fst (pair_bursts (rd_burst_start rd) (rd_previous_byte rd) (events ls tail))"
  using assms
proof (induction ls arbitrary: rd)
  case Nil
  then show ?case using body_silent [of tail True rd] body_bursts [of tail rd True] by simp
next
  case (Cons l ls)
  obtain body t now where l: "l = (body, (10, t, now))" and nl: "10 \<notin> fst ` set body"
    using Cons.prems(1) by (cases l) auto
  let ?lf = "(10, t, now) :: timed"
  define out where "out = read_sentences True (body @ [?lf]) rd"
  note line = read_line [OF nl refl Cons.prems(3,4), of t now, folded out_def]
  have rest: "\<forall>(body, lf) \<in> set ls. 10 \<notin> fst ` set body \<and> fst lf = 10" using Cons.prems(1) by simp
  note IH = Cons.IH [OF rest Cons.prems(2) line(3,4)]
  have "stream (l # ls) tail = (body @ [?lf]) @ stream ls tail" by (simp add: l)
  then have r: "fst (read_sentences True (stream (l # ls) tail) rd) =
      fst out @ fst (read_sentences True (stream ls tail) (snd out))"
    by (simp only: read_sentences_append [of True "body @ [?lf]"] out_def [symmetric]) (simp add: split_beta Let_def)
  have "events (l # ls) tail = line_events (body, ?lf) @ events ls tail" by (simp add: l)
  then have "fst (pair_bursts (rd_burst_start rd) (rd_previous_byte rd) (events (l # ls) tail)) =
      observations_of (fst out) @ fst (pair_bursts (rd_burst_start (snd out)) (rd_previous_byte (snd out)) (events ls tail))"
    by (simp only: pair_bursts_append [of _ _ "line_events (body, ?lf)"] line(2) [symmetric]) (simp add: split_beta Let_def)
  then show ?case unfolding r using IH line(1) by (simp add: l)
qed

subsection \<open>Bursts\<close>

lemma split_bursts_Cons: "\<exists>g gs. split_bursts (x # xs) = (x # g) # gs"
  by (cases xs) (auto split: list.splits)

lemma split_bursts_head:
  "split_bursts ((t, a) # xs) = ((t, a) # g) # gs \<Longrightarrow> split_bursts ((t, b) # xs) = ((t, b) # g) # gs"
  by (cases xs) (auto split: list.splits if_splits)

lemma burst_utc_Cons [simp]: "burst_utc ((t, utc) # burst) = (case utc of None \<Rightarrow> burst_utc burst | Some u \<Rightarrow> Some u)"
  by (cases utc) (simp_all add: burst_utc_def)

lemma burst_utc_Nil [simp]: "burst_utc [] = None"
  by (simp add: burst_utc_def)

lemma pair_bursts_inside:
  assumes "p > 0" and "\<forall>e \<in> set es. fst e > 0"
    and "split_bursts ((p, None) # es) = ((p, None) # g) # gs"
  shows "fst (pair_bursts b p es) =
    (case burst_utc g of Some u \<Rightarrow> if b \<noteq> 0 then [(u, b)] else [] | None \<Rightarrow> [])
    @ List.map_filter burst_observation gs"
  using assms
proof (induction es arbitrary: b p g gs)
  case Nil
  then show ?case by simp
next
  case (Cons e es)
  obtain t utc where e: "e = (t, utc)" by (cases e)
  have t: "t > 0" "\<forall>e \<in> set es. fst e > 0" using Cons.prems(2) e by auto
  obtain h hs where rest: "split_bursts ((t, None :: int option) # es) = ((t, None) # h) # hs"
    using split_bursts_Cons by blast
  have rest': "split_bursts (e # es) = ((t, utc) # h) # hs"
    unfolding e by (rule split_bursts_head [OF rest])
  note IH = Cons.IH [OF t rest]
  show ?case
  proof (cases "t - p \<ge> 50000")
    case True
    then have "g = []" "gs = ((t, utc) # h) # hs" using Cons.prems(3) rest' e by auto
    moreover have "burst_start b p t = t" using True by (simp add: burst_start_def starts_new_burst_def GPS_BURST_GAP_US_def)
    ultimately show ?thesis
      using IH [of t] IH [of 0] t(1)
      by (cases utc) (auto simp: e Let_def split_beta burst_observation_def split: option.splits)
  next
    case False
    then have "g = (t, utc) # h" "gs = hs" using Cons.prems(3) rest' e by auto
    moreover have "burst_start b p t = b"
      using False Cons.prems(1) by (simp add: burst_start_def starts_new_burst_def GPS_BURST_GAP_US_def)
    ultimately show ?thesis
      using IH [of b] IH [of 0]
      by (cases utc) (auto simp: e Let_def split_beta split: option.splits)
  qed
qed

lemma pair_bursts_exact:
  assumes "\<forall>e \<in> set es. fst e > 0"
  shows "fst (pair_bursts 0 0 es) = List.map_filter burst_observation (split_bursts es)"
proof (cases es)
  case (Cons e rest)
  obtain t utc where e: "e = (t, utc)" by (cases e)
  have t: "t > 0" "\<forall>e \<in> set rest. fst e > 0" using assms Cons e by auto
  obtain g gs where s: "split_bursts ((t, None :: int option) # rest) = ((t, None) # g) # gs"
    using split_bursts_Cons by blast
  have "burst_start 0 0 t = t" by (simp add: burst_start_def starts_new_burst_def)
  then show ?thesis
    using pair_bursts_inside [OF t s, of t] pair_bursts_inside [OF t s, of 0] split_bursts_head [OF s, of utc] t(1)
    by (cases utc) (auto simp: Cons e Let_def split_beta burst_observation_def split: option.splits)
qed simp

lemma events_times: "map fst (events ls tail) = map (fst \<circ> snd) (stream ls tail)"
  by (induction ls) (simp_all add: line_events_def comp_def)

text \<open>
  C35: the byte automaton refines reading by lines and bursts.  Fed any stream, the reader emits
  exactly the samples of its complete lines in order, a line with a NUL or with more than 127 bytes
  being given up without harm to the next, and gives the clock exactly one observation for every
  burst that carries a UTC: the first of the burst, at the time the burst's first byte arrived.
\<close>
theorem reader_refines_lines_and_bursts:
  assumes "\<forall>(body, lf) \<in> set ls. 10 \<notin> fst ` set body \<and> fst lf = 10" and "10 \<notin> fst ` set tail"
    and "\<forall>b \<in> set (stream ls tail). fst (snd b) > 0"
  shows "samples_of (fst (read_sentences True (stream ls tail) reader_boot)) = concat (map line_samples ls)
    \<and> observations_of (fst (read_sentences True (stream ls tail) reader_boot)) =
      List.map_filter burst_observation (split_bursts (events ls tail))"
proof -
  have pos: "\<forall>e \<in> set (events ls tail). fst e > 0"
  proof
    fix e assume "e \<in> set (events ls tail)"
    then have "fst e \<in> set (map fst (events ls tail))" by (simp only: set_map imageI)
    then have "fst e \<in> (fst \<circ> snd) ` set (stream ls tail)" by (simp only: events_times set_map)
    then obtain b where b: "b \<in> set (stream ls tail)" and e: "fst e = fst (snd b)"
      unfolding comp_apply by (rule imageE)
    show "fst e > 0" unfolding e by (rule bspec [OF assms(3) b])
  qed
  have boot: "rd_line reader_boot = []" "\<not> rd_overflow reader_boot" "rd_burst_start reader_boot = 0"
    "rd_previous_byte reader_boot = 0" by (simp_all add: reader_boot_def)
  have lines: "\<forall>(body, lf) \<in> set ls. 10 \<notin> fst ` set body \<and> fst lf = 10" using assms(1) .
  show ?thesis
    by (rule read_stream [OF lines assms(2) boot(1,2), unfolded boot(3,4) pair_bursts_exact [OF pos]])
qed

lemma sentence_of_text:
  assumes "length line \<le> 127" and "CHR 0x00 \<notin> set line"
  shows "sentence (map (\<lambda>c. (of_char c, t c)) line) = Some (chomp line)"
proof -
  have "char_of (unat (of_char c :: u8)) = c" for c by (simp add: unat_of_char_u8)
  moreover have "(of_char c :: u8) = 0 \<longleftrightarrow> c = CHR 0x00" for c using of_char_u8_inject [of c "CHR 0x00"] by simp
  ultimately show ?thesis using assms by (force simp: sentence_def comp_def)
qed

text \<open>Two sentences with a UTC in one burst give one observation.\<close>

theorem reader_refines_lines_and_bursts_witness:
  "observations_of (fst (read_sentences True
     (stream (map (\<lambda>t. (map (\<lambda>c. (of_char c, t, 0)) ''$GPRMC,120000.20,A,,,,,,,290224*06'', (10, t + 1, t + 1))) [1000000, 1000100]) [])
     reader_boot)) = [(1709208000200, 1000000)]"
proof -
  define line where "line = ''$GPRMC,120000.20,A,,,,,,,290224*06''"
  define body :: "int \<Rightarrow> timed list" where "body t = map (\<lambda>c. (of_char c, t, 0)) line" for t
  have len: "length line = 34" "chomp line = line" by (simp_all add: line_def chomp_def)
  have "CHR 0x00 \<notin> set line" unfolding line_def by code_simp
  then have "sentence (body t) = Some line" for t
    unfolding body_def using sentence_of_text [of line "\<lambda>c. (t, 0)"] len by simp
  then have utc: "line_utc (body t) = Some 1709208000200" for t
    by (simp add: line_utc_def line_fix_def rmc_example [folded line_def])
  have "\<forall>c \<in> set line. (of_char c :: u8) \<noteq> 10" unfolding line_def by code_simp
  then have nl: "10 \<notin> fst ` set (body t)" for t by (auto simp: body_def)
  have ev: "line_events (body t, lf) = replicate 34 (t, None) @ [(fst (snd lf), Some 1709208000200)]" for t lf
    unfolding line_events_def fst_conv snd_conv utc using len by (simp add: body_def comp_def map_replicate_const)
  let ?ls = "map (\<lambda>t. (body t, (10, t + 1, t + 1))) [1000000, 1000100]"
  have "\<forall>b \<in> set (stream ?ls []). fst (snd b) > 0" by (auto simp: body_def)
  moreover have "List.map_filter burst_observation (split_bursts (events ?ls [])) = [(1709208000200, 1000000)]"
    by (simp add: ev numeral_eq_Suc burst_observation_def)
  ultimately show ?thesis
    using reader_refines_lines_and_bursts [of ?ls "[]"] nl unfolding body_def line_def by simp
qed

end
