(* ===== verification/Live_Data.thy ===== *)
theory Live_Data
  imports App_Protocol
begin

text \<open>
  The live-value cache of the master, \<open>live/live_data.c\<close>: the table of signals, the latest
  sample of each signal, and the lease by which one browser at a time owns the live view.
  Every operation is one critical section of the source; the timer reading \<open>now_us\<close> it takes
  and the value \<open>esp_random\<close> returns are arguments.
\<close>

definition LIVE_DATA_SIGNAL_COUNT :: nat where "LIVE_DATA_SIGNAL_COUNT = 15"
definition LIVE_DATA_LEASE_SECONDS :: int where "LIVE_DATA_LEASE_SECONDS = 10"
definition LIVE_DATA_LEASE_US :: int where "LIVE_DATA_LEASE_US = LIVE_DATA_LEASE_SECONDS * 1000000"

record live_signal_metadata =
  sm_can_id :: u32
  sm_signal :: string
  sm_node :: string
  sm_units :: string
  sm_native_rate_hz :: u16

record live_sample =
  ls_can_id :: u32
  ls_value :: int
  ls_timestamp_ms :: u32
  ls_sequence :: u32
  ls_valid :: bool

datatype live_data_result = LIVE_DATA_OK | LIVE_DATA_DISABLED | LIVE_DATA_BUSY | LIVE_DATA_INVALID_TOKEN

definition signals :: "live_signal_metadata list" where
  "signals = [
     \<lparr>sm_can_id = 0x0B1, sm_signal = ''front_brake_pressure'', sm_node = ''brake_node_1'', sm_units = ''psi'', sm_native_rate_hz = 100\<rparr>,
     \<lparr>sm_can_id = 0x0B2, sm_signal = ''rear_brake_pressure'', sm_node = ''brake_node_1'', sm_units = ''psi'', sm_native_rate_hz = 100\<rparr>,
     \<lparr>sm_can_id = 0x0B3, sm_signal = ''mpu_accel_x'', sm_node = ''mpu_node_3'', sm_units = ''mg'', sm_native_rate_hz = 100\<rparr>,
     \<lparr>sm_can_id = 0x0B4, sm_signal = ''mpu_accel_y'', sm_node = ''mpu_node_3'', sm_units = ''mg'', sm_native_rate_hz = 100\<rparr>,
     \<lparr>sm_can_id = 0x0B5, sm_signal = ''mpu_accel_z'', sm_node = ''mpu_node_3'', sm_units = ''mg'', sm_native_rate_hz = 100\<rparr>,
     \<lparr>sm_can_id = 0x0B6, sm_signal = ''mpu_gyro_x'', sm_node = ''mpu_node_3'', sm_units = ''mdps'', sm_native_rate_hz = 100\<rparr>,
     \<lparr>sm_can_id = 0x0B7, sm_signal = ''mpu_gyro_y'', sm_node = ''mpu_node_3'', sm_units = ''mdps'', sm_native_rate_hz = 100\<rparr>,
     \<lparr>sm_can_id = 0x0B8, sm_signal = ''mpu_gyro_z'', sm_node = ''mpu_node_3'', sm_units = ''mdps'', sm_native_rate_hz = 100\<rparr>,
     \<lparr>sm_can_id = 0x0B9, sm_signal = ''bearing_rpm'', sm_node = ''encoder_node_4'', sm_units = ''rpm'', sm_native_rate_hz = 50\<rparr>,
     \<lparr>sm_can_id = 0x0BA, sm_signal = ''generic_adc_voltage'', sm_node = ''adc_node_6'', sm_units = ''mV'', sm_native_rate_hz = 100\<rparr>,
     \<lparr>sm_can_id = 0x0BB, sm_signal = ''engine_rpm'', sm_node = ''engine_node_5'', sm_units = ''rpm'', sm_native_rate_hz = 100\<rparr>,
     \<lparr>sm_can_id = 0x0BC, sm_signal = ''engine_spark'', sm_node = ''engine_node_5'', sm_units = ''event'', sm_native_rate_hz = 100\<rparr>,
     \<lparr>sm_can_id = 0x700, sm_signal = ''gps_speed'', sm_node = ''master_gps'', sm_units = ''km/h_x100'', sm_native_rate_hz = 1\<rparr>,
     \<lparr>sm_can_id = 0x701, sm_signal = ''gps_latitude'', sm_node = ''master_gps'', sm_units = ''deg_e7'', sm_native_rate_hz = 1\<rparr>,
     \<lparr>sm_can_id = 0x702, sm_signal = ''gps_longitude'', sm_node = ''master_gps'', sm_units = ''deg_e7'', sm_native_rate_hz = 1\<rparr>]"

text \<open>The static variables of the module.\<close>

record live_data =
  ld_latest :: "live_sample list"
  ld_enabled :: bool
  ld_owner_token :: u32
  ld_lease_deadline_us :: int

definition zero_sample :: live_sample where
  "zero_sample = \<lparr>ls_can_id = 0, ls_value = 0, ls_timestamp_ms = 0, ls_sequence = 0, ls_valid = False\<rparr>"

definition cleared_latest :: "live_sample list" where
  "cleared_latest = replicate LIVE_DATA_SIGNAL_COUNT zero_sample"

text \<open>\<open>signal_index\<close>: the first position of the table with this identifier, None for \<open>-1\<close>.\<close>

fun index_from :: "nat \<Rightarrow> u32 \<Rightarrow> live_signal_metadata list \<Rightarrow> nat option" where
  "index_from i can_id [] = None"
| "index_from i can_id (s # ss) = (if sm_can_id s = can_id then Some i else index_from (Suc i) can_id ss)"

definition signal_index :: "u32 \<Rightarrow> nat option" where
  "signal_index can_id = index_from 0 can_id signals"

definition clear_locked :: "live_data \<Rightarrow> live_data" where
  "clear_locked l = l\<lparr>ld_enabled := False, ld_owner_token := 0, ld_lease_deadline_us := 0,
     ld_latest := cleared_latest\<rparr>"

definition expire_locked :: "int \<Rightarrow> live_data \<Rightarrow> live_data" where
  "expire_locked now_us l = (if ld_enabled l \<and> now_us \<ge> ld_lease_deadline_us l then clear_locked l else l)"

definition live_data_init :: "live_data \<Rightarrow> live_data" where
  "live_data_init l = clear_locked l"

definition live_data_record :: "can_message \<Rightarrow> int \<Rightarrow> live_data \<Rightarrow> live_data" where
  "live_data_record m now_us l =
     (case signal_index (msg_id m) of
        None \<Rightarrow> l
      | Some index \<Rightarrow>
          if msg_dlc m < 8 then l
          else let l = expire_locked now_us l
               in if ld_enabled l
                  then let s = ld_latest l ! index
                       in l\<lparr>ld_latest := (ld_latest l)[index := s\<lparr>
                            ls_can_id := msg_id m,
                            ls_value := sample_value (msg_data m),
                            ls_timestamp_ms := sample_timestamp (msg_data m),
                            ls_sequence := ls_sequence s + 1,
                            ls_valid := True\<rparr>]\<rparr>
                  else l)"

definition live_data_start :: "int \<Rightarrow> u32 \<Rightarrow> live_data \<Rightarrow> (live_data_result \<times> u32 option) \<times> live_data" where
  "live_data_start now_us rnd l =
     (let l = expire_locked now_us l
      in if ld_enabled l then ((LIVE_DATA_BUSY, None), l)
         else let token = (if rnd = 0 then 1 else rnd)
              in ((LIVE_DATA_OK, Some token),
                  l\<lparr>ld_latest := cleared_latest, ld_owner_token := token,
                    ld_lease_deadline_us := now_us + LIVE_DATA_LEASE_US, ld_enabled := True\<rparr>))"

definition live_data_snapshot ::
  "u32 \<Rightarrow> nat \<Rightarrow> int \<Rightarrow> live_data \<Rightarrow> (live_data_result \<times> live_sample list option) \<times> live_data" where
  "live_data_snapshot token capacity now_us l =
     (if capacity < LIVE_DATA_SIGNAL_COUNT then ((LIVE_DATA_DISABLED, None), l)
      else let l = expire_locked now_us l
           in if \<not> ld_enabled l then ((LIVE_DATA_DISABLED, None), l)
              else if token = 0 \<or> token \<noteq> ld_owner_token l then ((LIVE_DATA_INVALID_TOKEN, None), l)
              else ((LIVE_DATA_OK, Some (ld_latest l)),
                    l\<lparr>ld_lease_deadline_us := now_us + LIVE_DATA_LEASE_US\<rparr>))"

definition live_data_stop :: "u32 \<Rightarrow> int \<Rightarrow> live_data \<Rightarrow> live_data_result \<times> live_data" where
  "live_data_stop token now_us l =
     (let l = expire_locked now_us l
      in if \<not> ld_enabled l then (LIVE_DATA_DISABLED, l)
         else if token = 0 \<or> token \<noteq> ld_owner_token l then (LIVE_DATA_INVALID_TOKEN, l)
         else (LIVE_DATA_OK, clear_locked l))"

definition live_data_force_stop :: "live_data \<Rightarrow> live_data" where
  "live_data_force_stop l = clear_locked l"

definition live_data_is_enabled :: "int \<Rightarrow> live_data \<Rightarrow> bool \<times> live_data" where
  "live_data_is_enabled now_us l = (let l = expire_locked now_us l in (ld_enabled l, l))"

lemmas live_defs = clear_locked_def expire_locked_def live_data_init_def live_data_record_def
  live_data_start_def live_data_snapshot_def live_data_stop_def live_data_force_stop_def
  live_data_is_enabled_def

subsection \<open>The signal table\<close>

definition signal_ids :: "u32 list" where
  "signal_ids = map sm_can_id signals"

lemma signal_ids_eq: "signal_ids = [0x0B1, 0x0B2, 0x0B3, 0x0B4, 0x0B5, 0x0B6, 0x0B7, 0x0B8, 0x0B9,
    0x0BA, 0x0BB, 0x0BC, 0x700, 0x701, 0x702]"
  by (simp add: signal_ids_def signals_def)

lemma distinct_signal_ids: "distinct signal_ids"
  by (simp add: signal_ids_eq)

lemma length_signals [simp]: "length signals = LIVE_DATA_SIGNAL_COUNT"
  by (simp add: signals_def LIVE_DATA_SIGNAL_COUNT_def)

lemma index_from_Some:
  "index_from k c ss = Some i \<Longrightarrow> k \<le> i \<and> i < k + length ss \<and> sm_can_id (ss ! (i - k)) = c"
proof (induction ss arbitrary: k)
  case (Cons s ss)
  show ?case
  proof (cases "sm_can_id s = c")
    case False
    with Cons.prems have "index_from (Suc k) c ss = Some i" by simp
    from Cons.IH [OF this] show ?thesis by (auto simp: nth_Cons' )
  qed (use Cons.prems in auto)
qed simp

lemma index_from_None: "index_from k c ss = None \<longleftrightarrow> c \<notin> sm_can_id ` set ss"
  by (induction ss arbitrary: k) auto

lemma signal_index_Some: 
  "signal_index c = Some i \<Longrightarrow> i < LIVE_DATA_SIGNAL_COUNT \<and> sm_can_id (signals ! i) = c"
  using index_from_Some [of 0 c signals i] by (simp add: signal_index_def)

lemma signal_index_None: "signal_index c = None \<longleftrightarrow> c \<notin> set signal_ids"
  by (simp add: signal_index_def index_from_None signal_ids_def)

lemma signal_index_inj: "signal_index c = Some i \<Longrightarrow> signal_index c' = Some i \<Longrightarrow> c = c'"
  using signal_index_Some by blast

lemma signal_index_sensor: "protocol_is_sensor_id c \<Longrightarrow> \<exists>i. signal_index c = Some i"
proof -
  assume "protocol_is_sensor_id c"
  then have "c \<in> set signal_ids"
    by (auto simp: protocol_is_sensor_id_def protocol_sensor_node_id_def sensor_id_defs signal_ids_eq
        split: if_splits)
  then show ?thesis using signal_index_None [of c] by auto
qed

subsection \<open>Invariant\<close>

definition live_inv :: "live_data \<Rightarrow> bool" where
  "live_inv l \<longleftrightarrow> length (ld_latest l) = LIVE_DATA_SIGNAL_COUNT \<and>
     (if ld_enabled l then ld_owner_token l \<noteq> 0
      else ld_owner_token l = 0 \<and> ld_lease_deadline_us l = 0 \<and> ld_latest l = cleared_latest) \<and>
     (\<forall>i < LIVE_DATA_SIGNAL_COUNT. ls_valid (ld_latest l ! i) \<longrightarrow>
        ls_can_id (ld_latest l ! i) = signal_ids ! i \<and> in_i32 (ls_value (ld_latest l ! i)))"

lemma length_cleared [simp]: "length cleared_latest = LIVE_DATA_SIGNAL_COUNT"
  by (simp add: cleared_latest_def)

lemma nth_cleared [simp]: "i < LIVE_DATA_SIGNAL_COUNT \<Longrightarrow> cleared_latest ! i = zero_sample"
  by (simp add: cleared_latest_def)

lemma zero_sample_invalid [simp]: "\<not> ls_valid zero_sample"
  by (simp add: zero_sample_def)

lemma live_inv_clear [inv_intros]: "live_inv (clear_locked l)"
  by (simp add: live_inv_def clear_locked_def)

lemma live_inv_expire [inv_intros]: "live_inv l \<Longrightarrow> live_inv (expire_locked t l)"
  by (simp add: expire_locked_def live_inv_clear)

lemma live_inv_record [inv_intros]:
  assumes "live_inv l"
  shows "live_inv (live_data_record m t l)"
proof (cases "signal_index (msg_id m)")
  case None
  then show ?thesis using assms by (simp add: live_data_record_def)
next
  case (Some i)
  have "i < LIVE_DATA_SIGNAL_COUNT" "signal_ids ! i = msg_id m"
    using signal_index_Some [OF Some] by (auto simp: signal_ids_def)
  moreover have "live_inv (expire_locked t l)" using assms by (rule live_inv_expire)
  ultimately show ?thesis
    using assms Some by (auto simp: live_data_record_def live_inv_def Let_def nth_list_update)
qed

lemma live_inv_start [inv_intros]: "live_inv l \<Longrightarrow> live_inv (snd (live_data_start t rnd l))"
  using live_inv_expire [of l t] by (auto simp: live_data_start_def Let_def live_inv_def)

lemma live_inv_snapshot [inv_intros]: "live_inv l \<Longrightarrow> live_inv (snd (live_data_snapshot k n t l))"
  using live_inv_expire [of l t] by (auto simp: live_data_snapshot_def Let_def live_inv_def)

lemma live_inv_stop [inv_intros]: "live_inv l \<Longrightarrow> live_inv (snd (live_data_stop k t l))"
  using live_inv_expire [of l t] by (auto simp: live_data_stop_def Let_def intro: inv_intros)

lemma live_inv_is_enabled [inv_intros]: "live_inv l \<Longrightarrow> live_inv (snd (live_data_is_enabled t l))"
  by (simp add: live_data_is_enabled_def Let_def live_inv_expire)

subsection \<open>Runs of operations\<close>

datatype live_op =
    Op_record can_message
  | Op_start u32
  | Op_snapshot u32 nat
  | Op_stop u32
  | Op_force_stop
  | Op_is_enabled

fun live_step :: "int \<times> live_op \<Rightarrow> live_data \<Rightarrow> live_data" where
  "live_step (t, Op_record m) l = live_data_record m t l"
| "live_step (t, Op_start rnd) l = snd (live_data_start t rnd l)"
| "live_step (t, Op_snapshot k n) l = snd (live_data_snapshot k n t l)"
| "live_step (t, Op_stop k) l = snd (live_data_stop k t l)"
| "live_step (t, Op_force_stop) l = live_data_force_stop l"
| "live_step (t, Op_is_enabled) l = snd (live_data_is_enabled t l)"

definition live_run :: "(int \<times> live_op) list \<Rightarrow> live_data \<Rightarrow> live_data" where
  "live_run ops l = fold live_step ops l"

lemma live_run_simps [simp]:
  "live_run [] l = l" "live_run (x # ops) l = live_run ops (live_step x l)"
  by (simp_all add: live_run_def)

lemma live_inv_step [inv_intros]: "live_inv l \<Longrightarrow> live_inv (live_step x l)"
  by (cases x; cases "snd x") (auto simp: live_data_force_stop_def intro: inv_intros)

lemma live_inv_run: "live_inv l \<Longrightarrow> live_inv (live_run ops l)"
  by (induction ops arbitrary: l) (auto intro: inv_intros)

text \<open>
  \<open>within_lease t0 k\<close>: an operation inside the lease that began at \<open>t0\<close>, other than its
  owner's stop and the end of the recording.
\<close>

fun within_lease :: "int \<Rightarrow> u32 \<Rightarrow> int \<times> live_op \<Rightarrow> bool" where
  "within_lease t0 k (t, op) \<longleftrightarrow>
     t0 \<le> t \<and> t < t0 + LIVE_DATA_LEASE_US \<and> op \<noteq> Op_stop k \<and> op \<noteq> Op_force_stop"

definition leased :: "int \<Rightarrow> u32 \<Rightarrow> live_data \<Rightarrow> bool" where
  "leased t0 k l \<longleftrightarrow> live_inv l \<and> ld_enabled l \<and> ld_owner_token l = k \<and>
     t0 + LIVE_DATA_LEASE_US \<le> ld_lease_deadline_us l"

lemma leased_expire [simp]:
  "leased t0 k l \<Longrightarrow> t < t0 + LIVE_DATA_LEASE_US \<Longrightarrow> expire_locked t l = l"
  by (simp add: leased_def expire_locked_def)

lemma leased_start:
  assumes "live_inv l" and "live_data_start t0 rnd l = ((LIVE_DATA_OK, Some k), l0)"
  shows "leased t0 k l0" and "ld_latest l0 = cleared_latest"
proof -
  have "live_inv l0" using live_inv_start [OF assms(1), of t0 rnd] assms(2) by simp
  then show "leased t0 k l0"
    using assms(2) by (auto simp: leased_def live_data_start_def Let_def split: if_splits)
  show "ld_latest l0 = cleared_latest"
    using assms(2) by (auto simp: live_data_start_def Let_def split: if_splits)
qed

lemma leased_step:
  assumes "leased t0 k l" and "within_lease t0 k (t, op)"
  shows "leased t0 k (live_step (t, op) l)"
proof -
  have "live_inv (live_step (t, op) l)" using assms(1) by (auto simp: leased_def intro: inv_intros)
  moreover have e: "expire_locked t l = l" using assms by (intro leased_expire) auto
  ultimately show ?thesis
    using assms by (cases op) (auto simp: leased_def live_data_record_def live_data_start_def
        live_data_snapshot_def live_data_stop_def live_data_is_enabled_def Let_def
        split: option.splits if_splits)
qed

lemma leased_run:
  assumes "leased t0 k l" and "list_all (within_lease t0 k) ops"
  shows "leased t0 k (live_run ops l)"
  using assms by (induction ops arbitrary: l) (auto intro: leased_step)

text \<open>The samples the run of operations recorded for signal \<open>i\<close>, oldest first.\<close>

fun recorded :: "nat \<Rightarrow> (int \<times> live_op) list \<Rightarrow> can_message list" where
  "recorded i [] = []"
| "recorded i ((t, Op_record m) # ops) =
     (if signal_index (msg_id m) = Some i \<and> 8 \<le> msg_dlc m then m # recorded i ops else recorded i ops)"
| "recorded i (_ # ops) = recorded i ops"

definition latest_of :: "live_sample \<Rightarrow> can_message list \<Rightarrow> live_sample" where
  "latest_of s ms = (if ms = [] then s
     else \<lparr>ls_can_id = msg_id (last ms), ls_value = sample_value (msg_data (last ms)),
           ls_timestamp_ms = sample_timestamp (msg_data (last ms)),
           ls_sequence = ls_sequence s + word_of_nat (length ms), ls_valid = True\<rparr>)"

lemma latest_of_Nil [simp]: "latest_of s [] = s"
  by (simp add: latest_of_def)

lemma latest_of_Cons:
  "latest_of (s\<lparr>ls_can_id := msg_id m, ls_value := sample_value (msg_data m),
      ls_timestamp_ms := sample_timestamp (msg_data m), ls_sequence := ls_sequence s + 1,
      ls_valid := True\<rparr>) ms = latest_of s (m # ms)"
  by (cases ms) (auto simp: latest_of_def)

lemma latest_step:
  assumes "leased t0 k l" and "within_lease t0 k (t, op)" and "i < LIVE_DATA_SIGNAL_COUNT"
  shows "ld_latest (live_step (t, op) l) ! i = latest_of (ld_latest l ! i) (recorded i [(t, op)])"
proof -
  have e: "expire_locked t l = l" using assms by (intro leased_expire) auto
  have "ld_enabled l" "ld_owner_token l = k" "length (ld_latest l) = LIVE_DATA_SIGNAL_COUNT"
    using assms(1) by (auto simp: leased_def live_inv_def)
  then show ?thesis
    using assms e latest_of_Cons [of "ld_latest l ! i" _ "[]"]
    by (cases op) (auto simp: live_data_record_def live_data_start_def
        live_data_snapshot_def live_data_stop_def live_data_is_enabled_def Let_def not_le
        nth_list_update split: option.splits if_splits)
qed

lemma recorded_Cons: "recorded i (x # ops) = recorded i [x] @ recorded i ops"
  by (cases x; cases "snd x") auto

lemma latest_of_append:
  "latest_of s (ms @ ms') = latest_of (latest_of s ms) ms'"
  by (auto simp: latest_of_def)

lemma latest_run:
  assumes "leased t0 k l" and "list_all (within_lease t0 k) ops" and "i < LIVE_DATA_SIGNAL_COUNT"
  shows "ld_latest (live_run ops l) ! i = latest_of (ld_latest l ! i) (recorded i ops)"
  using assms(1,2)
proof (induction ops arbitrary: l)
  case (Cons x ops)
  obtain t op where x: "x = (t, op)" by force
  have "leased t0 k (live_step x l)" using Cons.prems x by (auto intro: leased_step)
  with Cons.IH Cons.prems(2)
  have "ld_latest (live_run (x # ops) l) ! i = latest_of (ld_latest (live_step x l) ! i) (recorded i ops)"
    by simp
  also have "\<dots> = latest_of (latest_of (ld_latest l ! i) (recorded i [x])) (recorded i ops)"
    using latest_step Cons.prems x assms(3) by simp
  also have "\<dots> = latest_of (ld_latest l ! i) (recorded i (x # ops))"
    by (simp only: recorded_Cons [of i x ops] latest_of_append)
  finally show ?case .
qed simp

text \<open>
  C30: The live view has one owner, and the owner sees the latest values.  After a successful start
  at time \<open>t0\<close> with token \<open>k\<close>, whatever requests and samples follow inside the ten-second
  lease, except the owner's own stop and the end of the recording: another start is refused
  as busy, a snapshot or a stop with any other token is refused, and a snapshot with the
  token \<open>k\<close> returns, for each of the fifteen signals, the value and time stamp of the last
  sample recorded for it since the start, with the number of samples as its sequence number.
\<close>

theorem live_view_exclusive_and_latest:
  assumes "live_inv l" and "live_data_start t0 rnd l = ((LIVE_DATA_OK, Some k), l0)"
    and "list_all (within_lease t0 k) ops" and "t0 \<le> t" and "t < t0 + LIVE_DATA_LEASE_US"
  shows "fst (live_data_start t rnd' (live_run ops l0)) = (LIVE_DATA_BUSY, None) \<and>
    (\<forall>k'. k' \<noteq> k \<longrightarrow>
       fst (live_data_snapshot k' 15 t (live_run ops l0)) = (LIVE_DATA_INVALID_TOKEN, None) \<and>
       fst (live_data_stop k' t (live_run ops l0)) = LIVE_DATA_INVALID_TOKEN) \<and>
    (\<exists>ss. fst (live_data_snapshot k 15 t (live_run ops l0)) = (LIVE_DATA_OK, Some ss) \<and>
       length ss = 15 \<and> (\<forall>i < 15. ss ! i = latest_of zero_sample (recorded i ops)))"
proof -
  let ?l = "live_run ops l0"
  have L0: "leased t0 k l0" "ld_latest l0 = cleared_latest" using leased_start [OF assms(1,2)] .
  have L: "leased t0 k ?l" using leased_run [OF L0(1) assms(3)] .
  then have E: "expire_locked t ?l = ?l" "ld_enabled ?l" "ld_owner_token ?l = k" "k \<noteq> 0"
      "length (ld_latest ?l) = LIVE_DATA_SIGNAL_COUNT"
    using assms(5) by (auto simp: leased_def live_inv_def)
  have "\<forall>i < 15. ld_latest ?l ! i = latest_of zero_sample (recorded i ops)"
    using latest_run [OF L0(1) assms(3)] L0(2) by (simp add: LIVE_DATA_SIGNAL_COUNT_def)
  then show ?thesis
    using E by (simp add: live_data_start_def live_data_snapshot_def live_data_stop_def Let_def
        LIVE_DATA_SIGNAL_COUNT_def)
qed

definition live_boot :: live_data where
  "live_boot = live_data_init \<lparr>ld_latest = [], ld_enabled = False, ld_owner_token = 0,
     ld_lease_deadline_us = 0\<rparr>"

lemma live_inv_boot: "live_inv live_boot"
  by (simp add: live_boot_def live_data_init_def live_inv_clear)

theorem live_view_exclusive_and_latest_witness:
  "fst (live_data_start 9000000 7 (live_run
      [(1000, Op_record \<lparr>msg_id = CAN_ID_ENGINE_RPM, msg_dlc = 8, msg_data = pack_sample 2500 17\<rparr>),
       (2000, Op_snapshot 42 15)]
      (snd (live_data_start 0 42 live_boot)))) = (LIVE_DATA_BUSY, None)"
proof -
  have start: "live_data_start 0 42 live_boot = ((LIVE_DATA_OK, Some 42), snd (live_data_start 0 42 live_boot))"
    by (simp add: live_boot_def live_defs Let_def)
  show ?thesis
    by (rule live_view_exclusive_and_latest [OF live_inv_boot start, THEN conjunct1])
      (simp_all add: LIVE_DATA_LEASE_US_def LIVE_DATA_LEASE_SECONDS_def)
qed

text \<open>
  An abandoned viewer loses the live view.  Once the deadline of the lease has passed, the
  next operation of any kind finds the view disabled: a start succeeds with a nonzero token
  and an empty table, and a snapshot with the old token is refused.
\<close>

lemma live_lease_expires:
  assumes "live_inv l" and "ld_enabled l" and "ld_lease_deadline_us l \<le> t"
  shows "(\<exists>k l'. live_data_start t rnd l = ((LIVE_DATA_OK, Some k), l') \<and> k \<noteq> 0 \<and>
           ld_latest l' = cleared_latest \<and> ld_lease_deadline_us l' = t + LIVE_DATA_LEASE_US) \<and>
         fst (live_data_snapshot k 15 t l) = (LIVE_DATA_DISABLED, None) \<and>
         \<not> fst (live_data_is_enabled t l)"
proof -
  have E: "expire_locked t l = clear_locked l" using assms by (simp add: expire_locked_def)
  then show ?thesis
    by (simp add: live_data_start_def live_data_snapshot_def live_data_is_enabled_def Let_def
        clear_locked_def LIVE_DATA_SIGNAL_COUNT_def)
qed

end
