(* ===== verification/Rtos_Queue.thy ===== *)
theory Rtos_Queue
  imports Daq_Prelude
begin

text \<open>
  The interface of the FreeRTOS queues that connect interrupt handlers and tasks.  The queue
  implementation is not part of the repository, so every definition that uses a queue takes
  the queue operations as an argument, a record \<open>queue_api\<close>, and is polymorphic in the
  representation \<open>'q\<close> of a queue.  The locale \<open>rtos_queue\<close> states the documented behaviour
  the code relies on: a bounded first-in first-out buffer whose items are copied, where a
  send with zero ticks to wait fails exactly when the queue is full.

  The bounded list queue is the reference instance; it serves wherever a statement needs a
  concrete queue.
\<close>

record ('q, 'a) queue_api =
  xQueueSend :: "'q \<Rightarrow> 'a \<Rightarrow> 'q option"
  xQueueReceive :: "'q \<Rightarrow> ('a \<times> 'q) option"
  xQueueReset :: "'q \<Rightarrow> 'q"
  uxQueueSpacesAvailable :: "'q \<Rightarrow> nat"
  uxQueueMessagesWaiting :: "'q \<Rightarrow> nat"

locale rtos_queue =
  fixes Q :: "('q, 'a) queue_api"
    and cap :: nat
    and items :: "'q \<Rightarrow> 'a list"
  assumes bounded: "length (items q) \<le> cap"
    and send_room: "length (items q) < cap \<Longrightarrow>
          \<exists>q'. xQueueSend Q q x = Some q' \<and> items q' = items q @ [x]"
    and send_full: "length (items q) = cap \<Longrightarrow> xQueueSend Q q x = None"
    and receive_empty: "items q = [] \<Longrightarrow> xQueueReceive Q q = None"
    and receive_some: "items q = x # xs \<Longrightarrow>
          \<exists>q'. xQueueReceive Q q = Some (x, q') \<and> items q' = xs"
    and reset: "items (xQueueReset Q q) = []"
    and spaces: "uxQueueSpacesAvailable Q q = cap - length (items q)"
    and waiting: "uxQueueMessagesWaiting Q q = length (items q)"
begin

lemma send_cases:
  obtains (sent) q' where "xQueueSend Q q x = Some q'" and "items q' = items q @ [x]"
      and "length (items q) < cap"
  | (full) "xQueueSend Q q x = None" and "length (items q) = cap"
  using bounded [of q] send_room [of q x] send_full [of q x]
  by (cases "length (items q) < cap") auto

lemma receive_cases:
  obtains (got) x q' where "xQueueReceive Q q = Some (x, q')" and "items q = x # items q'"
  | (none) "xQueueReceive Q q = None" and "items q = []"
  using receive_empty [of q] receive_some [of q] by (cases "items q") auto

lemma sendD: "xQueueSend Q q x = Some q' \<Longrightarrow> items q' = items q @ [x] \<and> length (items q) < cap"
  by (rule send_cases [of q x]) auto

lemma send_NoneD: "xQueueSend Q q x = None \<Longrightarrow> length (items q) = cap"
  by (rule send_cases [of q x]) auto

lemma receiveD: "xQueueReceive Q q = Some (x, q') \<Longrightarrow> items q = x # items q'"
  by (rule receive_cases [of q]) auto

lemma receive_NoneD: "xQueueReceive Q q = None \<Longrightarrow> items q = []"
  by (rule receive_cases [of q]) auto

lemma waiting_0: "uxQueueMessagesWaiting Q q = 0 \<longleftrightarrow> items q = []"
  by (simp add: waiting)

end

subsection \<open>The bounded list queue\<close>

definition blist_rep :: "nat \<Rightarrow> 'a list \<Rightarrow> 'a list" where
  "blist_rep cap xs = take cap xs"

definition list_queue :: "nat \<Rightarrow> ('a list, 'a) queue_api" where
  "list_queue cap = \<lparr>
     xQueueSend = (\<lambda>q x. if length q < cap then Some (q @ [x]) else None),
     xQueueReceive = (\<lambda>q. case take cap q of [] \<Rightarrow> None | x # xs \<Rightarrow> Some (x, xs)),
     xQueueReset = (\<lambda>q. []),
     uxQueueSpacesAvailable = (\<lambda>q. cap - length q),
     uxQueueMessagesWaiting = (\<lambda>q. min cap (length q))\<rparr>"

interpretation listq: rtos_queue "list_queue cap" cap "blist_rep cap" for cap
proof
  fix q :: "'a list" and x :: 'a
  assume "length (blist_rep cap q) < cap"
  then show "\<exists>q'. xQueueSend (list_queue cap) q x = Some q' \<and> blist_rep cap q' = blist_rep cap q @ [x]"
    by (auto simp: list_queue_def blist_rep_def min_def split: if_splits)
next
  fix q :: "'a list" and x xs
  assume *: "blist_rep cap q = x # xs"
  then have "length (take cap q) = Suc (length xs)" by (simp add: blist_rep_def)
  then have "length xs \<le> cap" by (simp add: min_def split: if_splits)
  with * show "\<exists>q'. xQueueReceive (list_queue cap) q = Some (x, q') \<and> blist_rep cap q' = xs"
    by (simp add: list_queue_def blist_rep_def)
qed (auto simp: list_queue_def blist_rep_def)

end
