(* ===== verification/Absolute_Clock.thy ===== *)
theory Absolute_Clock
  imports Daq_Prelude
begin

text \<open>
  The master's UTC clock: \<open>time/clock_discipline.c\<close> (a line through an anchor, corrected
  gradually from GPS observations), \<open>time/gps_time.c\<close> (from a wrapping 32-bit millisecond
  stamp to UTC) and \<open>time/absolute_clock.c\<close> (the shared instance that the logger and the
  GPS task use).  Times are \<open>int64_t\<close> in the source and \<open>int\<close> here; \<open>clock_arith_in_range\<close>
  gives bounds under which no intermediate result leaves the 64-bit range.
\<close>

definition CLOCK_DISCIPLINE_CORRECTION_US :: int where
  "CLOCK_DISCIPLINE_CORRECTION_US = 32000000"
definition CLOCK_DISCIPLINE_MAX_ERROR_US :: int where
  "CLOCK_DISCIPLINE_MAX_ERROR_US = 200000"
definition CLOCK_DISCIPLINE_STEP_AFTER_US :: int where
  "CLOCK_DISCIPLINE_STEP_AFTER_US = 5000000"
definition CLOCK_DISCIPLINE_STEP_AFTER_REJECTIONS :: u8 where
  "CLOCK_DISCIPLINE_STEP_AFTER_REJECTIONS = 5"

lemmas clock_consts = CLOCK_DISCIPLINE_CORRECTION_US_def CLOCK_DISCIPLINE_MAX_ERROR_US_def
  CLOCK_DISCIPLINE_STEP_AFTER_US_def CLOCK_DISCIPLINE_STEP_AFTER_REJECTIONS_def

record clock_discipline =
  cd_synchronized :: bool
  cd_anchor_uptime_us :: int
  cd_anchor_utc_us :: int
  cd_correction_us :: int
  cd_rejected_in_a_row :: u8
  cd_rejecting_since_us :: int

datatype clock_observation =
    CLOCK_OBSERVATION_ANCHORED
  | CLOCK_OBSERVATION_CORRECTED
  | CLOCK_OBSERVATION_REJECTED
  | CLOCK_OBSERVATION_STEPPED

definition clock_boot :: clock_discipline where
  "clock_boot = \<lparr>cd_synchronized = False, cd_anchor_uptime_us = 0, cd_anchor_utc_us = 0,
     cd_correction_us = 0, cd_rejected_in_a_row = 0, cd_rejecting_since_us = 0\<rparr>"

definition clock_discipline_utc_us :: "clock_discipline \<Rightarrow> int \<Rightarrow> int" where
  "clock_discipline_utc_us clock uptime_us =
     (if \<not> cd_synchronized clock then 0
      else let elapsed_us = uptime_us - cd_anchor_uptime_us clock;
               correcting_us = (if elapsed_us < CLOCK_DISCIPLINE_CORRECTION_US
                                then elapsed_us else CLOCK_DISCIPLINE_CORRECTION_US);
               correction_so_far_us =
                 c_div (cd_correction_us clock * correcting_us) CLOCK_DISCIPLINE_CORRECTION_US
           in cd_anchor_utc_us clock + elapsed_us + correction_so_far_us)"

definition jump_to :: "int \<Rightarrow> int \<Rightarrow> clock_discipline" where
  "jump_to uptime_us utc_us = \<lparr>cd_synchronized = True, cd_anchor_uptime_us = uptime_us,
     cd_anchor_utc_us = utc_us, cd_correction_us = 0, cd_rejected_in_a_row = 0,
     cd_rejecting_since_us = 0\<rparr>"

text \<open>The bookkeeping of an observation that is too far off: its start and its saturating count.\<close>

definition count_rejection :: "int \<Rightarrow> clock_discipline \<Rightarrow> clock_discipline" where
  "count_rejection uptime_us clock =
     (let clock = (if cd_rejected_in_a_row clock = 0
                   then clock\<lparr>cd_rejecting_since_us := uptime_us\<rparr> else clock)
      in if cd_rejected_in_a_row clock < 255
         then clock\<lparr>cd_rejected_in_a_row := cd_rejected_in_a_row clock + 1\<rparr> else clock)"

text \<open>The result, \<open>*error_us\<close>, and the clock afterwards.\<close>

definition clock_discipline_observe ::
  "clock_discipline \<Rightarrow> int \<Rightarrow> int \<Rightarrow> clock_observation \<times> int \<times> clock_discipline" where
  "clock_discipline_observe clock uptime_us utc_us =
     (if \<not> cd_synchronized clock then (CLOCK_OBSERVATION_ANCHORED, 0, jump_to uptime_us utc_us)
      else
        let estimate_us = clock_discipline_utc_us clock uptime_us;
            error_us = utc_us - estimate_us
        in if \<bar>error_us\<bar> > CLOCK_DISCIPLINE_MAX_ERROR_US
           then
             let clock = count_rejection uptime_us clock
             in if cd_rejected_in_a_row clock < CLOCK_DISCIPLINE_STEP_AFTER_REJECTIONS
                   \<or> uptime_us - cd_rejecting_since_us clock < CLOCK_DISCIPLINE_STEP_AFTER_US
                then (CLOCK_OBSERVATION_REJECTED, error_us, clock)
                else (CLOCK_OBSERVATION_STEPPED, error_us, jump_to uptime_us utc_us)
           else (CLOCK_OBSERVATION_CORRECTED, error_us,
                 clock\<lparr>cd_anchor_uptime_us := uptime_us, cd_anchor_utc_us := estimate_us,
                       cd_correction_us := error_us, cd_rejected_in_a_row := 0\<rparr>))"

subsection \<open>Samples with wrapping time stamps, and the shared clock\<close>

definition gps_time_sample_utc :: "int \<Rightarrow> u64 \<Rightarrow> u32 \<Rightarrow> int" where
  "gps_time_sample_utc utc_now_ms uptime_now_ms sample_ms =
     (if utc_now_ms \<le> 0 then 0
      else let delta = sample_ms - ucast uptime_now_ms;
               signed_delta = (if uint delta \<le> 2147483647 then uint delta
                               else uint delta - 4294967296)
           in utc_now_ms + signed_delta)"

definition absolute_clock_sample_utc :: "clock_discipline \<Rightarrow> int \<Rightarrow> u32 \<Rightarrow> int" where
  "absolute_clock_sample_utc clock now_us sample_ms =
     (let utc_us = clock_discipline_utc_us clock now_us
      in if utc_us = 0 then 0
         else gps_time_sample_utc (c_div utc_us 1000) (word_of_int (c_div now_us 1000)) sample_ms)"

definition absolute_clock_now_utc :: "clock_discipline \<Rightarrow> int \<Rightarrow> int" where
  "absolute_clock_now_utc clock now_us = c_div (clock_discipline_utc_us clock now_us) 1000"

text \<open>The \<open>timeval\<close> that \<open>set_system_clock\<close> hands to \<open>settimeofday\<close>.\<close>

definition set_system_clock :: "clock_discipline \<Rightarrow> int \<Rightarrow> int \<times> int" where
  "set_system_clock clock now_us =
     (let now_ms = absolute_clock_now_utc clock now_us
      in (c_div now_ms 1000, (now_ms - c_div now_ms 1000 * 1000) * 1000))"

text \<open>
  \<open>absolute_clock_observe_utc\<close>: the clock afterwards and, when this observation anchored it,
  the system time set; \<open>now_us\<close> is the timer reading \<open>set_system_clock\<close> takes.
\<close>

definition absolute_clock_observe_utc ::
  "int \<Rightarrow> int \<Rightarrow> int \<Rightarrow> clock_discipline \<Rightarrow> clock_discipline \<times> (int \<times> int) option" where
  "absolute_clock_observe_utc utc_ms uptime_us now_us clock =
     (if utc_ms \<le> 0 then (clock, None)
      else case clock_discipline_observe clock uptime_us (utc_ms * 1000) of
        (CLOCK_OBSERVATION_ANCHORED, _, clock') \<Rightarrow> (clock', Some (set_system_clock clock' now_us))
      | (_, _, clock') \<Rightarrow> (clock', None))"

subsection \<open>The clock between observations\<close>

definition clock_inv :: "clock_discipline \<Rightarrow> bool" where
  "clock_inv clock \<longleftrightarrow> \<bar>cd_correction_us clock\<bar> \<le> CLOCK_DISCIPLINE_MAX_ERROR_US"

lemma clock_inv_boot [simp]: "clock_inv clock_boot"
  by (simp add: clock_inv_def clock_boot_def clock_consts)

lemma clock_inv_jump [simp]: "clock_inv (jump_to u t)"
  by (simp add: clock_inv_def jump_to_def clock_consts)

lemma count_rejection_simps [simp]:
  "cd_synchronized (count_rejection u c) = cd_synchronized c"
  "cd_anchor_uptime_us (count_rejection u c) = cd_anchor_uptime_us c"
  "cd_anchor_utc_us (count_rejection u c) = cd_anchor_utc_us c"
  "cd_correction_us (count_rejection u c) = cd_correction_us c"
  "cd_rejecting_since_us (count_rejection u c) =
     (if cd_rejected_in_a_row c = 0 then u else cd_rejecting_since_us c)"
  "cd_rejected_in_a_row (count_rejection u c) =
     (if cd_rejected_in_a_row c < 255 then cd_rejected_in_a_row c + 1 else cd_rejected_in_a_row c)"
  by (simp_all add: count_rejection_def Let_def)

text \<open>The four outcomes of an observation, for case analysis.\<close>

definition far_off :: "clock_discipline \<Rightarrow> int \<Rightarrow> int \<Rightarrow> bool" where
  "far_off clock u t \<longleftrightarrow> \<bar>t - clock_discipline_utc_us clock u\<bar> > CLOCK_DISCIPLINE_MAX_ERROR_US"

definition may_step :: "clock_discipline \<Rightarrow> int \<Rightarrow> bool" where
  "may_step clock u \<longleftrightarrow> \<not> (cd_rejected_in_a_row (count_rejection u clock) < CLOCK_DISCIPLINE_STEP_AFTER_REJECTIONS
      \<or> u - cd_rejecting_since_us (count_rejection u clock) < CLOCK_DISCIPLINE_STEP_AFTER_US)"

definition steered :: "clock_discipline \<Rightarrow> int \<Rightarrow> int \<Rightarrow> clock_discipline" where
  "steered clock u t = clock\<lparr>cd_anchor_uptime_us := u,
     cd_anchor_utc_us := clock_discipline_utc_us clock u,
     cd_correction_us := t - clock_discipline_utc_us clock u, cd_rejected_in_a_row := 0\<rparr>"

lemma observe_eq:
  "clock_discipline_observe clock u t =
     (if \<not> cd_synchronized clock then (CLOCK_OBSERVATION_ANCHORED, 0, jump_to u t)
      else if \<not> far_off clock u t
      then (CLOCK_OBSERVATION_CORRECTED, t - clock_discipline_utc_us clock u, steered clock u t)
      else if \<not> may_step clock u
      then (CLOCK_OBSERVATION_REJECTED, t - clock_discipline_utc_us clock u, count_rejection u clock)
      else (CLOCK_OBSERVATION_STEPPED, t - clock_discipline_utc_us clock u, jump_to u t))"
  unfolding clock_discipline_observe_def far_off_def may_step_def steered_def Let_def by simp

lemma clock_inv_observe [inv_intros]:
  "clock_inv clock \<Longrightarrow> clock_inv (snd (snd (clock_discipline_observe clock u t)))"
  by (auto simp: observe_eq clock_inv_def far_off_def steered_def jump_to_def clock_consts)

lemma observe_synchronized: "cd_synchronized (snd (snd (clock_discipline_observe clock u t)))"
  by (auto simp: observe_eq steered_def jump_to_def)

text \<open>The correction applied after \<open>k\<close> of the 32 million microseconds of the correction period.\<close>

definition applied_correction :: "int \<Rightarrow> int \<Rightarrow> int" where
  "applied_correction c k =
     c_div (c * (if k < CLOCK_DISCIPLINE_CORRECTION_US then k else CLOCK_DISCIPLINE_CORRECTION_US))
       CLOCK_DISCIPLINE_CORRECTION_US"

lemma utc_us_eq:
  "cd_synchronized clock \<Longrightarrow> clock_discipline_utc_us clock u =
     cd_anchor_utc_us clock + (u - cd_anchor_uptime_us clock) +
     applied_correction (cd_correction_us clock) (u - cd_anchor_uptime_us clock)"
  by (simp add: clock_discipline_utc_us_def applied_correction_def Let_def)

lemma applied_correction_0 [simp]: "applied_correction c 0 = 0"
  by (simp add: applied_correction_def CLOCK_DISCIPLINE_CORRECTION_US_def)

lemma applied_correction_full:
  "CLOCK_DISCIPLINE_CORRECTION_US \<le> k \<Longrightarrow> applied_correction c k = c"
  by (simp add: applied_correction_def CLOCK_DISCIPLINE_CORRECTION_US_def)

text \<open>
  Over \<open>d\<close> microseconds the applied correction changes by at most one part in 160 (200 ms over
  32 s), up to one microsecond of rounding.
\<close>

lemma c_div_correction_step:
  assumes "\<bar>c\<bar> \<le> 200000" and "k \<le> k'"
  shows "\<bar>c_div (c * k') 32000000 - c_div (c * k) 32000000\<bar> \<le> (k' - k) div 160 + 1"
proof -
  let ?d = "k' - k"
  have diff: "\<bar>c * k' - c * k\<bar> \<le> 200000 * ?d"
  proof -
    have "\<bar>c * k' - c * k\<bar> = \<bar>c\<bar> * ?d" using assms(2) by (simp add: abs_mult flip: right_diff_distrib)
    also have "\<dots> \<le> 200000 * ?d" using assms by (intro mult_right_mono) auto
    finally show ?thesis .
  qed
  have close: "c_div y 32000000 - c_div x 32000000 \<le> (y - x) div 32000000 + 1" if "x \<le> y" for x y
    using that by (intro c_div_diff_le) auto
  have mono: "c_div x 32000000 \<le> c_div y 32000000" if "x \<le> y" for x y
    using that by (intro c_div_mono) auto
  have quot: "(y - x) div 32000000 \<le> ?d div 160" if "y - x \<le> 200000 * ?d" for x y
  proof -
    have "(y - x) div 32000000 \<le> (200000 * ?d) div 32000000" using that by (intro zdiv_mono1) auto
    also have "\<dots> = (200000 * ?d) div (200000 * 160)" by simp
    also have "\<dots> = ?d div 160" by (rule div_mult_mult1) simp
    finally show ?thesis .
  qed
  show ?thesis
  proof (cases "c * k \<le> c * k'")
    case True
    then show ?thesis using close [OF True] mono [OF True] quot [of "c * k'" "c * k"] diff by linarith
  next
    case False
    then have le: "c * k' \<le> c * k" by simp
    show ?thesis using close [OF le] mono [OF le] quot [of "c * k" "c * k'"] diff by linarith
  qed
qed

lemma applied_correction_step:
  assumes "\<bar>c\<bar> \<le> CLOCK_DISCIPLINE_MAX_ERROR_US" and "k \<le> k'"
  shows "\<bar>applied_correction c k' - applied_correction c k\<bar> \<le> (k' - k) div 160 + 1"
proof -
  let ?m = "\<lambda>x :: int. if x < 32000000 then x else 32000000"
  have "\<bar>c_div (c * ?m k') 32000000 - c_div (c * ?m k) 32000000\<bar> \<le> (?m k' - ?m k) div 160 + 1"
    using assms by (intro c_div_correction_step) (auto simp: clock_consts)
  also have "(?m k' - ?m k) div 160 \<le> (k' - k) div 160" using assms(2) by (intro zdiv_mono1) auto
  finally show ?thesis by (simp only: applied_correction_def CLOCK_DISCIPLINE_CORRECTION_US_def)
qed

subsection \<open>Readings never run backwards between steps\<close>

lemma utc_us_rate:
  assumes "clock_inv clock" and "cd_synchronized clock" and "u \<le> v"
  shows "\<bar>clock_discipline_utc_us clock v - clock_discipline_utc_us clock u - (v - u)\<bar> \<le> (v - u) div 160 + 1"
proof -
  have "u - cd_anchor_uptime_us clock \<le> v - cd_anchor_uptime_us clock" using assms(3) by simp
  from applied_correction_step [OF assms(1) [unfolded clock_inv_def] this]
  show ?thesis using assms(2) by (simp add: utc_us_eq)
qed

lemma div_160_less:
  assumes "1 \<le> (d :: int)"
  shows "d div 160 + 1 \<le> d"
proof -
  have "160 * (d div 160) + d mod 160 = d" by (rule mult_div_mod_eq)
  moreover have "0 \<le> d mod 160" and "d mod 160 < 160" by simp_all
  ultimately show ?thesis using assms by linarith
qed

lemma double_div_160: "2 * ((d :: int) div 160) \<le> d div 80"
proof -
  have "d div 160 = d div 80 div 2" using zdiv_zmult2_eq [of 2 d 80] by simp
  moreover have "2 * (d div 80 div 2) + d div 80 mod 2 = d div 80" by (rule mult_div_mod_eq)
  moreover have "0 \<le> d div 80 mod 2" by simp
  ultimately show ?thesis by linarith
qed

lemma utc_us_mono:
  assumes "clock_inv clock" and "cd_synchronized clock" and "u \<le> v"
  shows "clock_discipline_utc_us clock u \<le> clock_discipline_utc_us clock v"
proof (cases "u = v")
  case False
  then have "1 \<le> v - u" using assms(3) by simp
  then have "(v - u) div 160 + 1 \<le> v - u" by (rule div_160_less)
  then show ?thesis using utc_us_rate [OF assms] by linarith
qed simp

lemma utc_us_steered: "cd_synchronized clock \<Longrightarrow>
    clock_discipline_utc_us (steered clock u t) v =
    clock_discipline_utc_us clock u + (v - u) +
    applied_correction (t - clock_discipline_utc_us clock u) (v - u)"
  by (subst utc_us_eq) (simp_all add: steered_def)

lemma utc_us_count_rejection [simp]:
  "clock_discipline_utc_us (count_rejection u clock) v = clock_discipline_utc_us clock v"
  by (simp add: clock_discipline_utc_us_def)

text \<open>
  The clock advances at the right pace.  For a synchronized clock whose pending correction is
  within the accepted error, readings at growing uptimes do not decrease, and over any span
  the estimate differs from elapsed time by at most one part in 160 plus a microsecond.
\<close>

lemma clock_monotone_rate:
  assumes "clock_inv clock" and "cd_synchronized clock" and "u \<le> v"
  shows "clock_discipline_utc_us clock u \<le> clock_discipline_utc_us clock v \<and>
    \<bar>clock_discipline_utc_us clock v - clock_discipline_utc_us clock u - (v - u)\<bar> \<le> (v - u) div 160 + 1"
  using utc_us_mono [OF assms] utc_us_rate [OF assms] by blast

text \<open>
  An accepted GPS observation does not make time jump.  The estimate at the observed uptime is
  unchanged; for later uptimes the new estimate stays within one part in 80 of the old one
  (two microseconds for rounding); and once the 32-second correction period has passed the
  estimate equals the GPS time exactly.
\<close>

lemma accepted_observation_is_gradual:
  assumes "clock_inv clock"
    and "clock_discipline_observe clock u t = (CLOCK_OBSERVATION_CORRECTED, e, clock')"
  shows "clock_discipline_utc_us clock' u = clock_discipline_utc_us clock u \<and>
    (\<forall>v \<ge> u. \<bar>clock_discipline_utc_us clock' v - clock_discipline_utc_us clock v\<bar> \<le> (v - u) div 80 + 2) \<and>
    (\<forall>v \<ge> u + CLOCK_DISCIPLINE_CORRECTION_US. clock_discipline_utc_us clock' v = t + (v - u))"
proof -
  have sync: "cd_synchronized clock" and clock': "clock' = steered clock u t" and "\<not> far_off clock u t"
    using assms(2) by (auto simp: observe_eq split: if_splits)
  then have inv': "clock_inv clock'" and sync': "cd_synchronized clock'"
    by (auto simp: clock_inv_def steered_def far_off_def)
  have start: "clock_discipline_utc_us clock' u = clock_discipline_utc_us clock u"
    using sync by (simp add: clock' utc_us_steered)
  have "\<bar>clock_discipline_utc_us clock' v - clock_discipline_utc_us clock v\<bar> \<le> (v - u) div 80 + 2"
    if "u \<le> v" for v
  proof -
    have "2 * ((v - u) div 160) \<le> (v - u) div 80" by (rule double_div_160)
    then show ?thesis
      using utc_us_rate [OF inv' sync' that] utc_us_rate [OF assms(1) sync that] start by linarith
  qed
  moreover have "clock_discipline_utc_us clock' v = t + (v - u)" if "u + CLOCK_DISCIPLINE_CORRECTION_US \<le> v" for v
    using that sync by (simp add: clock' utc_us_steered applied_correction_full)
  ultimately show ?thesis using start by blast
qed

text \<open>A run of the clock: readings and observations, with the uptime they carry.\<close>

datatype clock_event = Read int | Observe int int

fun event_uptime :: "clock_event \<Rightarrow> int" where
  "event_uptime (Read u) = u"
| "event_uptime (Observe u t) = u"

fun clock_readings :: "clock_discipline \<Rightarrow> clock_event list \<Rightarrow> int list" where
  "clock_readings clock [] = []"
| "clock_readings clock (Read u # es) = clock_discipline_utc_us clock u # clock_readings clock es"
| "clock_readings clock (Observe u t # es) =
     clock_readings (snd (snd (clock_discipline_observe clock u t))) es"

fun never_steps :: "clock_discipline \<Rightarrow> clock_event list \<Rightarrow> bool" where
  "never_steps clock [] = True"
| "never_steps clock (Read u # es) = never_steps clock es"
| "never_steps clock (Observe u t # es) =
     (fst (clock_discipline_observe clock u t) \<noteq> CLOCK_OBSERVATION_STEPPED \<and>
      never_steps (snd (snd (clock_discipline_observe clock u t))) es)"

lemma observe_keeps_estimate:
  assumes "cd_synchronized clock"
    and "fst (clock_discipline_observe clock u t) \<noteq> CLOCK_OBSERVATION_STEPPED"
  shows "clock_discipline_utc_us (snd (snd (clock_discipline_observe clock u t))) u =
         clock_discipline_utc_us clock u"
  using assms by (auto simp: observe_eq utc_us_steered split: if_splits)

lemma readings_from:
  assumes "clock_inv clock" and "cd_synchronized clock" and "never_steps clock es"
    and "sorted (u0 # map event_uptime es)"
  shows "sorted (clock_discipline_utc_us clock u0 # clock_readings clock es)"
  using assms
proof (induction clock es arbitrary: u0 rule: clock_readings.induct)
  case (2 clock u es)
  have "sorted (clock_discipline_utc_us clock u # clock_readings clock es)"
    using "2.prems" by (intro "2.IH") auto
  moreover have "clock_discipline_utc_us clock u0 \<le> clock_discipline_utc_us clock u"
    using "2.prems" by (intro utc_us_mono) auto
  ultimately show ?case by auto
next
  case (3 clock u t es)
  let ?c = "snd (snd (clock_discipline_observe clock u t))"
  have "sorted (clock_discipline_utc_us ?c u # clock_readings ?c es)"
    using "3.prems" by (intro "3.IH") (auto intro: clock_inv_observe observe_synchronized)
  moreover have "clock_discipline_utc_us ?c u = clock_discipline_utc_us clock u"
    using "3.prems" by (intro observe_keeps_estimate) auto
  moreover have "clock_discipline_utc_us clock u0 \<le> clock_discipline_utc_us clock u"
    using "3.prems" by (intro utc_us_mono) auto
  ultimately show ?case by auto
qed simp

text \<open>
  C15: Absolute time does not run backwards between steps.  From a synchronized clock, let readings
  and GPS observations, accepted or rejected, come with uptimes that do not decrease, and let
  no observation be a step: the UTC readings are in order.
\<close>

theorem readings_in_order:
  assumes "clock_inv clock" and "cd_synchronized clock" and "never_steps clock es"
    and "sorted (map event_uptime es)"
  shows "sorted (clock_readings clock es)"
proof (cases es)
  case (Cons e es')
  have "sorted (event_uptime e # map event_uptime es)" using assms(4) Cons by auto
  from readings_from [OF assms(1-3) this] show ?thesis by simp
qed simp

theorem readings_in_order_witness:
  "sorted (clock_readings (jump_to 0 1000000)
     [Observe 1000000 2150000, Read 1500000, Observe 2000000 2800000, Read 2100000])"
  by (rule readings_in_order)
    (simp_all add: clock_inv_def observe_eq far_off_def may_step_def steered_def jump_to_def
      clock_discipline_utc_us_def c_div_def clock_consts)

subsection \<open>When the clock gives up on its estimate\<close>

text \<open>The clock after a list of observations, given as pairs of uptime and GPS time.\<close>

fun observe_all :: "clock_discipline \<Rightarrow> (int \<times> int) list \<Rightarrow> clock_discipline" where
  "observe_all clock [] = clock"
| "observe_all clock ((u, t) # os) = observe_all (snd (snd (clock_discipline_observe clock u t))) os"

fun all_rejected :: "clock_discipline \<Rightarrow> (int \<times> int) list \<Rightarrow> bool" where
  "all_rejected clock [] = True"
| "all_rejected clock ((u, t) # os) =
     (fst (clock_discipline_observe clock u t) = CLOCK_OBSERVATION_REJECTED \<and>
      all_rejected (snd (snd (clock_discipline_observe clock u t))) os)"

lemma observe_rejected:
  assumes "fst (clock_discipline_observe clock u t) = CLOCK_OBSERVATION_REJECTED"
  shows "cd_synchronized clock \<and>
    snd (snd (clock_discipline_observe clock u t)) = count_rejection u clock"
  using assms by (auto simp: observe_eq split: if_splits)

lemma unat_count_up:
  "unat (if x < 255 then x + 1 else x :: u8) = (if unat x < 255 then Suc (unat x) else unat x)"
proof (cases "x < 255")
  case True
  then have "unat x + unat (1 :: u8) < 2 ^ LENGTH(8)" by (simp add: word_less_nat_alt)
  then have "unat (x + 1) = Suc (unat x)" by (subst unat_add_lem [THEN iffD1]) simp_all
  with True show ?thesis by (simp add: word_less_nat_alt)
qed (simp add: word_less_nat_alt)

text \<open>What \<open>n\<close> rejections in a row, the first at \<open>u\<close>, leave in the clock.\<close>

definition rejecting :: "nat \<Rightarrow> int \<Rightarrow> clock_discipline \<Rightarrow> clock_discipline \<Rightarrow> bool" where
  "rejecting n u clock clock' \<longleftrightarrow> cd_synchronized clock' \<and>
     (\<forall>v. clock_discipline_utc_us clock' v = clock_discipline_utc_us clock v) \<and>
     unat (cd_rejected_in_a_row clock') = min 255 n \<and> cd_rejecting_since_us clock' = u"

lemma rejecting_first:
  "cd_synchronized clock \<Longrightarrow> cd_rejected_in_a_row clock = 0 \<Longrightarrow>
   rejecting 1 u clock (count_rejection u clock)"
  by (simp add: rejecting_def)

lemma rejecting_next:
  assumes "rejecting n u clock c" and "0 < n"
  shows "rejecting (Suc n) u clock (count_rejection v c)"
proof -
  have "unat (cd_rejected_in_a_row c) = min 255 n" using assms(1) by (simp add: rejecting_def)
  moreover from this have "cd_rejected_in_a_row c \<noteq> 0" using assms(2) by (auto simp: unat_eq_0 [symmetric])
  ultimately show ?thesis using assms unat_count_up [of "cd_rejected_in_a_row c"]
    by (auto simp: rejecting_def)
qed

lemma rejecting_all:
  assumes "all_rejected c os" and "rejecting n u clock c" and "0 < n"
  shows "rejecting (n + length os) u clock (observe_all c os)"
  using assms
proof (induction os arbitrary: c n)
  case (Cons o1 os)
  obtain v t where o1: "o1 = (v, t)" by (cases o1)
  have step: "snd (snd (clock_discipline_observe c v t)) = count_rejection v c"
    using Cons.prems(1) o1 observe_rejected by simp
  have "rejecting (Suc n + length os) u clock (observe_all (count_rejection v c) os)"
    using Cons.prems o1 step by (intro Cons.IH rejecting_next) auto
  then show ?case by (simp add: o1 step)
qed simp

lemma rejecting_from_start:
  assumes "all_rejected clock ((u, t) # os)" and "cd_rejected_in_a_row clock = 0"
  shows "rejecting (Suc (length os)) u clock (observe_all clock ((u, t) # os))"
proof -
  have "cd_synchronized clock" and step: "snd (snd (clock_discipline_observe clock u t)) = count_rejection u clock"
    using assms(1) observe_rejected by auto
  then have "rejecting 1 u clock (count_rejection u clock)" using assms(2) by (intro rejecting_first)
  from rejecting_all [OF _ this] assms(1) show ?thesis by (simp add: step)
qed

lemma rejecting_may_step:
  assumes "rejecting n u clock c" and "0 < n"
  shows "may_step c v \<longleftrightarrow> 4 \<le> n \<and> CLOCK_DISCIPLINE_STEP_AFTER_US \<le> v - u"
proof -
  have "rejecting (Suc n) u clock (count_rejection v c)" using assms by (rule rejecting_next)
  then have "unat (cd_rejected_in_a_row (count_rejection v c)) = min 255 (Suc n)"
    and "cd_rejecting_since_us (count_rejection v c) = u" unfolding rejecting_def by blast+
  then show ?thesis
    unfolding may_step_def word_less_nat_alt CLOCK_DISCIPLINE_STEP_AFTER_REJECTIONS_def by auto
qed

text \<open>
  C16: The clock steps exactly when it should.  Let a clock with no rejection pending reject a run of
  observations, the first at uptime \<open>u\<close>.  The estimate is untouched by them, and the next
  observation, if it too is more than 200 ms off, steps the clock exactly when the run had at
  least four observations and began at least five seconds before; the 8-bit count of rejections
  saturates, so this stays true for runs of any length.
\<close>

theorem clock_step_rule:
  assumes "all_rejected clock ((u, t) # os)" and "cd_rejected_in_a_row clock = 0"
    and "clock' = observe_all clock ((u, t) # os)"
  shows "(\<forall>w. clock_discipline_utc_us clock' w = clock_discipline_utc_us clock w) \<and>
    (fst (clock_discipline_observe clock' v s) = CLOCK_OBSERVATION_STEPPED \<longleftrightarrow>
       CLOCK_DISCIPLINE_MAX_ERROR_US < \<bar>s - clock_discipline_utc_us clock v\<bar> \<and>
       4 \<le> length ((u, t) # os) \<and> CLOCK_DISCIPLINE_STEP_AFTER_US \<le> v - u)"
proof -
  have r: "rejecting (Suc (length os)) u clock clock'"
    using rejecting_from_start [OF assms(1,2)] assms(3) by simp
  then have same: "clock_discipline_utc_us clock' w = clock_discipline_utc_us clock w" for w
    by (simp add: rejecting_def)
  have "cd_synchronized clock'" using r by (simp add: rejecting_def)
  then show ?thesis using rejecting_may_step [OF r, of v] same
    by (auto simp: observe_eq far_off_def)
qed

theorem clock_step_rule_witness:
  "fst (clock_discipline_observe (observe_all (jump_to 0 1000000)
      [(1000000, 9000000), (2000000, 9000000), (3000000, 9000000), (4000000, 9000000)])
      6000000 15000000) = CLOCK_OBSERVATION_STEPPED"
proof -
  have "all_rejected (jump_to 0 1000000)
      [(1000000, 9000000), (2000000, 9000000), (3000000, 9000000), (4000000, 9000000)]"
    by (simp add: observe_eq far_off_def may_step_def jump_to_def clock_discipline_utc_us_def clock_consts)
  from clock_step_rule [OF this _ refl, of 6000000 15000000] show ?thesis
    by (simp add: jump_to_def clock_discipline_utc_us_def clock_consts)
qed

subsection \<open>From sample stamps to UTC\<close>

lemma ucast_word_of_int_u32: "ucast (word_of_int n :: u64) = (word_of_int n :: u32)"
  by (rule bit_word_eqI) (simp add: bit_simps)

lemma wrapped_delta:
  assumes "-2147483648 \<le> d" and "d \<le> 2147483647"
  shows "(if uint (word_of_int d :: u32) \<le> 2147483647 then uint (word_of_int d :: u32)
          else uint (word_of_int d :: u32) - 4294967296) = d"
proof (cases "0 \<le> d")
  case True
  then have "uint (word_of_int d :: u32) = d" using assms by (simp add: uint_word_of_int)
  then show ?thesis using assms by simp
next
  case False
  have "uint (word_of_int d :: u32) = d + 4294967296"
  proof -
    have "d mod 4294967296 = (d + 4294967296) mod 4294967296" by simp
    also have "\<dots> = d + 4294967296" using False assms by (intro mod_pos_pos_trivial) auto
    finally show ?thesis by (simp add: uint_word_of_int)
  qed
  then show ?thesis using False assms by simp
qed

lemma gps_time_sample_utc_exact:
  assumes "0 < utc_now" and "\<bar>s - n\<bar> \<le> 2147483647"
  shows "gps_time_sample_utc utc_now (word_of_int n) (word_of_int s) = utc_now + (s - n)"
proof -
  have "word_of_int s - ucast (word_of_int n :: u64) = (word_of_int (s - n) :: u32)"
    by (simp only: ucast_word_of_int_u32 wi_hom_syms)
  moreover have "-2147483648 \<le> s - n" and "s - n \<le> 2147483647" using assms(2) by simp_all
  ultimately show ?thesis using assms(1) wrapped_delta [of "s - n"]
    by (simp only: gps_time_sample_utc_def Let_def not_le [symmetric] if_False)
qed

text \<open>
  C17: A sample taken at uptime \<open>s\<close> milliseconds carries only the low 32 bits of it, which wrap
  every 49.7 days.  As long as the sample lies within 24.8 days of the current uptime, before or
  after, the UTC computed for it is the UTC of now shifted by exactly their distance, whatever
  the wrap.
\<close>

theorem sample_utc_survives_wrap:
  assumes "1000 \<le> clock_discipline_utc_us clock now_us" and "\<bar>s - c_div now_us 1000\<bar> \<le> 2147483647"
  shows "absolute_clock_sample_utc clock now_us (word_of_int s) =
    absolute_clock_now_utc clock now_us + (s - c_div now_us 1000)"
proof -
  have "0 < c_div (clock_discipline_utc_us clock now_us) 1000"
    using assms(1) c_div_mono [of 1000 1000 "clock_discipline_utc_us clock now_us"]
    by (simp add: c_div_nonneg)
  then show ?thesis using assms
    by (simp add: absolute_clock_sample_utc_def absolute_clock_now_utc_def gps_time_sample_utc_exact)
qed

theorem sample_utc_survives_wrap_witness:
  "absolute_clock_sample_utc (jump_to 0 1700000000000000) 4294967300000 (word_of_int 4294967290) =
   absolute_clock_now_utc (jump_to 0 1700000000000000) 4294967300000 - 10"
  using sample_utc_survives_wrap [of "jump_to 0 1700000000000000" 4294967300000 4294967290]
  by (simp add: jump_to_def clock_discipline_utc_us_def c_div_def clock_consts)

subsection \<open>No 64-bit overflow\<close>

text \<open>
  With an anchor below the year 100000, uptimes below 2 to the 53 microseconds (285 years) and
  readings at most 400 days older than the anchor, every intermediate value of
  \<open>clock_discipline_utc_us\<close> is an \<open>int64_t\<close>.
\<close>

lemma clock_arith_in_range:
  assumes "clock_inv clock" and "\<bar>cd_anchor_utc_us clock\<bar> \<le> 4000000000000000000"
    and "cd_anchor_uptime_us clock - 34560000000000 \<le> u" and "u - cd_anchor_uptime_us clock \<le> 2 ^ 53"
    and "k = min (u - cd_anchor_uptime_us clock) CLOCK_DISCIPLINE_CORRECTION_US"
  shows "in_i64 (cd_correction_us clock * k) \<and> in_i64 (clock_discipline_utc_us clock u)"
proof -
  have k: "\<bar>k\<bar> \<le> 34560000000000" using assms(3,5) by (auto simp: clock_consts min_def)
  have "\<bar>cd_correction_us clock * k\<bar> = \<bar>cd_correction_us clock\<bar> * \<bar>k\<bar>" by (rule abs_mult)
  also have "\<dots> \<le> 200000 * 34560000000000"
    using k assms(1) by (intro mult_mono) (auto simp: clock_inv_def clock_consts)
  finally have prod: "\<bar>cd_correction_us clock * k\<bar> \<le> 6912000000000000000" by simp
  then have "\<bar>cd_correction_us clock * k\<bar> div 32000000 \<le> 6912000000000000000 div 32000000"
    by (intro zdiv_mono1) simp_all
  then have "\<bar>c_div (cd_correction_us clock * k) 32000000\<bar> \<le> 216000000000"
    using c_div_abs_le [of 32000000 "cd_correction_us clock * k"] by simp
  moreover have "clock_discipline_utc_us clock u = 0 \<or> clock_discipline_utc_us clock u =
      cd_anchor_utc_us clock + (u - cd_anchor_uptime_us clock) + c_div (cd_correction_us clock * k) 32000000"
    using assms(5) by (simp add: clock_discipline_utc_us_def Let_def clock_consts min_def)
  ultimately show ?thesis using prod assms(2-4) by (auto simp: in_i64_def)
qed

end
