(* ===== verification/Data_Logger.thy ===== *)
theory Data_Logger
  imports Can_Payload Rtos_Queue C_Time Absolute_Clock "HOL-Library.Sublist"
begin

text \<open>
  Recording, \<open>logger/data_logger.c\<close>: file names, the choice of a default name, the start and stop
  of a session, renaming, the enqueue side and the writer task with its block buffer, its
  checkpoints and the UTC companion file.  The card is a map from paths to nodes; an open
  stream is the path it writes to, and a file's content is what its stream accepted.  Which
  calls of the C library and FreeRTOS succeed, how many bytes a write accepted and the tick
  counter are arguments, so every failure branch is a value the definitions compute.
\<close>

definition LOG_QUEUE_LENGTH :: nat where "LOG_QUEUE_LENGTH = 256"
definition LOG_RECORDS_PER_BLOCK :: nat where "LOG_RECORDS_PER_BLOCK = 100"
definition LOG_FLUSH_INTERVAL_MS :: nat where "LOG_FLUSH_INTERVAL_MS = 15000"
definition LOG_PATH_LENGTH :: nat where "LOG_PATH_LENGTH = 64"
definition DEFAULT_NAME_GPS_WAIT_MS :: nat where "DEFAULT_NAME_GPS_WAIT_MS = 3000"
definition DATA_LOGGER_FILENAME_MAX :: nat where "DATA_LOGGER_FILENAME_MAX = 44"

datatype logger_state = LOGGER_IDLE | LOGGER_RUNNING | LOGGER_STOPPING

datatype data_logger_start_result =
    DATA_LOGGER_START_OK
  | DATA_LOGGER_START_ACTIVE
  | DATA_LOGGER_START_INVALID_NAME
  | DATA_LOGGER_START_EXISTS
  | DATA_LOGGER_START_OPEN_FAILED

datatype data_logger_rename_result =
    DATA_LOGGER_RENAME_OK
  | DATA_LOGGER_RENAME_INVALID_NAME
  | DATA_LOGGER_RENAME_ACTIVE
  | DATA_LOGGER_RENAME_NOT_FOUND
  | DATA_LOGGER_RENAME_EXISTS
  | DATA_LOGGER_RENAME_FAILED

datatype fs_node = Regular_File "u8 list" | Other_Node

type_synonym filesystem = "string \<rightharpoonup> fs_node"

record queued_sample =
  qs_message :: can_message
  qs_utc_ms :: int

record 'q logger =
  log_queue :: 'q
  log_file :: "string option"
  utc_file :: "string option"
  utc_path :: string
  log_path :: string
  lg_state :: logger_state
  queue_drops :: u32
  block :: "queued_sample list"
  last_checkpoint :: u32
  sd_card :: filesystem

definition logger_boot :: "'q \<Rightarrow> filesystem \<Rightarrow> 'q logger" where
  "logger_boot q fs = \<lparr>log_queue = q, log_file = None, utc_file = None, utc_path = [], log_path = [],
     lg_state = LOGGER_IDLE, queue_drops = 0, block = [], last_checkpoint = 0, sd_card = fs\<rparr>"

subsection \<open>File names\<close>

definition data_logger_valid_filename :: "string option \<Rightarrow> bool" where
  "data_logger_valid_filename filename =
     (case filename of
        None \<Rightarrow> False
      | Some name \<Rightarrow>
          \<not> (length name < 5 \<or> length name > DATA_LOGGER_FILENAME_MAX
             \<or> drop (length name - 4) name \<noteq> ''.bin'')
          \<and> list_all (\<lambda>c. char_isalnum c \<or> c = CHR ''_'' \<or> c = CHR ''-'') (take (length name - 4) name))"

definition sidecar_path :: "string \<Rightarrow> string" where
  "sidecar_path path = snprintf (LOG_PATH_LENGTH + 8) (path @ ''.utc'')"

definition sdcard_path :: "string \<Rightarrow> string" where
  "sdcard_path name = snprintf LOG_PATH_LENGTH (''/sdcard/'' @ name)"

definition taken :: "filesystem \<Rightarrow> string \<Rightarrow> bool" where
  "taken fs path \<longleftrightarrow> path \<in> dom fs \<or> sidecar_path path \<in> dom fs"

text \<open>
  The loops of \<open>choose_default_log_path\<close> over \<open>sfx\<close> and \<open>index\<close>, which have no bound of their
  own: the first free candidate from \<open>k\<close> on.
\<close>

partial_function (option) first_free :: "(nat \<Rightarrow> string) \<Rightarrow> filesystem \<Rightarrow> nat \<Rightarrow> string option" where
  "first_free candidate fs k =
     (if \<not> taken fs (candidate k) then Some (candidate k) else first_free candidate fs (Suc k))"

definition timestamp_candidate :: "string \<Rightarrow> nat \<Rightarrow> string" where
  "timestamp_candidate stamp sfx =
     (if sfx = 0 then snprintf LOG_PATH_LENGTH (''/sdcard/'' @ stamp @ ''.bin'')
      else snprintf LOG_PATH_LENGTH (''/sdcard/'' @ stamp @ ''_'' @ dec_pad 2 sfx @ ''.bin''))"

definition numbered_candidate :: "nat \<Rightarrow> string" where
  "numbered_candidate index = snprintf LOG_PATH_LENGTH (''/sdcard/log_'' @ dec_pad 4 index @ ''.bin'')"

text \<open>
  The wait for GPS time: readings of the clock, each with the tick counter after it; the last
  one is past the deadline, so a reading past the end of the list does not occur.
\<close>

fun wait_for_utc :: "(nat \<Rightarrow> u32) \<Rightarrow> u32 \<Rightarrow> (int \<times> u32) list \<Rightarrow> int" where
  "wait_for_utc pd started [] = 0"
| "wait_for_utc pd started ((utc_ms, ticks) # rest) =
     (if utc_ms > 0 then utc_ms
      else if ticks - started \<ge> pd DEFAULT_NAME_GPS_WAIT_MS then utc_ms
      else wait_for_utc pd started rest)"

definition log_stamp :: "int \<Rightarrow> string option" where
  "log_stamp utc_ms =
     (let utc = gmtime (nat (utc_ms div 1000))
      in strftime 32 (''log_'' @ strftime_date utc @ ''_'' @ strftime_time ''-'' utc))"

definition choose_default_log_path ::
  "(nat \<Rightarrow> u32) \<Rightarrow> u32 \<Rightarrow> (int \<times> u32) list \<Rightarrow> filesystem \<Rightarrow> string option" where
  "choose_default_log_path pd started readings fs =
     (let utc_ms = wait_for_utc pd started readings
      in case (if utc_ms > 0 then log_stamp utc_ms else None) of
           Some stamp \<Rightarrow> first_free (timestamp_candidate stamp) fs 0
         | None \<Rightarrow> first_free numbered_candidate fs 1)"

subsection \<open>Starting a session\<close>

text \<open>
  What a start meets: the mutex, what other tasks did to the card between the checks and the
  opening of the files, and which of the four opening calls succeed (an exclusive \<open>open\<close>
  fails anyway when the path exists).
\<close>

record start_env =
  start_mutex :: bool
  start_between :: "filesystem \<Rightarrow> filesystem"
  log_open_ok :: bool
  log_fdopen_ok :: bool
  utc_open_ok :: bool
  utc_fdopen_ok :: bool

text \<open>A start in which nothing fails and nobody interferes.\<close>

definition smooth_start :: start_env where
  "smooth_start = \<lparr>start_mutex = True, start_between = id, log_open_ok = True, log_fdopen_ok = True,
     utc_open_ok = True, utc_fdopen_ok = True\<rparr>"

text \<open>\<open>open(path, O_WRONLY | O_CREAT | O_EXCL)\<close>: success, whether \<open>errno\<close> is \<open>EEXIST\<close>, the card.\<close>

definition open_excl :: "bool \<Rightarrow> string \<Rightarrow> filesystem \<Rightarrow> bool \<times> bool \<times> filesystem" where
  "open_excl ok path fs =
     (if path \<in> dom fs then (False, True, fs)
      else if ok then (True, False, fs(path \<mapsto> Regular_File []))
      else (False, False, fs))"

definition unlink :: "string \<Rightarrow> filesystem \<Rightarrow> filesystem" where
  "unlink path fs = fs(path := None)"

definition start_at ::
  "('q, queued_sample) queue_api \<Rightarrow> start_env \<Rightarrow> string \<Rightarrow> 'q logger \<Rightarrow> data_logger_start_result \<times> 'q logger" where
  "start_at Q env path lg =
     (let upath = sidecar_path path
      in if path \<in> dom (sd_card lg) \<or> upath \<in> dom (sd_card lg) then (DATA_LOGGER_START_EXISTS, lg)
         else if \<not> start_mutex env then (DATA_LOGGER_START_OPEN_FAILED, lg)
         else
           let fs = start_between env (sd_card lg);
               (log_opened, log_eexist, fs) = open_excl (log_open_ok env) path fs;
               log_ok = (log_opened \<and> log_fdopen_ok env);
               (utc_opened, utc_eexist, fs) =
                 (if log_ok then open_excl (utc_open_ok env) upath fs else (False, log_eexist, fs));
               utc_ok = (utc_opened \<and> utc_fdopen_ok env);
               fs = (if log_ok \<and> \<not> utc_ok
                     then (if utc_opened then unlink upath else id) (unlink path fs) else fs)
           in if \<not> (log_ok \<and> utc_ok)
              then (if utc_eexist then DATA_LOGGER_START_EXISTS else DATA_LOGGER_START_OPEN_FAILED,
                    lg\<lparr>log_file := None, utc_file := None, sd_card := fs\<rparr>)
              else (DATA_LOGGER_START_OK,
                    lg\<lparr>log_file := Some path, utc_file := Some upath,
                       log_path := snprintf LOG_PATH_LENGTH path,
                       utc_path := snprintf (LOG_PATH_LENGTH + 8) upath,
                       log_queue := xQueueReset Q (log_queue lg),
                       lg_state := LOGGER_RUNNING, sd_card := fs\<rparr>))"

text \<open>\<open>data_logger_start\<close>; None would be a search for a default name that never ends.\<close>

definition data_logger_start ::
  "('q, queued_sample) queue_api \<Rightarrow> (nat \<Rightarrow> u32) \<Rightarrow> u32 \<Rightarrow> (int \<times> u32) list \<Rightarrow> start_env \<Rightarrow>
   string option \<Rightarrow> 'q logger \<Rightarrow> (data_logger_start_result \<times> 'q logger) option" where
  "data_logger_start Q pd started readings env filename lg =
     (if lg_state lg \<noteq> LOGGER_IDLE then Some (DATA_LOGGER_START_ACTIVE, lg)
      else case filename of
        Some name \<Rightarrow>
          if \<not> data_logger_valid_filename filename then Some (DATA_LOGGER_START_INVALID_NAME, lg)
          else Some (start_at Q env (sdcard_path name) lg)
      | None \<Rightarrow>
          (case choose_default_log_path pd started readings (sd_card lg) of
             None \<Rightarrow> None
           | Some path \<Rightarrow> Some (start_at Q env path lg)))"

subsection \<open>Renaming\<close>

record rename_env =
  rename_mutex :: bool
  rename_log_ok :: bool
  rename_utc_ok :: bool
  rename_back_ok :: bool

definition is_regular :: "filesystem \<Rightarrow> string \<Rightarrow> bool" where
  "is_regular fs path \<longleftrightarrow> (case fs path of Some (Regular_File bytes) \<Rightarrow> True | _ \<Rightarrow> False)"

definition fs_rename :: "string \<Rightarrow> string \<Rightarrow> filesystem \<Rightarrow> filesystem" where
  "fs_rename old_path new_path fs = fs(new_path := fs old_path, old_path := None)"

definition data_logger_rename ::
  "rename_env \<Rightarrow> string option \<Rightarrow> string option \<Rightarrow> 'q logger \<Rightarrow> data_logger_rename_result \<times> 'q logger" where
  "data_logger_rename env old_filename new_filename lg =
     (if \<not> data_logger_valid_filename old_filename \<or> \<not> data_logger_valid_filename new_filename
      then (DATA_LOGGER_RENAME_INVALID_NAME, lg)
      else if old_filename = new_filename then (DATA_LOGGER_RENAME_OK, lg)
      else if \<not> rename_mutex env then (DATA_LOGGER_RENAME_FAILED, lg)
      else
        let old_path = sdcard_path (the old_filename);
            new_path = sdcard_path (the new_filename);
            old_utc_path = sidecar_path old_path;
            new_utc_path = sidecar_path new_path;
            fs = sd_card lg
        in if lg_state lg \<noteq> LOGGER_IDLE \<and> (old_path = log_path lg \<or> new_path = log_path lg)
           then (DATA_LOGGER_RENAME_ACTIVE, lg)
           else if \<not> is_regular fs old_path then (DATA_LOGGER_RENAME_NOT_FOUND, lg)
           else if new_path \<in> dom fs \<or> new_utc_path \<in> dom fs then (DATA_LOGGER_RENAME_EXISTS, lg)
           else
             let has_utc = is_regular fs old_utc_path
             in if \<not> rename_log_ok env then (DATA_LOGGER_RENAME_FAILED, lg)
                else
                  let fs = fs_rename old_path new_path fs
                  in if has_utc \<and> \<not> rename_utc_ok env
                     then (DATA_LOGGER_RENAME_FAILED,
                           lg\<lparr>sd_card := (if rename_back_ok env then fs_rename new_path old_path fs else fs)\<rparr>)
                     else
                       let fs = (if has_utc then fs_rename old_utc_path new_utc_path fs else fs);
                           lg = lg\<lparr>sd_card := fs\<rparr>
                       in (DATA_LOGGER_RENAME_OK,
                           if log_path lg = old_path
                           then lg\<lparr>log_path := new_path, utc_path := new_utc_path\<rparr> else lg))"

subsection \<open>Stopping and enqueueing\<close>

definition data_logger_stop :: "'q logger \<Rightarrow> bool \<times> 'q logger" where
  "data_logger_stop lg =
     (if lg_state lg \<noteq> LOGGER_RUNNING then (False, lg)
      else (True, lg\<lparr>lg_state := LOGGER_STOPPING\<rparr>))"

text \<open>
  \<open>data_logger_enqueue\<close> in its two parts, between which other tasks may run: the check of the
  state with the UTC of the sample, and the queue send.
\<close>

definition enqueue_check :: "(u32 \<Rightarrow> int) \<Rightarrow> can_message \<Rightarrow> 'q logger \<Rightarrow> queued_sample option" where
  "enqueue_check sample_utc message lg =
     (if lg_state lg \<noteq> LOGGER_RUNNING then None
      else Some \<lparr>qs_message = message, qs_utc_ms = sample_utc (sample_timestamp (msg_data message))\<rparr>)"

definition enqueue_send :: "('q, queued_sample) queue_api \<Rightarrow> queued_sample \<Rightarrow> 'q logger \<Rightarrow> 'q logger" where
  "enqueue_send Q sample lg =
     (case xQueueSend Q (log_queue lg) sample of
        None \<Rightarrow> lg\<lparr>queue_drops := queue_drops lg + 1\<rparr>
      | Some q \<Rightarrow> lg\<lparr>log_queue := q\<rparr>)"

definition data_logger_enqueue ::
  "('q, queued_sample) queue_api \<Rightarrow> (u32 \<Rightarrow> int) \<Rightarrow> can_message \<Rightarrow> 'q logger \<Rightarrow> 'q logger" where
  "data_logger_enqueue Q sample_utc message lg =
     (case enqueue_check sample_utc message lg of
        None \<Rightarrow> lg
      | Some sample \<Rightarrow> enqueue_send Q sample lg)"

definition data_logger_path :: "'q logger \<Rightarrow> string" where
  "data_logger_path lg = (if log_path lg \<noteq> [] then log_path lg else ''none'')"

definition data_logger_state_name :: "'q logger \<Rightarrow> string" where
  "data_logger_state_name lg =
     (case lg_state lg of
        LOGGER_RUNNING \<Rightarrow> ''running'' | LOGGER_STOPPING \<Rightarrow> ''stopping'' | LOGGER_IDLE \<Rightarrow> ''idle'')"

subsection \<open>Paths of recordings\<close>

text \<open>The shape of every path a session writes to: it fits its array and ends in \<open>.bin\<close>.\<close>

definition bin_path :: "string \<Rightarrow> bool" where
  "bin_path p \<longleftrightarrow> (\<exists>stem. p = ''/sdcard/'' @ stem @ ''.bin'') \<and> length p < LOG_PATH_LENGTH"

lemma sidecar_path_eq [simp]: "bin_path p \<Longrightarrow> sidecar_path p = p @ ''.utc''"
  by (simp add: bin_path_def sidecar_path_def LOG_PATH_LENGTH_def)

lemma bin_path_not_sidecar: "bin_path p \<Longrightarrow> p \<noteq> q @ ''.utc''"
proof
  assume "bin_path p" and "p = q @ ''.utc''"
  then obtain stem where "''/sdcard/'' @ stem @ ''.bin'' = q @ ''.utc''" by (auto simp: bin_path_def)
  then have "rev (''/sdcard/'' @ stem @ ''.bin'') = rev (q @ ''.utc'')" by (rule arg_cong)
  then show False by simp
qed

lemma valid_filename_iff:
  "data_logger_valid_filename (Some name) \<longleftrightarrow>
   (\<exists>stem. name = stem @ ''.bin'' \<and> 1 \<le> length stem \<and> length stem \<le> 40 \<and>
      (\<forall>c \<in> set stem. char_isalnum c \<or> c = CHR ''_'' \<or> c = CHR ''-''))" (is "?L \<longleftrightarrow> ?R")
proof
  assume L: ?L
  let ?stem = "take (length name - 4) name"
  have "name = ?stem @ drop (length name - 4) name" by simp
  also have "drop (length name - 4) name = ''.bin''"
    using L by (auto simp: data_logger_valid_filename_def)
  finally have "name = ?stem @ ''.bin''" .
  moreover have "1 \<le> length ?stem \<and> length ?stem \<le> 40 \<and>
      (\<forall>c \<in> set ?stem. char_isalnum c \<or> c = CHR ''_'' \<or> c = CHR ''-'')"
    using L by (auto simp: data_logger_valid_filename_def DATA_LOGGER_FILENAME_MAX_def list_all_iff)
  ultimately show ?R by blast
next
  assume ?R
  then show ?L
    by (auto simp: data_logger_valid_filename_def DATA_LOGGER_FILENAME_MAX_def list_all_iff)
qed

lemma valid_filename_paths:
  assumes "data_logger_valid_filename (Some name)"
  shows "sdcard_path name = ''/sdcard/'' @ name \<and> bin_path (sdcard_path name)"
proof -
  obtain stem where n: "name = stem @ ''.bin''" and l: "length stem \<le> 40"
    using assms by (auto simp: valid_filename_iff)
  then show ?thesis by (auto simp: sdcard_path_def bin_path_def LOG_PATH_LENGTH_def)
qed

lemma valid_filename_bin: "data_logger_valid_filename (Some name) \<Longrightarrow> bin_path (sdcard_path name)"
  using valid_filename_paths by blast

lemma sdcard_path_inject:
  "data_logger_valid_filename (Some m) \<Longrightarrow> data_logger_valid_filename (Some n) \<Longrightarrow>
   sdcard_path m = sdcard_path n \<longleftrightarrow> m = n"
  using valid_filename_paths [of m] valid_filename_paths [of n] by simp

text \<open>
  The names a client may choose.  A filename is accepted exactly when it is a stem of 1 to 40
  letters, digits, underscores and hyphens followed by \<open>.bin\<close>; then its path and the path of
  its companion fit their arrays, so neither is truncated, and the name holds no slash, so the
  file lies in the root of the card.
\<close>

lemma valid_filename_safe:
  assumes "data_logger_valid_filename (Some name)"
  shows "(\<exists>stem. name = stem @ ''.bin'' \<and> 1 \<le> length stem \<and> length stem \<le> 40) \<and>
    sdcard_path name = ''/sdcard/'' @ name \<and> sidecar_path (sdcard_path name) = ''/sdcard/'' @ name @ ''.utc'' \<and>
    CHR ''/'' \<notin> set name"
proof -
  obtain stem where n: "name = stem @ ''.bin''" and s: "1 \<le> length stem" "length stem \<le> 40"
    and c: "\<forall>c \<in> set stem. char_isalnum c \<or> c = CHR ''_'' \<or> c = CHR ''-''"
    using assms by (auto simp: valid_filename_iff)
  have "\<not> char_isalnum (CHR ''/'')" by (simp add: char_class_defs)
  then have "CHR ''/'' \<notin> set stem" using c by fastforce
  then show ?thesis using n s valid_filename_paths [OF assms] by auto
qed

subsection \<open>Default names\<close>

lemma first_free_is:
  assumes "k \<le> m" and "\<not> taken fs (f m)" and "\<And>j. k \<le> j \<Longrightarrow> j < m \<Longrightarrow> taken fs (f j)"
  shows "first_free f fs k = Some (f m)"
  using assms
proof (induction "m - k" arbitrary: k)
  case 0
  then show ?case by (subst first_free.simps) simp
next
  case (Suc d)
  then have "taken fs (f k)" by simp
  then show ?case using Suc by (subst first_free.simps) simp
qed

text \<open>Among more candidates than twice the files on the card, one is free.\<close>

lemma some_candidate_free:
  assumes "finite (dom fs)" and inj: "inj_on f {k..k + 2 * card (dom fs)}"
    and short: "\<And>j. j \<in> {k..k + 2 * card (dom fs)} \<Longrightarrow> bin_path (f j)"
  shows "\<exists>m. k \<le> m \<and> m \<le> k + 2 * card (dom fs) \<and> \<not> taken fs (f m)"
proof (rule ccontr)
  let ?J = "{k..k + 2 * card (dom fs)}"
  let ?cut = "\<lambda>p :: string. take (length p - 4) p"
  assume none: "\<not> ?thesis"
  have "f ` ?J \<subseteq> dom fs \<union> ?cut ` dom fs"
  proof
    fix p assume "p \<in> f ` ?J"
    then obtain j where j: "j \<in> ?J" and p: "p = f j" by blast
    then have "p \<in> dom fs \<or> p @ ''.utc'' \<in> dom fs"
      using none short [OF j] by (auto simp: taken_def)
    moreover have "p = ?cut (p @ ''.utc'')" by simp
    ultimately show "p \<in> dom fs \<union> ?cut ` dom fs" by blast
  qed
  then have "card (f ` ?J) \<le> card (dom fs \<union> ?cut ` dom fs)" using assms(1) by (intro card_mono) auto
  also have "\<dots> \<le> card (dom fs) + card (?cut ` dom fs)" by (rule card_Un_le)
  also have "\<dots> \<le> 2 * card (dom fs)" using card_image_le [OF assms(1)] by simp
  also have "\<dots> < card ?J" by simp
  also have "card ?J = card (f ` ?J)" using inj by (simp add: card_image)
  finally show False by simp
qed

lemma first_free_found:
  assumes "finite (dom fs)" and "inj_on f {k..k + 2 * card (dom fs)}"
    and "\<And>j. j \<in> {k..k + 2 * card (dom fs)} \<Longrightarrow> bin_path (f j)"
  shows "\<exists>m \<le> k + 2 * card (dom fs). k \<le> m \<and> first_free f fs k = Some (f m) \<and> \<not> taken fs (f m) \<and>
    (\<forall>j. k \<le> j \<and> j < m \<longrightarrow> taken fs (f j))"
proof -
  let ?P = "\<lambda>m. k \<le> m \<and> m \<le> k + 2 * card (dom fs) \<and> \<not> taken fs (f m)"
  let ?m = "LEAST m. ?P m"
  obtain m where "?P m" using some_candidate_free [OF assms] by blast
  then have least: "?P ?m" by (rule LeastI)
  have before: "taken fs (f j)" if "k \<le> j" "j < ?m" for j
    using that least not_less_Least [of j ?P] by auto
  show ?thesis using least before first_free_is [of k ?m fs f] by blast
qed

lemma numbered_candidate_eq:
  assumes "k < 10 ^ 10"
  shows "numbered_candidate k = ''/sdcard/log_'' @ dec_pad 4 k @ ''.bin'' \<and> bin_path (numbered_candidate k)"
proof -
  have "length (dec k) \<le> 10" using assms by (rule length_dec_less) simp
  then have len: "length (dec_pad 4 k) \<le> 10" by (simp add: dec_pad_def)
  then have eq: "numbered_candidate k = ''/sdcard/log_'' @ dec_pad 4 k @ ''.bin''"
    by (simp add: numbered_candidate_def LOG_PATH_LENGTH_def)
  then have "numbered_candidate k = ''/sdcard/'' @ (''log_'' @ dec_pad 4 k) @ ''.bin''" by simp
  then show ?thesis using eq len unfolding bin_path_def LOG_PATH_LENGTH_def by fastforce
qed

lemma timestamp_candidate_eq:
  assumes "length stamp < 32" and "k < 10 ^ 10"
  shows "timestamp_candidate stamp k =
      ''/sdcard/'' @ (if k = 0 then stamp else stamp @ ''_'' @ dec_pad 2 k) @ ''.bin'' \<and>
    bin_path (timestamp_candidate stamp k)"
proof -
  have "length (dec k) \<le> 10" using assms(2) by (rule length_dec_less) simp
  then have len: "length (dec_pad 2 k) \<le> 10" by (simp add: dec_pad_def)
  then have "timestamp_candidate stamp k =
      ''/sdcard/'' @ (if k = 0 then stamp else stamp @ ''_'' @ dec_pad 2 k) @ ''.bin''"
    using assms(1) by (simp add: timestamp_candidate_def LOG_PATH_LENGTH_def)
  then show ?thesis using len assms(1) unfolding bin_path_def LOG_PATH_LENGTH_def by fastforce
qed

lemma inj_numbered: "inj_on numbered_candidate {k. k < 10 ^ 10}"
  by (rule inj_onI) (simp add: numbered_candidate_eq)

lemma inj_timestamp: "length stamp < 32 \<Longrightarrow> inj_on (timestamp_candidate stamp) {k. k < 10 ^ 10}"
  by (rule inj_onI) (auto simp: timestamp_candidate_eq split: if_splits)

lemma log_stamp_short: "log_stamp t = Some stamp \<Longrightarrow> length stamp < 32"
  by (auto simp: log_stamp_def strftime_def Let_def split: if_splits)

lemma choose_default_log_path_found:
  assumes "finite (dom fs)" and "2 * card (dom fs) + 1 < 2 ^ 32"
  shows "\<exists>p. choose_default_log_path pd started readings fs = Some p \<and> bin_path p \<and> \<not> taken fs p"
proof -
  have small: "j < 10 ^ 10" if "j \<le> k + 2 * card (dom fs)" and "k \<le> 1" for j k
  proof -
    have "j < 2 ^ 32" using that assms(2) by linarith
    then show ?thesis by simp
  qed
  show ?thesis
  proof (cases "if wait_for_utc pd started readings > 0 then log_stamp (wait_for_utc pd started readings) else None")
    case None
    have "inj_on numbered_candidate {1..1 + 2 * card (dom fs)}"
      by (rule inj_on_subset [OF inj_numbered]) (use small [of _ 1] in auto)
    from first_free_found [OF assms(1) this] show ?thesis
      using None small [of _ 1] numbered_candidate_eq by (fastforce simp: choose_default_log_path_def)
  next
    case (Some stamp)
    then have short: "length stamp < 32" using log_stamp_short by (auto split: if_splits)
    have "inj_on (timestamp_candidate stamp) {0..0 + 2 * card (dom fs)}"
      by (rule inj_on_subset [OF inj_timestamp [OF short]]) (use small [of _ 0] in auto)
    from first_free_found [OF assms(1) this] show ?thesis
      using Some small [of _ 0] timestamp_candidate_eq [OF short] by (fastforce simp: choose_default_log_path_def)
  qed
qed

text \<open>
  C23: Choosing a default name ends and is safe.  Whatever readings the GPS wait saw, on a card with a
  finite number of files (fewer than 2 to the 31) the search over suffixes ends, at a path that
  fits its array and for which neither a recording nor a companion exists; so a start without
  a name never fails because the name is taken.
\<close>

theorem default_name_is_free:
  assumes "finite (dom (sd_card lg))" and "2 * card (dom (sd_card lg)) + 1 < 2 ^ 32"
    and "lg_state lg = LOGGER_IDLE"
  shows "\<exists>path. data_logger_start Q pd started readings env None lg = Some (start_at Q env path lg) \<and>
    length path < LOG_PATH_LENGTH \<and> path \<notin> dom (sd_card lg) \<and> path @ ''.utc'' \<notin> dom (sd_card lg)"
proof -
  obtain p where p: "choose_default_log_path pd started readings (sd_card lg) = Some p" "bin_path p"
      "\<not> taken (sd_card lg) p"
    using choose_default_log_path_found [OF assms(1,2)] by blast
  then show ?thesis using assms(3) by (auto simp: data_logger_start_def taken_def bin_path_def)
qed

theorem default_name_is_free_witness:
  "\<exists>path. data_logger_start (list_queue LOG_QUEUE_LENGTH) (\<lambda>ms. word_of_nat ms) 0 [(0, 4000)] smooth_start None
       (logger_boot [] [''/sdcard/log_0001.bin'' \<mapsto> Regular_File []]) =
     Some (start_at (list_queue LOG_QUEUE_LENGTH) smooth_start path
       (logger_boot [] [''/sdcard/log_0001.bin'' \<mapsto> Regular_File []])) \<and> path \<noteq> ''/sdcard/log_0001.bin''"
proof -
  let ?lg = "logger_boot ([] :: queued_sample list) [''/sdcard/log_0001.bin'' \<mapsto> Regular_File []]"
  have "finite (dom (sd_card ?lg))" and "2 * card (dom (sd_card ?lg)) + 1 < 2 ^ 32" and "lg_state ?lg = LOGGER_IDLE"
    by (simp_all add: logger_boot_def)
  from default_name_is_free [OF this, of "list_queue LOG_QUEUE_LENGTH" "\<lambda>ms. word_of_nat ms" 0 "[(0, 4000)]" smooth_start]
  show ?thesis by (auto simp: logger_boot_def)
qed

subsection \<open>What a start does to the card\<close>

lemma start_at_card:
  assumes "start_at Q env path lg = (r, lg')" and "bin_path path"
  defines "fs \<equiv> start_between env (sd_card lg)"
  shows "(r = DATA_LOGGER_START_OK \<and> path \<notin> dom fs \<and> path @ ''.utc'' \<notin> dom fs \<and>
      sd_card lg' = fs(path \<mapsto> Regular_File [], path @ ''.utc'' \<mapsto> Regular_File []) \<and>
      lg_state lg' = LOGGER_RUNNING \<and> log_path lg' = path \<and> utc_path lg' = path @ ''.utc'' \<and>
      log_file lg' = Some path \<and> utc_file lg' = Some (path @ ''.utc'') \<and>
      log_queue lg' = xQueueReset Q (log_queue lg) \<and> block lg' = block lg) \<or>
    (r \<noteq> DATA_LOGGER_START_OK \<and> lg_state lg' = lg_state lg \<and>
      (sd_card lg' = sd_card lg \<or> sd_card lg' = fs \<or>
       (\<not> log_fdopen_ok env \<and> path \<notin> dom fs \<and> sd_card lg' = fs(path \<mapsto> Regular_File []))))"
proof -
  have ne: "path @ ''.utc'' \<noteq> path" by simp
  have len: "length path < LOG_PATH_LENGTH" using assms(2) by (simp add: bin_path_def)
  have side: "sidecar_path path = path @ ''.utc''" using assms(2) by simp
  have sn: "snprintf LOG_PATH_LENGTH path = path" "snprintf (LOG_PATH_LENGTH + 8) (path @ ''.utc'') = path @ ''.utc''"
    using len by simp_all
  show ?thesis
  proof (cases "path \<in> dom (sd_card lg) \<or> path @ ''.utc'' \<in> dom (sd_card lg) \<or> \<not> start_mutex env")
    case True
    then show ?thesis using assms(1) unfolding start_at_def side by (auto simp: Let_def split: if_splits)
  next
    case False
    then show ?thesis using assms(1) ne unfolding start_at_def side sn fs_def
      by (cases "path \<in> dom (start_between env (sd_card lg))";
          cases "path @ ''.utc'' \<in> dom (start_between env (sd_card lg))";
          cases "log_open_ok env"; cases "log_fdopen_ok env"; cases "utc_open_ok env"; cases "utc_fdopen_ok env")
        (auto simp: sn Let_def open_excl_def unlink_def fun_upd_idem_iff domIff)
  qed
qed

text \<open>A start changes the state of the logger exactly when it succeeds.\<close>

lemma start_at_state:
  "lg_state (snd (start_at Q env path lg)) =
     (if fst (start_at Q env path lg) = DATA_LOGGER_START_OK then LOGGER_RUNNING else lg_state lg)"
  by (simp add: start_at_def Let_def split_beta)

lemma data_logger_start_state:
  assumes "data_logger_start Q pd started readings env filename lg = Some (r, lg')"
  shows "lg_state lg' = (if r = DATA_LOGGER_START_OK then LOGGER_RUNNING else lg_state lg)"
  using assms start_at_state [of Q env _ lg]
  by (auto simp: data_logger_start_def split: if_splits option.splits) (metis fst_conv snd_conv)+

lemma data_logger_start_path:
  assumes "data_logger_start Q pd started readings env filename lg = Some (r, lg')"
    and "finite (dom (sd_card lg))" and "2 * card (dom (sd_card lg)) + 1 < 2 ^ 32"
  obtains (refused) "r = DATA_LOGGER_START_ACTIVE \<or> r = DATA_LOGGER_START_INVALID_NAME" and "lg' = lg"
  | (tried) path where "lg_state lg = LOGGER_IDLE" and "bin_path path"
      and "start_at Q env path lg = (r, lg')"
      and "filename \<noteq> None \<Longrightarrow> path = sdcard_path (the filename)"
proof (cases "lg_state lg = LOGGER_IDLE \<and> (filename \<noteq> None \<longrightarrow> data_logger_valid_filename filename)")
  case False
  then have "r = DATA_LOGGER_START_ACTIVE \<or> r = DATA_LOGGER_START_INVALID_NAME" and "lg' = lg"
    using assms(1) by (auto simp: data_logger_start_def split: option.splits if_splits)
  then show ?thesis by (rule refused)
next
  case True
  then have idle: "lg_state lg = LOGGER_IDLE" by blast
  show ?thesis
  proof (cases filename)
    case None
    obtain p where p: "choose_default_log_path pd started readings (sd_card lg) = Some p" "bin_path p"
      using choose_default_log_path_found [OF assms(2,3)] by blast
    have "start_at Q env p lg = (r, lg')" using assms(1) None idle p(1) by (simp add: data_logger_start_def)
    then show ?thesis by (rule tried [OF idle p(2)]) (simp add: None)
  next
    case (Some name)
    then have "data_logger_valid_filename (Some name)" using True by simp
    then have "bin_path (sdcard_path name)" and "start_at Q env (sdcard_path name) lg = (r, lg')"
      using valid_filename_bin assms(1) Some idle by (simp_all add: data_logger_start_def)
    then show ?thesis by (rule tried [OF idle]) (simp add: Some)
  qed
qed

text \<open>
  C22: A start never overwrites.  However the start ends, with a chosen or a default name, every file
  that was on the card and that no other task touched meanwhile is still there with the same
  content.  On success both the recording and its companion are new and empty, neither existed
  when it was opened, and the logger is running.  A failed start leaves the card as it found it,
  with one exception: when \<open>fdopen\<close> fails for the recording, its empty file stays behind.
\<close>

theorem start_never_overwrites:
  assumes "data_logger_start Q pd started readings env filename lg = Some (r, lg')"
    and "finite (dom (sd_card lg))" and "2 * card (dom (sd_card lg)) + 1 < 2 ^ 32"
  shows "(\<forall>p \<in> dom (sd_card lg). start_between env (sd_card lg) p = sd_card lg p \<longrightarrow>
      sd_card lg' p = sd_card lg p) \<and>
    (r = DATA_LOGGER_START_OK \<longrightarrow> (\<exists>path. log_file lg' = Some path \<and> utc_file lg' = Some (path @ ''.utc'') \<and>
      sd_card lg' path = Some (Regular_File []) \<and> sd_card lg' (path @ ''.utc'') = Some (Regular_File []) \<and>
      start_between env (sd_card lg) path = None \<and> start_between env (sd_card lg) (path @ ''.utc'') = None \<and>
      lg_state lg = LOGGER_IDLE \<and> lg_state lg' = LOGGER_RUNNING)) \<and>
    (r \<noteq> DATA_LOGGER_START_OK \<longrightarrow> lg_state lg' = lg_state lg \<and>
      (log_fdopen_ok env \<longrightarrow> sd_card lg' = sd_card lg \<or> sd_card lg' = start_between env (sd_card lg)))"
  using assms
proof (cases rule: data_logger_start_path)
  case (tried path)
  from start_at_card [OF tried(3,2)] show ?thesis
    using tried(1) by (elim disjE conjE) (auto simp: domIff)
qed auto

theorem start_never_overwrites_witness:
  "\<exists>lg'. data_logger_start (list_queue LOG_QUEUE_LENGTH) (\<lambda>ms. word_of_nat ms) 0 [] smooth_start (Some ''a.bin'')
       (logger_boot [] [''/sdcard/b.bin'' \<mapsto> Regular_File [1]]) = Some (DATA_LOGGER_START_OK, lg') \<and>
     sd_card lg' ''/sdcard/b.bin'' = Some (Regular_File [1])"
proof -
  let ?lg = "logger_boot ([] :: queued_sample list) [''/sdcard/b.bin'' \<mapsto> Regular_File [1]]"
  let ?st = "data_logger_start (list_queue LOG_QUEUE_LENGTH) (\<lambda>ms. word_of_nat ms) 0 [] smooth_start (Some ''a.bin'') ?lg"
  have v: "data_logger_valid_filename (Some ''a.bin'')"
    by (simp add: data_logger_valid_filename_def DATA_LOGGER_FILENAME_MAX_def char_class_defs)
  have sd: "sdcard_path ''a.bin'' = ''/sdcard/a.bin''" "sidecar_path ''/sdcard/a.bin'' = ''/sdcard/a.bin.utc''"
    by (simp_all add: sdcard_path_def sidecar_path_def LOG_PATH_LENGTH_def)
  have "sd_card ?lg ''/sdcard/a.bin'' = None" and "sd_card ?lg ''/sdcard/a.bin.utc'' = None"
    and "lg_state ?lg = LOGGER_IDLE" by (simp_all add: logger_boot_def)
  then have "\<exists>lg'. ?st = Some (DATA_LOGGER_START_OK, lg')"
    by (simp add: data_logger_start_def v sd start_at_def smooth_start_def open_excl_def Let_def domIff
        del: snprintf_fits)
  then obtain lg' where st: "?st = Some (DATA_LOGGER_START_OK, lg')" ..
  have "finite (dom (sd_card ?lg))" and "2 * card (dom (sd_card ?lg)) + 1 < 2 ^ 32"
    by (simp_all add: logger_boot_def)
  from start_never_overwrites [OF st this, THEN conjunct1] st show ?thesis by (simp add: logger_boot_def smooth_start_def)
qed

subsection \<open>What a rename does to the card\<close>

lemma fs_rename_back: "new_path \<notin> dom fs \<Longrightarrow> old_path \<in> dom fs \<Longrightarrow>
    fs_rename new_path old_path (fs_rename old_path new_path fs) = fs"
  by (rule ext) (auto simp: fs_rename_def)

lemma ran_fs_rename:
  assumes "new_path \<notin> dom fs" and "old_path \<in> dom fs"
  shows "ran (fs_rename old_path new_path fs) = ran fs"
proof -
  have ne: "old_path \<noteq> new_path" and no: "fs new_path = None" using assms by auto
  let ?t = "\<lambda>p. if p = old_path then new_path else if p = new_path then old_path else p"
  have move: "fs_rename old_path new_path fs (?t p) = fs p" for p using ne no by (simp add: fs_rename_def)
  have "?t (?t p) = p" for p using ne by simp
  then have move': "fs_rename old_path new_path fs p = fs (?t p)" for p using move [of "?t p"] by simp
  show ?thesis
  proof (rule set_eqI)
    fix b
    show "b \<in> ran (fs_rename old_path new_path fs) \<longleftrightarrow> b \<in> ran fs"
    proof
      assume "b \<in> ran (fs_rename old_path new_path fs)"
      then obtain p where "fs_rename old_path new_path fs p = Some b" unfolding ran_def by blast
      then have "fs (?t p) = Some b" unfolding move' .
      then show "b \<in> ran fs" by (rule ranI)
    next
      assume "b \<in> ran fs"
      then obtain p where "fs p = Some b" unfolding ran_def by blast
      then have "fs_rename old_path new_path fs (?t p) = Some b" unfolding move .
      then show "b \<in> ran (fs_rename old_path new_path fs)" by (rule ranI)
    qed
  qed
qed

lemma is_regular_dom: "is_regular fs p \<Longrightarrow> p \<in> dom fs"
  by (auto simp: is_regular_def split: option.splits)

text \<open>When a rename gets as far as touching the card, and what it then does.\<close>

definition renameable :: "string \<Rightarrow> string \<Rightarrow> 'q logger \<Rightarrow> bool" where
  "renameable m n lg \<longleftrightarrow> data_logger_valid_filename (Some m) \<and> data_logger_valid_filename (Some n) \<and> m \<noteq> n \<and>
     (lg_state lg = LOGGER_IDLE \<or> sdcard_path m \<noteq> log_path lg \<and> sdcard_path n \<noteq> log_path lg) \<and>
     is_regular (sd_card lg) (sdcard_path m) \<and> sdcard_path n \<notin> dom (sd_card lg) \<and>
     sdcard_path n @ ''.utc'' \<notin> dom (sd_card lg)"

definition renamed :: "string \<Rightarrow> string \<Rightarrow> filesystem \<Rightarrow> filesystem" where
  "renamed m n fs =
     (let fs' = fs_rename (sdcard_path m) (sdcard_path n) fs
      in if is_regular fs (sdcard_path m @ ''.utc'')
         then fs_rename (sdcard_path m @ ''.utc'') (sdcard_path n @ ''.utc'') fs' else fs')"

lemma data_logger_rename_refused:
  assumes "\<not> renameable m n lg"
  shows "snd (data_logger_rename env (Some m) (Some n) lg) = lg \<and>
    (fst (data_logger_rename env (Some m) (Some n) lg) = DATA_LOGGER_RENAME_OK \<longrightarrow> m = n)"
proof (cases "data_logger_valid_filename (Some m) \<and> data_logger_valid_filename (Some n)")
  case True
  then have side: "sidecar_path (sdcard_path m) = sdcard_path m @ ''.utc''"
      "sidecar_path (sdcard_path n) = sdcard_path n @ ''.utc''"
    by (simp_all only: sidecar_path_eq valid_filename_bin)
  note eq = data_logger_rename_def [of env "Some m" "Some n" lg, unfolded Let_def option.sel side]
  consider "m = n" | "m \<noteq> n" "\<not> rename_mutex env"
    | "m \<noteq> n" "rename_mutex env" "lg_state lg \<noteq> LOGGER_IDLE \<and> (sdcard_path m = log_path lg \<or> sdcard_path n = log_path lg)"
    | "m \<noteq> n" "rename_mutex env" "\<not> (lg_state lg \<noteq> LOGGER_IDLE \<and> (sdcard_path m = log_path lg \<or> sdcard_path n = log_path lg))"
      "\<not> is_regular (sd_card lg) (sdcard_path m)"
    | "m \<noteq> n" "rename_mutex env" "\<not> (lg_state lg \<noteq> LOGGER_IDLE \<and> (sdcard_path m = log_path lg \<or> sdcard_path n = log_path lg))"
      "is_regular (sd_card lg) (sdcard_path m)"
      "sdcard_path n \<in> dom (sd_card lg) \<or> sdcard_path n @ ''.utc'' \<in> dom (sd_card lg)"
    using assms True unfolding renameable_def by argo
  then show ?thesis
  proof cases
    case 1
    then show ?thesis using True by (simp add: data_logger_rename_def)
  qed (simp_all only: eq True if_True if_False simp_thms fst_conv snd_conv option.inject, simp_all)
qed (simp add: data_logger_rename_def)

text \<open>A rename touches the card and, for the last session's files, the remembered paths only.\<close>

lemma data_logger_rename_frame:
  "log_path lg \<noteq> sdcard_path m \<Longrightarrow>
   snd (data_logger_rename env (Some m) (Some n) lg) =
     lg\<lparr>sd_card := sd_card (snd (data_logger_rename env (Some m) (Some n) lg))\<rparr>"
  by (simp add: data_logger_rename_def Let_def)

lemma data_logger_rename_done:
  assumes "renameable m n lg"
  obtains (untouched) "data_logger_rename env (Some m) (Some n) lg = (DATA_LOGGER_RENAME_FAILED, lg)"
  | (partial) "\<not> rename_back_ok env"
      and "data_logger_rename env (Some m) (Some n) lg = (DATA_LOGGER_RENAME_FAILED,
             lg\<lparr>sd_card := fs_rename (sdcard_path m) (sdcard_path n) (sd_card lg)\<rparr>)"
  | (moved) lg' where "data_logger_rename env (Some m) (Some n) lg = (DATA_LOGGER_RENAME_OK, lg')"
      and "sd_card lg' = renamed m n (sd_card lg)"
proof -
  let ?o = "sdcard_path m" and ?n = "sdcard_path n"
  let ?utc = "is_regular (sd_card lg) (?o @ ''.utc'')"
  have side: "sidecar_path ?o = ?o @ ''.utc''" "sidecar_path ?n = ?n @ ''.utc''"
    using assms by (simp_all only: sidecar_path_eq valid_filename_bin renameable_def)
  have undo: "fs_rename ?n ?o (fs_rename ?o ?n (sd_card lg)) = sd_card lg"
    using assms by (intro fs_rename_back) (auto simp: renameable_def dest: is_regular_dom)
  have "\<not> (lg_state lg \<noteq> LOGGER_IDLE \<and> (?o = log_path lg \<or> ?n = log_path lg))"
    and "\<not> (?n \<in> dom (sd_card lg) \<or> ?n @ ''.utc'' \<in> dom (sd_card lg))"
    and "is_regular (sd_card lg) ?o" and "m \<noteq> n"
    and "data_logger_valid_filename (Some m)" and "data_logger_valid_filename (Some n)"
    using assms unfolding renameable_def by blast+
  note guards = this
  note eq = data_logger_rename_def [of env "Some m" "Some n" lg, unfolded Let_def option.sel side]
  note eval = eq guards undo renamed_def Let_def if_True if_False simp_thms option.inject
  consider (a) "\<not> rename_mutex env" | (b) "rename_mutex env" "\<not> rename_log_ok env"
    | (c) "rename_mutex env" "rename_log_ok env" "?utc" "\<not> rename_utc_ok env" "rename_back_ok env"
    | (d) "rename_mutex env" "rename_log_ok env" "?utc" "\<not> rename_utc_ok env" "\<not> rename_back_ok env"
    | (e) "rename_mutex env" "rename_log_ok env" "?utc" "rename_utc_ok env"
    | (f) "rename_mutex env" "rename_log_ok env" "\<not> ?utc" by blast
  then show ?thesis
  proof cases
    case a
    then show ?thesis by (intro untouched) (simp only: eval)
  next
    case b
    then show ?thesis by (intro untouched) (simp only: eval)
  next
    case c
    then show ?thesis by (intro untouched) (simp only: eval, simp)
  next
    case d
    show ?thesis by (rule partial [OF d(5)]) (simp only: eval d)
  next
    case e
    have "fst (data_logger_rename env (Some m) (Some n) lg) = DATA_LOGGER_RENAME_OK"
      by (simp only: eval e fst_conv)
    moreover have "sd_card (snd (data_logger_rename env (Some m) (Some n) lg)) = renamed m n (sd_card lg)"
      by (simp only: eval e snd_conv) simp
    ultimately show ?thesis by (metis moved prod.collapse)
  next
    case f
    have "fst (data_logger_rename env (Some m) (Some n) lg) = DATA_LOGGER_RENAME_OK"
      by (simp only: eval f fst_conv)
    moreover have "sd_card (snd (data_logger_rename env (Some m) (Some n) lg)) = renamed m n (sd_card lg)"
      by (simp only: eval f snd_conv) simp
    ultimately show ?thesis by (metis moved prod.collapse)
  qed
qed

lemma renameable_sidecars:
  assumes "renameable m n lg"
  shows "sdcard_path m \<noteq> sdcard_path n" and "sdcard_path m @ ''.utc'' \<noteq> sdcard_path n"
    and "sdcard_path m \<noteq> sdcard_path n @ ''.utc''"
  using assms bin_path_not_sidecar [OF valid_filename_bin, of m] bin_path_not_sidecar [OF valid_filename_bin, of n]
    sdcard_path_inject [of m n] unfolding renameable_def by metis+

lemma renamed_apply:
  assumes "renameable m n lg"
  shows "renamed m n (sd_card lg) p =
    (if p = sdcard_path n then sd_card lg (sdcard_path m)
     else if p = sdcard_path m then None
     else if is_regular (sd_card lg) (sdcard_path m @ ''.utc'') \<and> p = sdcard_path n @ ''.utc''
       then sd_card lg (sdcard_path m @ ''.utc'')
     else if is_regular (sd_card lg) (sdcard_path m @ ''.utc'') \<and> p = sdcard_path m @ ''.utc'' then None
     else sd_card lg p)"
  using renameable_sidecars [OF assms] unfolding renamed_def fs_rename_def Let_def by auto

lemma ran_renamed:
  assumes "renameable m n lg"
  shows "ran (renamed m n (sd_card lg)) = ran (sd_card lg)"
proof -
  have m: "sdcard_path m \<in> dom (sd_card lg)" "sdcard_path n \<notin> dom (sd_card lg)"
      "sdcard_path n @ ''.utc'' \<notin> dom (sd_card lg)"
    using assms by (auto simp: renameable_def dest: is_regular_dom)
  then have "ran (fs_rename (sdcard_path m) (sdcard_path n) (sd_card lg)) = ran (sd_card lg)"
    by (intro ran_fs_rename)
  moreover have "ran (fs_rename (sdcard_path m @ ''.utc'') (sdcard_path n @ ''.utc'')
        (fs_rename (sdcard_path m) (sdcard_path n) (sd_card lg)))
      = ran (fs_rename (sdcard_path m) (sdcard_path n) (sd_card lg))"
    if "is_regular (sd_card lg) (sdcard_path m @ ''.utc'')"
    using m that renameable_sidecars [OF assms]
    by (intro ran_fs_rename) (auto simp: fs_rename_def dest: is_regular_dom)
  ultimately show ?thesis by (simp add: renamed_def Let_def)
qed

lemma renamed_keeps_session:
  assumes "renameable m n lg" and "lg_state lg \<noteq> LOGGER_IDLE" and "bin_path (log_path lg)"
    and "p = log_path lg \<or> p = log_path lg @ ''.utc''"
  shows "renamed m n (sd_card lg) p = sd_card lg p"
    and "fs_rename (sdcard_path m) (sdcard_path n) (sd_card lg) p = sd_card lg p"
proof -
  have ne: "sdcard_path m \<noteq> log_path lg" "sdcard_path n \<noteq> log_path lg"
    and v: "bin_path (sdcard_path m)" "bin_path (sdcard_path n)"
    using assms(1,2) by (auto simp: renameable_def valid_filename_bin)
  have "p \<notin> {sdcard_path n, sdcard_path m, sdcard_path n @ ''.utc'', sdcard_path m @ ''.utc''}"
    using assms(4) ne bin_path_not_sidecar [OF assms(3)] bin_path_not_sidecar [OF v(1)]
      bin_path_not_sidecar [OF v(2)] by (metis append_same_eq empty_iff insert_iff)
  then show "renamed m n (sd_card lg) p = sd_card lg p"
    and "fs_rename (sdcard_path m) (sdcard_path n) (sd_card lg) p = sd_card lg p"
    by (simp_all add: renamed_apply [OF assms(1)] fs_rename_def)
qed

text \<open>A rename during a session changes the card elsewhere only.\<close>

lemma rename_in_session:
  assumes "lg_state lg \<noteq> LOGGER_IDLE" and "bin_path (log_path lg)"
  shows "\<exists>fs. snd (data_logger_rename env (Some m) (Some n) lg) = lg\<lparr>sd_card := fs\<rparr> \<and>
    fs (log_path lg) = sd_card lg (log_path lg) \<and> fs (log_path lg @ ''.utc'') = sd_card lg (log_path lg @ ''.utc'')"
proof (cases "renameable m n lg")
  case False
  then show ?thesis using data_logger_rename_refused [OF False, of env]
    by (intro exI [of _ "sd_card lg"]) simp
next
  case True
  note same = renamed_keeps_session [OF True assms]
  have "log_path lg \<noteq> sdcard_path m" using True assms(1) by (auto simp: renameable_def)
  note frame = data_logger_rename_frame [OF this, of env n]
  show ?thesis
  proof (cases rule: data_logger_rename_done [OF True, of env, case_names untouched partial moved])
    case untouched
    then show ?thesis by (intro exI [of _ "sd_card lg"]) simp
  next
    case partial
    then show ?thesis
      using same(2) by (intro exI [of _ "fs_rename (sdcard_path m) (sdcard_path n) (sd_card lg)"]) simp
  next
    case (moved lg')
    then show ?thesis using frame same(1) by (intro exI [of _ "renamed m n (sd_card lg)"]) simp
  qed
qed



end
