(* ===== verification/Log_Writer.thy ===== *)
theory Log_Writer
  imports Data_Logger
begin

text \<open>
  The writer task of \<open>logger/data_logger.c\<close>: from the queue into a block of up to 100 records,
  from the block into the recording and its UTC companion, with a checkpoint every 15 seconds
  and an orderly end.  One round of \<open>writer_task\<close> is the composition of its four phases; other
  tasks run between the phases, so the statements are about arbitrary interleavings of phases
  with samples arriving, the stop request and renames of other files.  Each write says how many
  bytes the C library accepted, so short writes and failed flushes are covered.
\<close>

subsection \<open>Bytes on the card\<close>

definition record_bytes :: "queued_sample \<Rightarrow> u8 list" where
  "record_bytes s = payload_bytes (ucast (msg_id (qs_message s))) @ payload_bytes (msg_data (qs_message s))"

definition utc_bytes :: "queued_sample \<Rightarrow> u8 list" where
  "utc_bytes s = payload_bytes (word_of_int (qs_utc_ms s))"

definition recording :: "queued_sample list \<Rightarrow> u8 list" where
  "recording ss = concat (map record_bytes ss)"

definition companion :: "queued_sample list \<Rightarrow> u8 list" where
  "companion ss = concat (map utc_bytes ss)"

lemma length_record_bytes [simp]: "length (record_bytes s) = 16"
  by (simp add: record_bytes_def)

lemma length_utc_bytes [simp]: "length (utc_bytes s) = 8"
  by (simp add: utc_bytes_def)

lemma recording_simps [simp]: "recording [] = []" "recording (a @ b) = recording a @ recording b"
  by (simp_all add: recording_def)

lemma companion_simps [simp]: "companion [] = []" "companion (a @ b) = companion a @ companion b"
  by (simp_all add: companion_def)

lemma length_recording [simp]: "length (recording ss) = 16 * length ss"
  by (induction ss) (simp_all add: recording_def)

lemma length_companion [simp]: "length (companion ss) = 8 * length ss"
  by (induction ss) (simp_all add: companion_def)

lemma take_recording: "take (16 * n) (recording ss) = recording (take n ss)"
proof (induction ss arbitrary: n)
  case (Cons s ss)
  then show ?case by (cases n) (simp_all add: recording_def)
qed simp

lemma take_companion: "take (8 * n) (companion ss) = companion (take n ss)"
proof (induction ss arbitrary: n)
  case (Cons s ss)
  then show ?case by (cases n) (simp_all add: companion_def)
qed simp

subsection \<open>Operations\<close>

text \<open>
  What a write meets: the mutex, how many bytes \<open>fwrite\<close> accepted for the recording and for the
  companion (cut to the bytes given), and whether the companion's flush succeeded.
\<close>

record write_env =
  write_mutex :: bool
  log_accepted :: nat
  utc_accepted :: nat
  utc_flush_ok :: bool

record checkpoint_env =
  checkpoint_mutex :: bool
  log_reopen_ok :: bool
  utc_reopen_ok :: bool

definition append_file :: "string option \<Rightarrow> u8 list \<Rightarrow> filesystem \<Rightarrow> filesystem" where
  "append_file file bytes fs =
     (case file of
        None \<Rightarrow> fs
      | Some path \<Rightarrow>
          (case fs path of Some (Regular_File old) \<Rightarrow> fs(path \<mapsto> Regular_File (old @ bytes)) | _ \<Rightarrow> fs))"

text \<open>The companion part: the UTC of the first \<open>complete\<close> samples, closing on any failure.\<close>

definition write_companion :: "write_env \<Rightarrow> queued_sample list \<Rightarrow> nat \<Rightarrow> 'q logger \<Rightarrow> 'q logger" where
  "write_companion env samples complete lg =
     (if utc_file lg = None then lg
      else
        let utc_written = min (utc_accepted env) (8 * complete);
            lg = lg\<lparr>sd_card := append_file (utc_file lg)
                   (take utc_written (companion (take complete samples))) (sd_card lg)\<rparr>
        in if utc_written div 8 \<noteq> complete \<or> \<not> utc_flush_ok env then lg\<lparr>utc_file := None\<rparr> else lg)"

definition write_records :: "write_env \<Rightarrow> queued_sample list \<Rightarrow> 'q logger \<Rightarrow> bool \<times> 'q logger" where
  "write_records env samples lg =
     (if \<not> write_mutex env then (False, lg)
      else
        let bytes = 16 * length samples;
            written = (if log_file lg = None then 0 else min (log_accepted env) bytes);
            lg = lg\<lparr>sd_card := append_file (log_file lg) (take written (recording samples)) (sd_card lg)\<rparr>;
            lg = write_companion env samples (written div 16) lg;
            lg = (if written \<noteq> bytes \<and> utc_file lg \<noteq> None then lg\<lparr>utc_file := None\<rparr> else lg)
        in (written = bytes, lg))"

text \<open>\<open>fopen(path, "ab")\<close>, which creates a missing file.\<close>

definition reopen_append :: "bool \<Rightarrow> string \<Rightarrow> filesystem \<Rightarrow> string option \<times> filesystem" where
  "reopen_append ok path fs =
     (if \<not> ok then (None, fs)
      else (Some path, if path \<in> dom fs then fs else fs(path \<mapsto> Regular_File [])))"

definition checkpoint_file :: "checkpoint_env \<Rightarrow> 'q logger \<Rightarrow> bool \<times> 'q logger" where
  "checkpoint_file env lg =
     (if \<not> checkpoint_mutex env then (False, lg)
      else
        let (file, fs) = reopen_append (log_reopen_ok env) (log_path lg) (sd_card lg);
            lg = lg\<lparr>log_file := file, sd_card := fs\<rparr>;
            lg = (if utc_file lg = None then lg
                  else let (file, fs) = reopen_append (utc_reopen_ok env) (utc_path lg) (sd_card lg)
                       in lg\<lparr>utc_file := file, sd_card := fs\<rparr>)
        in (log_file lg \<noteq> None, lg))"

text \<open>The four phases of a round of \<open>writer_task\<close>.\<close>

definition writer_receive :: "('q, queued_sample) queue_api \<Rightarrow> write_env \<Rightarrow> 'q logger \<Rightarrow> 'q logger" where
  "writer_receive Q env lg =
     (case xQueueReceive Q (log_queue lg) of
        None \<Rightarrow> lg
      | Some (sample, q) \<Rightarrow>
          let lg = lg\<lparr>log_queue := q, block := block lg @ [sample]\<rparr>
          in if length (block lg) = LOG_RECORDS_PER_BLOCK
             then (snd (write_records env (block lg) lg))\<lparr>block := []\<rparr>
             else lg)"

definition writer_checkpoint ::
  "(nat \<Rightarrow> u32) \<Rightarrow> u32 \<Rightarrow> write_env \<Rightarrow> checkpoint_env \<Rightarrow> 'q logger \<Rightarrow> 'q logger" where
  "writer_checkpoint pd now env cenv lg =
     (if lg_state lg = LOGGER_RUNNING \<and> now - last_checkpoint lg \<ge> pd LOG_FLUSH_INTERVAL_MS
      then
        let (written, lg) = (if block lg = [] then (True, lg) else write_records env (block lg) lg);
            lg = (if written then snd (checkpoint_file cenv (lg\<lparr>block := []\<rparr>)) else lg)
        in lg\<lparr>last_checkpoint := now\<rparr>
      else lg)"

text \<open>\<open>close_mutex\<close> is the result of taking the mutex for closing the files.\<close>

definition writer_finish ::
  "('q, queued_sample) queue_api \<Rightarrow> write_env \<Rightarrow> bool \<Rightarrow> 'q logger \<Rightarrow> 'q logger" where
  "writer_finish Q env close_mutex lg =
     (if lg_state lg = LOGGER_STOPPING \<and> uxQueueMessagesWaiting Q (log_queue lg) = 0
      then
        let lg = (if block lg \<noteq> [] then (snd (write_records env (block lg) lg))\<lparr>block := []\<rparr> else lg);
            lg = (if close_mutex then lg\<lparr>log_file := None, utc_file := None\<rparr> else lg)
        in lg\<lparr>lg_state := LOGGER_IDLE\<rparr>
      else lg)"

definition writer_idle :: "u32 \<Rightarrow> 'q logger \<Rightarrow> 'q logger" where
  "writer_idle now lg = (if lg_state lg = LOGGER_IDLE then lg\<lparr>last_checkpoint := now\<rparr> else lg)"

record round_env =
  block_env :: write_env
  flush_env :: write_env
  final_env :: write_env
  reopen_env :: checkpoint_env
  close_mutex :: bool
  round_now :: u32

definition writer_round ::
  "('q, queued_sample) queue_api \<Rightarrow> (nat \<Rightarrow> u32) \<Rightarrow> round_env \<Rightarrow> 'q logger \<Rightarrow> 'q logger" where
  "writer_round Q pd env lg =
     (let lg = writer_receive Q (block_env env) lg;
          lg = writer_checkpoint pd (round_now env) (flush_env env) (reopen_env env) lg;
          lg = writer_finish Q (final_env env) (close_mutex env) lg
      in writer_idle (round_now env) lg)"

subsection \<open>Frame conditions\<close>

lemma write_companion_frame [simp]:
  "log_queue (write_companion env ss k lg) = log_queue lg"
  "lg_state (write_companion env ss k lg) = lg_state lg"
  "block (write_companion env ss k lg) = block lg"
  "log_file (write_companion env ss k lg) = log_file lg"
  "log_path (write_companion env ss k lg) = log_path lg"
  "utc_path (write_companion env ss k lg) = utc_path lg"
  "queue_drops (write_companion env ss k lg) = queue_drops lg"
  "last_checkpoint (write_companion env ss k lg) = last_checkpoint lg"
  by (simp_all add: write_companion_def Let_def)

lemma write_records_frame [simp]:
  "log_queue (snd (write_records env ss lg)) = log_queue lg"
  "lg_state (snd (write_records env ss lg)) = lg_state lg"
  "block (snd (write_records env ss lg)) = block lg"
  "log_file (snd (write_records env ss lg)) = log_file lg"
  "log_path (snd (write_records env ss lg)) = log_path lg"
  "utc_path (snd (write_records env ss lg)) = utc_path lg"
  "queue_drops (snd (write_records env ss lg)) = queue_drops lg"
  "last_checkpoint (snd (write_records env ss lg)) = last_checkpoint lg"
  by (simp_all add: write_records_def Let_def)

lemma checkpoint_file_frame [simp]:
  "log_queue (snd (checkpoint_file env lg)) = log_queue lg"
  "lg_state (snd (checkpoint_file env lg)) = lg_state lg"
  "block (snd (checkpoint_file env lg)) = block lg"
  "log_path (snd (checkpoint_file env lg)) = log_path lg"
  "utc_path (snd (checkpoint_file env lg)) = utc_path lg"
  "queue_drops (snd (checkpoint_file env lg)) = queue_drops lg"
  by (simp_all add: checkpoint_file_def Let_def split_beta)

subsection \<open>A session: interleavings of everything that can happen\<close>

text \<open>
  \<open>Late_Send\<close> is the second half of an enqueue whose state check was made earlier.  A run of a
  session ends when the logger is idle again.
\<close>

datatype log_event =
    Enqueue can_message int
  | Late_Send queued_sample
  | Receive write_env
  | Checkpoint u32 write_env checkpoint_env
  | Finish write_env bool
  | Stop
  | Rename rename_env string string

fun log_step :: "('q, queued_sample) queue_api \<Rightarrow> (nat \<Rightarrow> u32) \<Rightarrow> log_event \<Rightarrow> 'q logger \<Rightarrow> 'q logger" where
  "log_step Q pd (Enqueue m utc) lg = data_logger_enqueue Q (\<lambda>_. utc) m lg"
| "log_step Q pd (Late_Send s) lg = enqueue_send Q s lg"
| "log_step Q pd (Receive env) lg = writer_receive Q env lg"
| "log_step Q pd (Checkpoint now env cenv) lg = writer_checkpoint pd now env cenv lg"
| "log_step Q pd (Finish env closing) lg = writer_finish Q env closing lg"
| "log_step Q pd Stop lg = snd (data_logger_stop lg)"
| "log_step Q pd (Rename env m n) lg = snd (data_logger_rename env (Some m) (Some n) lg)"

fun log_run :: "('q, queued_sample) queue_api \<Rightarrow> (nat \<Rightarrow> u32) \<Rightarrow> log_event list \<Rightarrow> 'q logger \<Rightarrow> 'q logger" where
  "log_run Q pd [] lg = lg"
| "log_run Q pd (e # es) lg =
     (if lg_state lg = LOGGER_IDLE then lg else log_run Q pd es (log_step Q pd e lg))"

text \<open>The samples an event offers to the queue, and those a run accepts.\<close>

fun offered :: "log_event \<Rightarrow> 'q logger \<Rightarrow> queued_sample option" where
  "offered (Enqueue m utc) lg = enqueue_check (\<lambda>_. utc) m lg"
| "offered (Late_Send s) lg = Some s"
| "offered _ lg = None"

definition accepted :: "('q, queued_sample) queue_api \<Rightarrow> log_event \<Rightarrow> 'q logger \<Rightarrow> queued_sample list" where
  "accepted Q e lg =
     (case offered e lg of
        None \<Rightarrow> []
      | Some s \<Rightarrow> (case xQueueSend Q (log_queue lg) s of None \<Rightarrow> [] | Some q \<Rightarrow> [s]))"

fun accepted_run ::
  "('q, queued_sample) queue_api \<Rightarrow> (nat \<Rightarrow> u32) \<Rightarrow> log_event list \<Rightarrow> 'q logger \<Rightarrow> queued_sample list" where
  "accepted_run Q pd [] lg = []"
| "accepted_run Q pd (e # es) lg =
     (if lg_state lg = LOGGER_IDLE then []
      else accepted Q e lg @ accepted_run Q pd es (log_step Q pd e lg))"

text \<open>The structural invariant of a session.\<close>

definition session :: "'q logger \<Rightarrow> bool" where
  "session lg \<longleftrightarrow> bin_path (log_path lg) \<and> utc_path lg = log_path lg @ ''.utc'' \<and>
     (log_file lg = None \<or> log_file lg = Some (log_path lg)) \<and>
     (utc_file lg = None \<or> utc_file lg = Some (utc_path lg))"

text \<open>The files of the session hold \<open>b\<close> and \<open>u\<close>.\<close>

definition contents :: "'q logger \<Rightarrow> u8 list \<Rightarrow> u8 list \<Rightarrow> bool" where
  "contents lg b u \<longleftrightarrow> sd_card lg (log_path lg) = Some (Regular_File b) \<and>
     sd_card lg (utc_path lg) = Some (Regular_File u)"

lemma session_paths: "session lg \<Longrightarrow> log_path lg \<noteq> utc_path lg"
  by (simp add: session_def)

text \<open>What a write appends, with \<open>n\<close> the bytes of records it accepted.\<close>

definition write_taken :: "write_env \<Rightarrow> queued_sample list \<Rightarrow> 'q logger \<Rightarrow> nat" where
  "write_taken env ss lg = (if log_file lg = None then 0 else min (log_accepted env) (16 * length ss))"

lemma append_file_eq:
  "fs path = Some (Regular_File old) \<Longrightarrow>
   append_file (Some path) bytes fs = fs(path \<mapsto> Regular_File (old @ bytes))"
  by (simp add: append_file_def)

lemma contents_append_log:
  assumes "contents lg b u" and "log_path lg \<noteq> utc_path lg"
    and "log_file lg = None \<and> bytes = [] \<or> log_file lg = Some (log_path lg)"
  shows "contents (lg\<lparr>sd_card := append_file (log_file lg) bytes (sd_card lg)\<rparr>) (b @ bytes) u"
  using assms by (auto simp: contents_def append_file_def)

lemma contents_write_companion:
  fixes ss :: "queued_sample list"
  assumes "contents lg b u" and "log_path lg \<noteq> utc_path lg"
    and "utc_file lg = None \<or> utc_file lg = Some (utc_path lg)"
  shows "contents (write_companion env ss n lg) b
    (if utc_file lg = None then u else u @ take (min (utc_accepted env) (8 * n)) (companion (take n ss)))"
proof (cases "utc_file lg")
  case None
  then show ?thesis using assms(1) by (simp add: write_companion_def)
next
  case (Some p)
  then have "utc_file lg = Some (utc_path lg)" using assms(3) by auto
  then show ?thesis using assms(1,2)
    by (simp add: write_companion_def contents_def append_file_eq Let_def)
qed

lemma contents_close_utc [simp]: "contents (lg\<lparr>utc_file := f\<rparr>) b u = contents lg b u"
  by (simp add: contents_def)

lemma contents_close_if:
  "contents (if c then lg\<lparr>utc_file := f\<rparr> else lg) b u = contents lg b u"
  by simp

lemma close_if_file:
  "utc_file (if c \<and> utc_file lg \<noteq> None then lg\<lparr>utc_file := None\<rparr> else lg) =
     (if c then None else utc_file lg)"
  by simp

lemma write_companion_file:
  "utc_file (write_companion env ss n lg) =
     (if min (utc_accepted env) (8 * n) div 8 = n \<and> utc_flush_ok env then utc_file lg else None)"
  by (simp add: write_companion_def Let_def)

lemma write_records_eq:
  fixes ss :: "queued_sample list" and lg :: "'q logger"
  assumes "write_mutex env"
  defines "n \<equiv> write_taken env ss lg"
  shows "fst (write_records env ss lg) \<longleftrightarrow> n = 16 * length ss"
    and "snd (write_records env ss lg) =
      (let lg' = write_companion env ss (n div 16)
          (lg\<lparr>sd_card := append_file (log_file lg) (take n (recording ss)) (sd_card lg)\<rparr>)
       in if n \<noteq> 16 * length ss \<and> utc_file lg' \<noteq> None then lg'\<lparr>utc_file := None\<rparr> else lg')"
  using assms(1) by (simp_all add: write_records_def write_taken_def n_def Let_def)

lemma write_records_contents:
  fixes ss :: "queued_sample list"
  assumes "session lg" and "contents lg b u" and "write_mutex env"
  defines "n \<equiv> write_taken env ss lg" and "k \<equiv> min (utc_accepted env) (8 * (write_taken env ss lg div 16))"
  shows "contents (snd (write_records env ss lg)) (b @ take n (recording ss))
      (if utc_file lg = None then u else u @ take k (companion (take (n div 16) ss)))"
    and "fst (write_records env ss lg) \<longleftrightarrow> n = 16 * length ss"
    and "utc_file (snd (write_records env ss lg)) =
      (if k div 8 = n div 16 \<and> utc_flush_ok env \<and> n = 16 * length ss then utc_file lg else None)"
proof -
  let ?lg = "lg\<lparr>sd_card := append_file (log_file lg) (take n (recording ss)) (sd_card lg)\<rparr>"
  have keep: "utc_file ?lg = utc_file lg" by simp
  have p: "log_path lg \<noteq> utc_path lg" using assms(1) by (rule session_paths)
  have "log_file lg = None \<and> take n (recording ss) = [] \<or> log_file lg = Some (log_path lg)"
    using assms(1) by (auto simp: session_def n_def write_taken_def)
  from contents_append_log [OF assms(2) p this]
  have c: "contents ?lg (b @ take n (recording ss)) u" .
  have f: "utc_file ?lg = None \<or> utc_file ?lg = Some (utc_path ?lg)"
    using assms(1) by (auto simp: session_def)
  have "log_path ?lg \<noteq> utc_path ?lg" using p by simp
  from contents_write_companion [OF c this f, of env ss "n div 16"]
  show "contents (snd (write_records env ss lg)) (b @ take n (recording ss))
      (if utc_file lg = None then u else u @ take k (companion (take (n div 16) ss)))"
    unfolding write_records_eq(2) [OF assms(3), of ss lg, folded n_def] Let_def k_def [folded n_def]
    by (simp only: contents_close_if) simp
  show "fst (write_records env ss lg) \<longleftrightarrow> n = 16 * length ss"
    unfolding n_def by (rule write_records_eq [OF assms(3)])
  show "utc_file (snd (write_records env ss lg)) =
      (if k div 8 = n div 16 \<and> utc_flush_ok env \<and> n = 16 * length ss then utc_file lg else None)"
    unfolding write_records_eq(2) [OF assms(3), of ss lg, folded n_def] Let_def k_def [folded n_def]
      close_if_file
    unfolding write_companion_file using keep
    by (cases "n = 16 * length ss") (simp_all only: simp_thms if_True if_False)
qed

lemma write_records_no_mutex: "\<not> write_mutex env \<Longrightarrow> write_records env ss lg = (False, lg)"
  by (simp add: write_records_def)

lemma write_records_utc_file:
  "utc_file (snd (write_records env ss lg)) = None \<or> utc_file (snd (write_records env ss lg)) = utc_file lg"
  by (cases "write_mutex env")
    (simp_all add: write_records_no_mutex write_records_eq(2) Let_def write_companion_file)

lemma session_write_records [inv_intros]: "session lg \<Longrightarrow> session (snd (write_records env ss lg))"
  using write_records_utc_file [of env ss lg] by (auto simp: session_def)

subsection \<open>The companion stays aligned\<close>

text \<open>
  \<open>S\<close> are the samples whose records stand at the start of the recording; while the companion is
  open both files hold exactly \<open>S\<close>.
\<close>

definition aligned :: "queued_sample list \<Rightarrow> 'q logger \<Rightarrow> bool" where
  "aligned S lg \<longleftrightarrow> (\<exists>b u. contents lg b u \<and> prefix (recording S) b \<and> prefix u (companion S) \<and>
     (utc_file lg \<noteq> None \<longrightarrow> b = recording S \<and> u = companion S))"

lemma aligned_write:
  fixes ss :: "queued_sample list" and env :: write_env
  assumes "session lg" and "aligned S lg"
  defines "S' \<equiv> (if write_mutex env \<and> utc_file lg \<noteq> None then S @ take (write_taken env ss lg div 16) ss else S)"
  shows "aligned S' (snd (write_records env ss lg))"
    and "fst (write_records env ss lg) \<or> \<not> write_mutex env \<or> utc_file (snd (write_records env ss lg)) = None"
    and "utc_file lg \<noteq> None \<Longrightarrow> fst (write_records env ss lg) \<Longrightarrow> S' = S @ ss"
proof -
  obtain b u where c: "contents lg b u" and pb: "prefix (recording S) b" and pu: "prefix u (companion S)"
    and eq: "utc_file lg \<noteq> None \<longrightarrow> b = recording S \<and> u = companion S"
    using assms(2) by (auto simp: aligned_def)
  let ?n = "write_taken env ss lg" and ?k = "min (utc_accepted env) (8 * (write_taken env ss lg div 16))"
  let ?lg = "snd (write_records env ss lg)"
  note w = write_records_contents [OF assms(1) c, of env ss]
  have le: "?n \<le> 16 * length ss" by (simp add: write_taken_def)
  have split: "take ?n (recording ss) = recording (take (?n div 16) ss) @ drop (16 * (?n div 16)) (take ?n (recording ss))"
  proof -
    have "16 * (?n div 16) \<le> ?n" by simp
    then have "take (16 * (?n div 16)) (take ?n (recording ss)) = recording (take (?n div 16) ss)"
      by (simp only: take_take min_absorb1 take_recording)
    then show ?thesis using append_take_drop_id [of "16 * (?n div 16)" "take ?n (recording ss)"] by simp
  qed
  have full: "16 * length ss = ?n \<Longrightarrow> take (?n div 16) ss = ss" by simp
  show "aligned S' ?lg"
  proof (cases "write_mutex env")
    case False
    then show ?thesis using assms(2) by (simp add: write_records_no_mutex S'_def)
  next
    case m: True
    show ?thesis
    proof (cases "utc_file lg = None")
      case True
      then have "utc_file ?lg = None" and "contents ?lg (b @ take ?n (recording ss)) u" using w m by auto
      moreover have "prefix (recording S) (b @ take ?n (recording ss))" using pb by (rule prefix_prefix)
      ultimately show ?thesis using pu True unfolding aligned_def S'_def by auto
    next
      case False
      let ?b = "b @ take ?n (recording ss)" and ?u = "u @ take ?k (companion (take (?n div 16) ss))"
      have c': "contents ?lg ?b ?u" using w(1) m False by simp
      have S': "S' = S @ take (?n div 16) ss" using m False by (simp add: S'_def)
      have b': "prefix (recording S') ?b"
        using eq False split unfolding S' recording_simps by (metis append.assoc prefixI)
      have u': "prefix ?u (companion S')"
        using eq False unfolding S' companion_simps by (simp add: take_is_prefix)
      have "?b = recording S' \<and> ?u = companion S'" if "utc_file ?lg \<noteq> None"
      proof -
        have "?k div 8 = ?n div 16 \<and> utc_flush_ok env \<and> ?n = 16 * length ss"
          using that unfolding w(3) [OF m] by (meson)
        then have k: "?k div 8 = ?n div 16" and n: "?n = 16 * length ss" by blast+
        have "8 * (?k div 8) \<le> ?k" by (rule times_div_less_eq_dividend)
        then have "8 * (?n div 16) \<le> ?k" unfolding k .
        then have "take ?k (companion (take (?n div 16) ss)) = companion (take (?n div 16) ss)"
          using n by (intro take_all) simp
        then show ?thesis using eq False full n unfolding S' by simp
      qed
      then show ?thesis using c' b' u' unfolding aligned_def by blast
    qed
  qed
  show "fst (write_records env ss lg) \<or> \<not> write_mutex env \<or> utc_file ?lg = None"
    using w(2,3) by auto
  show "S' = S @ ss" if "utc_file lg \<noteq> None" "fst (write_records env ss lg)"
    using that w(2) full by (cases "write_mutex env") (auto simp: S'_def write_records_no_mutex)
qed

subsection \<open>Steps keep the session and the alignment\<close>

lemma session_other [simp]:
  "session (lg\<lparr>sd_card := fs\<rparr>) = session lg"
  "session (lg\<lparr>log_queue := q\<rparr>) = session lg"
  "session (lg\<lparr>queue_drops := d\<rparr>) = session lg"
  "session (lg\<lparr>last_checkpoint := t\<rparr>) = session lg"
  "session (lg\<lparr>lg_state := s\<rparr>) = session lg"
  "session (lg\<lparr>block := bl\<rparr>) = session lg"
  by (simp_all add: session_def)

lemma session_closed: "session lg \<Longrightarrow> session (lg\<lparr>log_file := None, utc_file := None\<rparr>)"
  by (simp add: session_def)

lemma aligned_other [simp]:
  "aligned S (lg\<lparr>log_queue := q\<rparr>) = aligned S lg"
  "aligned S (lg\<lparr>queue_drops := d\<rparr>) = aligned S lg"
  "aligned S (lg\<lparr>last_checkpoint := t\<rparr>) = aligned S lg"
  "aligned S (lg\<lparr>lg_state := s\<rparr>) = aligned S lg"
  "aligned S (lg\<lparr>block := bl\<rparr>) = aligned S lg"
  by (simp_all add: aligned_def contents_def)

lemma aligned_closed: "aligned S lg \<Longrightarrow> aligned S (lg\<lparr>log_file := None, utc_file := None\<rparr>)"
  by (auto simp: aligned_def contents_def)

text \<open>
  \<open>invar acc S lg\<close>: the session invariant with \<open>S\<close> the records on the card and \<open>acc\<close> the samples
  accepted so far; \<open>waiting\<close> are the samples still in the block and the queue.
\<close>

definition invar :: "('q \<Rightarrow> queued_sample list) \<Rightarrow> queued_sample list \<Rightarrow> queued_sample list \<Rightarrow> 'q logger \<Rightarrow> bool" where
  "invar items acc S lg \<longleftrightarrow> session lg \<and> aligned S lg \<and> length (block lg) < LOG_RECORDS_PER_BLOCK \<and>
     subseq S acc \<and> (utc_file lg \<noteq> None \<longrightarrow> subseq (S @ block lg @ items (log_queue lg)) acc) \<and>
     subseq (block lg @ items (log_queue lg)) acc"

lemma subseq_dropped:
  assumes "subseq (a @ b @ c) d"
  shows "subseq (a @ c) d"
proof -
  have "subseq c (b @ c)" by (intro list_emb_append2 subseq_order.refl)
  then have "subseq (a @ c) (a @ b @ c)" by (intro list_emb_append_mono subseq_order.refl)
  then show ?thesis using assms by (rule subseq_order.order_trans)
qed

lemma subseq_front: "subseq (a @ b) c \<Longrightarrow> subseq a c"
  using subseq_order.order_trans [of a "a @ b" c] by (simp add: list_emb_prefix)

lemma subseq_rear:
  assumes "subseq (a @ b) c"
  shows "subseq b c"
proof -
  have "subseq b (a @ b)" by (intro list_emb_append2 subseq_order.refl)
  then show ?thesis using assms by (rule subseq_order.order_trans)
qed

text \<open>Writing the whole block and emptying it.\<close>

lemma invar_flush:
  assumes "session lg" and "aligned S lg" and "block lg = ss"
    and "subseq S acc" and "utc_file lg \<noteq> None \<longrightarrow> subseq (S @ ss @ items (log_queue lg)) acc"
    and "subseq (ss @ items (log_queue lg)) acc"
  shows "\<exists>S'. invar items acc S' ((snd (write_records env ss lg))\<lparr>block := []\<rparr>)"
proof -
  let ?lg = "snd (write_records env ss lg)"
  let ?S = "if write_mutex env \<and> utc_file lg \<noteq> None then S @ take (write_taken env ss lg div 16) ss else S"
  note w = aligned_write [OF assms(1,2), of env ss]
  have s: "session (?lg\<lparr>block := []\<rparr>)" "length (block (?lg\<lparr>block := []\<rparr>)) < LOG_RECORDS_PER_BLOCK"
    using session_write_records [OF assms(1)] by (simp_all add: LOG_RECORDS_PER_BLOCK_def)
  have q: "subseq (items (log_queue lg)) acc" using assms(6) by (rule subseq_rear)
  have part: "subseq (S @ take k ss) acc" if "utc_file lg \<noteq> None" for k
  proof -
    have eq: "S @ ss @ items (log_queue lg) = (S @ take k ss) @ drop k ss @ items (log_queue lg)" by simp
    have "subseq (S @ ss @ items (log_queue lg)) acc" using assms(5) that by blast
    then show ?thesis unfolding eq by (rule subseq_front)
  qed
  have S: "subseq ?S acc" using assms(4) part by auto
  show ?thesis
  proof (cases "utc_file ?lg = None")
    case True
    then have "invar items acc ?S (?lg\<lparr>block := []\<rparr>)" using s w(1) q S True by (simp add: invar_def)
    then show ?thesis by blast
  next
    case False
    have open_utc: "utc_file lg \<noteq> None" using False write_records_utc_file [of env ss lg] by auto
    have kept: "subseq (?S @ items (log_queue lg)) acc"
    proof (cases "write_mutex env")
      case True
      then have "?S = S @ ss" using w(2,3) False open_utc by auto
      then show ?thesis using assms(5) open_utc by simp
    next
      case False
      then show ?thesis using subseq_dropped assms(5) open_utc by auto
    qed
    then have "invar items acc ?S (?lg\<lparr>block := []\<rparr>)" using s w(1) q S False by (simp add: invar_def)
    then show ?thesis by blast
  qed
qed

lemma invar_receive:
  assumes "rtos_queue Q cap items" and "invar items acc S lg"
  shows "\<exists>S'. invar items acc S' (writer_receive Q env lg)"
proof (cases "xQueueReceive Q (log_queue lg)")
  case None
  then show ?thesis using assms(2) by (auto simp: writer_receive_def)
next
  case (Some r)
  obtain s q where r: "xQueueReceive Q (log_queue lg) = Some (s, q)" using Some by (cases r) auto
  then have it: "items (log_queue lg) = s # items q" by (rule rtos_queue.receiveD [OF assms(1)])
  let ?lg = "lg\<lparr>log_queue := q, block := block lg @ [s]\<rparr>"
  have inv: "session lg" "aligned S lg" using assms(2) by (auto simp: invar_def)
  have sub: "subseq S acc" "utc_file lg \<noteq> None \<longrightarrow> subseq (S @ (block lg @ [s]) @ items q) acc"
      "subseq ((block lg @ [s]) @ items q) acc"
    using assms(2) it by (simp_all add: invar_def)
  show ?thesis
  proof (cases "length (block ?lg) = LOG_RECORDS_PER_BLOCK")
    case False
    then have "length (block ?lg) < LOG_RECORDS_PER_BLOCK" using assms(2) by (simp add: invar_def)
    then have "invar items acc S ?lg" using inv sub by (simp add: invar_def)
    then show ?thesis using False r by (auto simp: writer_receive_def Let_def)
  next
    case True
    have "\<exists>S'. invar items acc S' ((snd (write_records env (block ?lg) ?lg))\<lparr>block := []\<rparr>)"
      using inv sub by (intro invar_flush) simp_all
    then show ?thesis using True r by (simp add: writer_receive_def Let_def)
  qed
qed

text \<open>While both files exist, a checkpoint changes only the open streams.\<close>

lemma checkpoint_file_effect:
  assumes "contents lg b u"
  shows "checkpoint_file env lg =
    (if checkpoint_mutex env
     then (log_reopen_ok env, lg\<lparr>log_file := (if log_reopen_ok env then Some (log_path lg) else None),
        utc_file := (if utc_file lg \<noteq> None \<and> utc_reopen_ok env then Some (utc_path lg) else None)\<rparr>)
     else (False, lg))"
proof -
  have "reopen_append ok (log_path lg) (sd_card lg) = (if ok then Some (log_path lg) else None, sd_card lg)"
    and "reopen_append ok (utc_path lg) (sd_card lg) = (if ok then Some (utc_path lg) else None, sd_card lg)" for ok
    using assms by (auto simp: reopen_append_def contents_def)
  then show ?thesis by (cases lg) (auto simp: checkpoint_file_def Let_def)
qed

lemma invar_checkpoint_file:
  assumes "invar items acc S lg"
  shows "invar items acc S (snd (checkpoint_file env lg))"
proof -
  obtain b u where c: "contents lg b u" using assms by (auto simp: invar_def aligned_def)
  show ?thesis using assms
    by (auto simp: checkpoint_file_effect [OF c] invar_def session_def aligned_def contents_def)
qed

lemma invar_checkpoint:
  assumes "invar items acc S lg"
  shows "\<exists>S'. invar items acc S' (writer_checkpoint pd now env cenv lg)"
proof (cases "lg_state lg = LOGGER_RUNNING \<and> now - last_checkpoint lg \<ge> pd LOG_FLUSH_INTERVAL_MS")
  case False
  then show ?thesis using assms by (auto simp: writer_checkpoint_def)
next
  case True
  have last: "invar items acc S' (lg'\<lparr>last_checkpoint := t\<rparr>) = invar items acc S' lg'" for S' lg' t
    by (simp add: invar_def)
  show ?thesis
  proof (cases "block lg = []")
    case b: True
    then have same: "lg\<lparr>block := []\<rparr> = lg" by simp
    have "writer_checkpoint pd now env cenv lg = (snd (checkpoint_file cenv lg))\<lparr>last_checkpoint := now\<rparr>"
      using True b by (simp add: writer_checkpoint_def same)
    then show ?thesis using invar_checkpoint_file [OF assms] last by auto
  next
    case b: False
    let ?w = "write_records env (block lg) lg"
    have "\<exists>S'. invar items acc S' ((snd ?w)\<lparr>block := []\<rparr>)"
      using assms by (intro invar_flush) (auto simp: invar_def)
    then obtain S' where S': "invar items acc S' ((snd ?w)\<lparr>block := []\<rparr>)" by blast
    show ?thesis
    proof (cases "fst ?w")
      case w: True
      have "writer_checkpoint pd now env cenv lg =
          (snd (checkpoint_file cenv ((snd ?w)\<lparr>block := []\<rparr>)))\<lparr>last_checkpoint := now\<rparr>"
        using True b w by (simp add: writer_checkpoint_def split_beta Let_def)
      then show ?thesis using invar_checkpoint_file [OF S'] last by auto
    next
      case w: False
      have eq: "writer_checkpoint pd now env cenv lg = (snd ?w)\<lparr>last_checkpoint := now\<rparr>"
        using True b w by (simp add: writer_checkpoint_def split_beta Let_def)
      show ?thesis
      proof (cases "write_mutex env")
        case False
        then show ?thesis using assms last eq by (auto simp: write_records_no_mutex)
      next
        case m: True
        have none: "utc_file (snd ?w) = None"
          using assms w m aligned_write(2) [of lg S env "block lg"] by (auto simp: invar_def)
        have "subseq S' acc" using S' by (simp add: invar_def)
        moreover have "session (snd ?w)" and "aligned S' (snd ?w)" using S' by (simp_all add: invar_def)
        ultimately have "invar items acc S' (snd ?w)" using assms none by (simp add: invar_def)
        then show ?thesis using eq last by auto
      qed
    qed
  qed
qed

lemma invar_finish:
  assumes "invar items acc S lg"
  shows "\<exists>S'. invar items acc S' (writer_finish Q env closing lg)"
proof (cases "lg_state lg = LOGGER_STOPPING \<and> uxQueueMessagesWaiting Q (log_queue lg) = 0")
  case False
  then show ?thesis using assms by (auto simp: writer_finish_def)
next
  case True
  let ?lg = "if block lg \<noteq> [] then (snd (write_records env (block lg) lg))\<lparr>block := []\<rparr> else lg"
  obtain S' where S': "invar items acc S' ?lg"
  proof (cases "block lg = []")
    case b: True
    then show ?thesis using that [of S] assms by simp
  next
    case b: False
    have "\<exists>S'. invar items acc S' ((snd (write_records env (block lg) lg))\<lparr>block := []\<rparr>)"
      using assms by (intro invar_flush) (auto simp: invar_def)
    then show ?thesis using that b by auto
  qed
  have "invar items acc S' (?lg\<lparr>log_file := None, utc_file := None\<rparr>)"
    using S' session_closed [of ?lg] aligned_closed [of S' ?lg] by (simp add: invar_def)
  moreover have "invar items acc S' (lg'\<lparr>lg_state := LOGGER_IDLE\<rparr>) = invar items acc S' lg'" for lg'
    by (simp add: invar_def)
  ultimately have "invar items acc S' (writer_finish Q env closing lg)"
    using True S' by (simp add: writer_finish_def Let_def split del: if_split) (simp split: if_split)
  then show ?thesis by blast
qed

lemma invar_more: "invar items acc S lg \<Longrightarrow> invar items (acc @ xs) S lg"
  by (auto simp: invar_def)

lemma invar_enqueue_send:
  assumes "rtos_queue Q cap items" and "invar items acc S lg"
  shows "invar items (acc @ (case xQueueSend Q (log_queue lg) s of None \<Rightarrow> [] | Some q \<Rightarrow> [s])) S (enqueue_send Q s lg)"
proof (cases "xQueueSend Q (log_queue lg) s")
  case None
  then show ?thesis using assms(2) by (simp add: enqueue_send_def invar_def)
next
  case (Some q)
  then have "items q = items (log_queue lg) @ [s]" using rtos_queue.sendD [OF assms(1)] by blast
  moreover have "subseq (a @ [s]) (acc @ [s])" if "subseq a acc" for a
    using that by (intro list_emb_append_mono subseq_order.refl)
  ultimately show ?thesis using assms(2) Some
    by (auto simp: enqueue_send_def invar_def list_emb_prefix simp flip: append_assoc)
qed

lemma invar_rename:
  assumes "invar items acc S lg" and "lg_state lg \<noteq> LOGGER_IDLE"
  shows "invar items acc S (snd (data_logger_rename env (Some m) (Some n) lg))"
proof -
  have bp: "bin_path (log_path lg)" and up: "utc_path lg = log_path lg @ ''.utc''"
    using assms(1) by (auto simp: invar_def session_def)
  obtain fs where r: "snd (data_logger_rename env (Some m) (Some n) lg) = lg\<lparr>sd_card := fs\<rparr>"
    and fs: "fs (log_path lg) = sd_card lg (log_path lg)" "fs (log_path lg @ ''.utc'') = sd_card lg (log_path lg @ ''.utc'')"
    using rename_in_session [OF assms(2) bp, of env m n] by blast
  show ?thesis unfolding r using assms(1) fs up by (simp add: invar_def aligned_def contents_def)
qed

lemma invar_step:
  assumes "rtos_queue Q cap items" and "invar items acc S lg" and "lg_state lg \<noteq> LOGGER_IDLE"
  shows "\<exists>S'. invar items (acc @ accepted Q e lg) S' (log_step Q pd e lg)"
proof (cases e)
  case (Enqueue m utc)
  show ?thesis
  proof (cases "enqueue_check (\<lambda>_. utc) m lg")
    case None
    then show ?thesis using assms(2) Enqueue by (auto simp: accepted_def data_logger_enqueue_def)
  next
    case (Some s)
    then show ?thesis using invar_enqueue_send [OF assms(1,2), of s] Enqueue
      by (auto simp: accepted_def data_logger_enqueue_def)
  qed
next
  case (Late_Send s)
  then show ?thesis using invar_enqueue_send [OF assms(1,2), of s] by (auto simp: accepted_def)
next
  case (Receive env)
  then show ?thesis using invar_receive [OF assms(1,2)] by (simp add: accepted_def)
next
  case (Checkpoint now env cenv)
  then show ?thesis using invar_checkpoint [OF assms(2)] by (simp add: accepted_def)
next
  case (Finish env closing)
  then show ?thesis using invar_finish [OF assms(2)] by (simp add: accepted_def)
next
  case Stop
  then have "invar items acc S (log_step Q pd e lg)"
    using assms(2) by (simp add: data_logger_stop_def invar_def)
  then show ?thesis using Stop by (auto simp: accepted_def)
next
  case (Rename env m n)
  then have "invar items acc S (log_step Q pd e lg)" using invar_rename [OF assms(2,3)] by simp
  then show ?thesis using Rename by (auto simp: accepted_def)
qed

lemma invar_run:
  assumes "rtos_queue Q cap items" and "invar items acc S lg"
  shows "\<exists>S'. invar items (acc @ accepted_run Q pd es lg) S' (log_run Q pd es lg)"
  using assms(2)
proof (induction es arbitrary: acc S lg)
  case (Cons e es)
  show ?case
  proof (cases "lg_state lg = LOGGER_IDLE")
    case False
    obtain S' where "invar items (acc @ accepted Q e lg) S' (log_step Q pd e lg)"
      using invar_step [OF assms(1) Cons.prems False] by blast
    from Cons.IH [OF this] show ?thesis using False by simp
  qed (use Cons.prems in auto)
qed auto

lemma run_paths:
  "invar items acc S lg \<Longrightarrow> rtos_queue Q cap items \<Longrightarrow>
   log_path (log_run Q pd es lg) = log_path lg"
proof (induction es arbitrary: acc S lg)
  case (Cons e es)
  show ?case
  proof (cases "lg_state lg = LOGGER_IDLE")
    case False
    obtain S' where S': "invar items (acc @ accepted Q e lg) S' (log_step Q pd e lg)"
      using invar_step [OF Cons.prems(2,1) False] by blast
    have "log_path (log_step Q pd e lg) = log_path lg"
    proof (cases e)
      case (Rename env m n)
      have "bin_path (log_path lg)" using Cons.prems(1) by (simp add: invar_def session_def)
      from rename_in_session [OF False this, of env m n] show ?thesis using Rename by auto
    qed (auto simp: data_logger_enqueue_def enqueue_send_def writer_receive_def writer_checkpoint_def
        writer_finish_def data_logger_stop_def Let_def split_beta split: option.splits)
    then show ?thesis using Cons.IH [OF S' Cons.prems(2)] False by simp
  qed simp
qed simp

lemma invar_start:
  assumes "rtos_queue Q cap items" and "start_at Q env path lg = (DATA_LOGGER_START_OK, lg')"
    and "bin_path path" and "block lg = []"
  shows "invar items [] [] lg' \<and> log_path lg' = path"
  using start_at_card [OF assms(2,3)] assms(1,3,4) rtos_queue.reset [OF assms(1)]
  by (auto simp: invar_def session_def aligned_def contents_def LOG_RECORDS_PER_BLOCK_def)


text \<open>A session just started on an empty card, for the witnesses.\<close>

definition fresh_session :: "queued_sample list logger" where
  "fresh_session = snd (start_at (list_queue LOG_QUEUE_LENGTH) smooth_start ''/sdcard/a.bin'' (logger_boot [] Map.empty))"

lemma fresh_session_start:
  "start_at (list_queue LOG_QUEUE_LENGTH) smooth_start ''/sdcard/a.bin'' (logger_boot [] Map.empty) =
     (DATA_LOGGER_START_OK, fresh_session)"
  "bin_path ''/sdcard/a.bin''" "block (logger_boot [] Map.empty) = []"
proof -
  show b: "bin_path ''/sdcard/a.bin''"
    unfolding bin_path_def LOG_PATH_LENGTH_def by (auto intro: exI [of _ "''a''"])
  show "start_at (list_queue LOG_QUEUE_LENGTH) smooth_start ''/sdcard/a.bin'' (logger_boot [] Map.empty) =
      (DATA_LOGGER_START_OK, fresh_session)"
    unfolding fresh_session_def by (rule prod_eqI)
      (simp_all add: start_at_def b logger_boot_def smooth_start_def open_excl_def Let_def del: snprintf_fits)
  show "block (logger_boot [] Map.empty) = []" by (simp add: logger_boot_def)
qed


subsection \<open>Without faults everything is recorded\<close>

text \<open>A write whose calls all succeed in full (a block has at most 1600 record bytes).\<close>

definition full_write :: "write_env \<Rightarrow> bool" where
  "full_write env \<longleftrightarrow> write_mutex env \<and> 1600 \<le> log_accepted env \<and> 800 \<le> utc_accepted env \<and> utc_flush_ok env"

fun fault_free :: "log_event \<Rightarrow> bool" where
  "fault_free (Receive env) = full_write env"
| "fault_free (Checkpoint now env cenv) =
     (full_write env \<and> checkpoint_mutex cenv \<and> log_reopen_ok cenv \<and> utc_reopen_ok cenv)"
| "fault_free (Finish env closing) = (full_write env \<and> closing)"
| "fault_free _ = True"

text \<open>Both files are open and hold exactly \<open>S\<close>.\<close>

definition holds :: "queued_sample list \<Rightarrow> 'q logger \<Rightarrow> bool" where
  "holds S lg \<longleftrightarrow> session lg \<and> contents lg (recording S) (companion S) \<and> log_file lg \<noteq> None \<and> utc_file lg \<noteq> None"

lemma holds_other [simp]:
  "holds S (lg\<lparr>log_queue := q\<rparr>) = holds S lg"
  "holds S (lg\<lparr>queue_drops := d\<rparr>) = holds S lg"
  "holds S (lg\<lparr>last_checkpoint := t\<rparr>) = holds S lg"
  "holds S (lg\<lparr>lg_state := s\<rparr>) = holds S lg"
  "holds S (lg\<lparr>block := bl\<rparr>) = holds S lg"
  by (simp_all add: holds_def contents_def)

lemma holds_write:
  assumes "holds S lg" and "full_write env" and "length ss \<le> 100"
  shows "holds (S @ ss) (snd (write_records env ss lg)) \<and> fst (write_records env ss lg)"
proof -
  have s: "session lg" and c: "contents lg (recording S) (companion S)"
    and f: "log_file lg \<noteq> None" "utc_file lg \<noteq> None" using assms(1) by (auto simp: holds_def)
  have m: "write_mutex env" and n: "write_taken env ss lg = 16 * length ss"
    and k: "min (utc_accepted env) (8 * (16 * length ss div 16)) = 8 * length ss" and fl: "utc_flush_ok env"
    using assms(2,3) f by (auto simp: full_write_def write_taken_def)
  note w = write_records_contents [OF s c m, of ss, unfolded n k]
  have "contents (snd (write_records env ss lg)) (recording (S @ ss)) (companion (S @ ss))"
    using w(1) f by simp
  moreover have "utc_file (snd (write_records env ss lg)) \<noteq> None" using w(3) f fl by simp
  ultimately show ?thesis using w(2) s f session_write_records [OF s] by (simp add: holds_def)
qed

lemma holds_checkpoint:
  assumes "holds S lg" and "checkpoint_mutex env" and "log_reopen_ok env" and "utc_reopen_ok env"
  shows "holds S (snd (checkpoint_file env lg))"
proof -
  have c: "contents lg (recording S) (companion S)" using assms(1) by (simp add: holds_def)
  show ?thesis using assms
    by (auto simp: checkpoint_file_effect [OF c] holds_def session_def contents_def)
qed

text \<open>The invariant of a fault-free session.\<close>

definition complete :: "('q \<Rightarrow> queued_sample list) \<Rightarrow> queued_sample list \<Rightarrow> 'q logger \<Rightarrow> bool" where
  "complete items acc lg \<longleftrightarrow> length (block lg) < LOG_RECORDS_PER_BLOCK \<and>
     (if lg_state lg = LOGGER_IDLE
      then session lg \<and> contents lg (recording acc) (companion acc) \<and> log_file lg = None \<and> utc_file lg = None \<and>
        block lg = [] \<and> items (log_queue lg) = []
      else \<exists>S. holds S lg \<and> acc = S @ block lg @ items (log_queue lg))"

lemma complete_active:
  "lg_state lg \<noteq> LOGGER_IDLE \<Longrightarrow> complete items acc lg \<longleftrightarrow> length (block lg) < LOG_RECORDS_PER_BLOCK \<and>
     (\<exists>S. holds S lg \<and> acc = S @ block lg @ items (log_queue lg))"
  by (simp add: complete_def)

lemma complete_enqueue_send:
  assumes "rtos_queue Q cap items" and "complete items acc lg" and "lg_state lg \<noteq> LOGGER_IDLE"
  shows "complete items (acc @ (case xQueueSend Q (log_queue lg) s of None \<Rightarrow> [] | Some q \<Rightarrow> [s])) (enqueue_send Q s lg)"
proof (cases "xQueueSend Q (log_queue lg) s")
  case None
  then show ?thesis using assms(2,3) by (simp add: enqueue_send_def complete_def)
next
  case (Some q)
  then have "items q = items (log_queue lg) @ [s]" using rtos_queue.sendD [OF assms(1)] by blast
  then show ?thesis using assms(2,3) Some by (auto simp: enqueue_send_def complete_def)
qed

lemma complete_receive:
  assumes "rtos_queue Q cap items" and "complete items acc lg" and "lg_state lg \<noteq> LOGGER_IDLE" and "full_write env"
  shows "complete items acc (writer_receive Q env lg)"
proof (cases "xQueueReceive Q (log_queue lg)")
  case None
  then show ?thesis using assms(2) by (simp add: writer_receive_def)
next
  case (Some r)
  obtain s q where r: "xQueueReceive Q (log_queue lg) = Some (s, q)" using Some by (cases r) auto
  then have it: "items (log_queue lg) = s # items q" by (rule rtos_queue.receiveD [OF assms(1)])
  obtain S where S: "holds S lg" and acc: "acc = S @ block lg @ items (log_queue lg)"
    and len: "length (block lg) < LOG_RECORDS_PER_BLOCK"
    using assms(2,3) by (auto simp: complete_active)
  let ?lg = "lg\<lparr>log_queue := q, block := block lg @ [s]\<rparr>"
  have h: "holds S ?lg" using S by simp
  show ?thesis
  proof (cases "length (block ?lg) = LOG_RECORDS_PER_BLOCK")
    case False
    then have "length (block lg @ [s]) < LOG_RECORDS_PER_BLOCK" using len by simp
    then show ?thesis using False r h acc it assms(3) by (auto simp: writer_receive_def Let_def complete_active)
  next
    case True
    have "length (block ?lg) \<le> 100" using True by (simp add: LOG_RECORDS_PER_BLOCK_def)
    from holds_write [OF h assms(4) this]
    have "holds (S @ block ?lg) ((snd (write_records env (block ?lg) ?lg))\<lparr>block := []\<rparr>)" by simp
    moreover have "acc = (S @ block ?lg) @ items q" using acc it by simp
    ultimately show ?thesis using True r assms(3)
      by (auto simp: writer_receive_def Let_def complete_active LOG_RECORDS_PER_BLOCK_def)
  qed
qed

lemma complete_checkpoint:
  assumes "complete items acc lg" and "fault_free (Checkpoint now env cenv)"
  shows "complete items acc (writer_checkpoint pd now env cenv lg)"
proof (cases "lg_state lg = LOGGER_RUNNING \<and> now - last_checkpoint lg \<ge> pd LOG_FLUSH_INTERVAL_MS")
  case False
  then show ?thesis using assms(1) by (auto simp: writer_checkpoint_def)
next
  case True
  then have act: "lg_state lg \<noteq> LOGGER_IDLE" by simp
  obtain S where S: "holds S lg" and acc: "acc = S @ block lg @ items (log_queue lg)"
    and len: "length (block lg) < LOG_RECORDS_PER_BLOCK"
    using assms(1) act by (auto simp: complete_active)
  have c: "checkpoint_mutex cenv" "log_reopen_ok cenv" "utc_reopen_ok cenv" and w: "full_write env"
    using assms(2) by auto
  let ?lg = "snd (if block lg = [] then (True, lg) else write_records env (block lg) lg)"
  have "holds (S @ block lg) (?lg\<lparr>block := []\<rparr>) \<and> fst (if block lg = [] then (True, lg) else write_records env (block lg) lg)"
    using S holds_write [OF S w, of "block lg"] len by (auto simp: LOG_RECORDS_PER_BLOCK_def)
  then have eq: "writer_checkpoint pd now env cenv lg = (snd (checkpoint_file cenv (?lg\<lparr>block := []\<rparr>)))\<lparr>last_checkpoint := now\<rparr>"
    and "holds (S @ block lg) (snd (checkpoint_file cenv (?lg\<lparr>block := []\<rparr>)))"
    using True holds_checkpoint [OF _ c, of "S @ block lg" "?lg\<lparr>block := []\<rparr>"]
    by (simp_all only: writer_checkpoint_def split_beta Let_def if_True simp_thms)
  then show ?thesis using act acc by (auto simp: complete_active eq LOG_RECORDS_PER_BLOCK_def)
qed

lemma complete_finish:
  assumes "rtos_queue Q cap items" and "complete items acc lg" and "lg_state lg \<noteq> LOGGER_IDLE"
    and "fault_free (Finish env closing)"
  shows "complete items acc (writer_finish Q env closing lg)"
proof (cases "lg_state lg = LOGGER_STOPPING \<and> uxQueueMessagesWaiting Q (log_queue lg) = 0")
  case False
  then show ?thesis using assms(2) by (auto simp: writer_finish_def)
next
  case True
  then have it: "items (log_queue lg) = []" using rtos_queue.waiting_0 [OF assms(1)] by blast
  obtain S where S: "holds S lg" and acc: "acc = S @ block lg"
    and len: "length (block lg) < LOG_RECORDS_PER_BLOCK"
    using assms(2,3) it by (auto simp: complete_active)
  let ?lg = "if block lg \<noteq> [] then (snd (write_records env (block lg) lg))\<lparr>block := []\<rparr> else lg"
  have h: "holds acc ?lg" using S acc holds_write [OF S, of env "block lg"] len assms(4)
    by (auto simp: LOG_RECORDS_PER_BLOCK_def)
  have b: "block ?lg = []" and q: "log_queue ?lg = log_queue lg" by auto
  have eq: "writer_finish Q env closing lg = ?lg\<lparr>log_file := None, utc_file := None, lg_state := LOGGER_IDLE\<rparr>"
    using True assms(4) by (simp add: writer_finish_def Let_def)
  have "session (?lg\<lparr>log_file := None, utc_file := None\<rparr>)" and "contents ?lg (recording acc) (companion acc)"
    using h by (auto simp: holds_def intro: session_closed)
  then show ?thesis unfolding eq complete_def using b q it by (simp add: LOG_RECORDS_PER_BLOCK_def contents_def session_def)
qed

lemma complete_rename:
  assumes "complete items acc lg" and "lg_state lg \<noteq> LOGGER_IDLE"
  shows "complete items acc (snd (data_logger_rename env (Some m) (Some n) lg))"
proof -
  obtain S where S: "holds S lg" using assms by (auto simp: complete_active)
  have bp: "bin_path (log_path lg)" and up: "utc_path lg = log_path lg @ ''.utc''"
    using S by (auto simp: holds_def session_def)
  obtain fs where r: "snd (data_logger_rename env (Some m) (Some n) lg) = lg\<lparr>sd_card := fs\<rparr>"
    and fs: "fs (log_path lg) = sd_card lg (log_path lg)" "fs (log_path lg @ ''.utc'') = sd_card lg (log_path lg @ ''.utc'')"
    using rename_in_session [OF assms(2) bp, of env m n] by blast
  show ?thesis unfolding r using assms fs up by (auto simp: complete_active holds_def contents_def session_def)
qed

lemma complete_step:
  assumes "rtos_queue Q cap items" and "complete items acc lg" and "lg_state lg \<noteq> LOGGER_IDLE" and "fault_free e"
  shows "complete items (acc @ accepted Q e lg) (log_step Q pd e lg)"
proof (cases e)
  case (Enqueue m utc)
  then show ?thesis using assms(2) complete_enqueue_send [OF assms(1-3)]
    by (cases "enqueue_check (\<lambda>_. utc) m lg") (auto simp: accepted_def data_logger_enqueue_def)
next
  case (Late_Send s)
  then show ?thesis using complete_enqueue_send [OF assms(1-3), of s] by (simp add: accepted_def)
next
  case (Receive env)
  then show ?thesis using complete_receive [OF assms(1-3)] assms(4) by (simp add: accepted_def)
next
  case (Checkpoint now env cenv)
  then show ?thesis using complete_checkpoint [OF assms(2)] assms(4) by (simp add: accepted_def)
next
  case (Finish env closing)
  then show ?thesis using complete_finish [OF assms(1-3)] assms(4) by (simp add: accepted_def)
next
  case Stop
  then show ?thesis using assms(2,3) by (auto simp: accepted_def data_logger_stop_def complete_active)
next
  case (Rename env m n)
  then show ?thesis using complete_rename [OF assms(2,3)] by (simp add: accepted_def)
qed

lemma complete_run:
  assumes "rtos_queue Q cap items" and "complete items acc lg" and "list_all fault_free es"
  shows "complete items (acc @ accepted_run Q pd es lg) (log_run Q pd es lg)"
  using assms(2,3)
proof (induction es arbitrary: acc lg)
  case (Cons e es)
  show ?case
  proof (cases "lg_state lg = LOGGER_IDLE")
    case False
    have "complete items (acc @ accepted Q e lg) (log_step Q pd e lg)"
      using complete_step [OF assms(1) Cons.prems(1) False] Cons.prems(2) by simp
    from Cons.IH [OF this] show ?thesis using False Cons.prems(2) by simp
  qed (use Cons.prems in simp)
qed simp

text \<open>Samples offered to the queue are accepted or counted as dropped.\<close>

fun offered_run ::
  "('q, queued_sample) queue_api \<Rightarrow> (nat \<Rightarrow> u32) \<Rightarrow> log_event list \<Rightarrow> 'q logger \<Rightarrow> queued_sample list" where
  "offered_run Q pd [] lg = []"
| "offered_run Q pd (e # es) lg =
     (if lg_state lg = LOGGER_IDLE then []
      else (case offered e lg of None \<Rightarrow> [] | Some s \<Rightarrow> [s]) @ offered_run Q pd es (log_step Q pd e lg))"

lemma drops_step:
  "queue_drops (log_step Q pd e lg) + word_of_nat (length (accepted Q e lg)) =
   queue_drops lg + word_of_nat (length (case offered e lg of None \<Rightarrow> [] | Some s \<Rightarrow> [s]))"
proof (cases e)
  case (Rename env m n)
  then show ?thesis by (simp add: accepted_def data_logger_rename_def Let_def)
qed (auto simp: accepted_def data_logger_enqueue_def enqueue_send_def writer_receive_def writer_checkpoint_def
    writer_finish_def data_logger_stop_def Let_def split_beta split: option.splits)

lemma drops_run:
  "queue_drops (log_run Q pd es lg) + word_of_nat (length (accepted_run Q pd es lg)) =
   queue_drops lg + word_of_nat (length (offered_run Q pd es lg))"
proof (induction es arbitrary: lg)
  case (Cons e es)
  show ?case
  proof (cases "lg_state lg = LOGGER_IDLE")
    case False
    let ?lg = "log_step Q pd e lg"
    have "queue_drops (log_run Q pd (e # es) lg) + word_of_nat (length (accepted_run Q pd (e # es) lg))
        = (queue_drops (log_run Q pd es ?lg) + word_of_nat (length (accepted_run Q pd es ?lg)))
          + word_of_nat (length (accepted Q e lg))" using False by (simp add: algebra_simps)
    also have "\<dots> = (queue_drops ?lg + word_of_nat (length (accepted Q e lg)))
          + word_of_nat (length (offered_run Q pd es ?lg))" unfolding Cons.IH by (simp add: algebra_simps)
    also have "\<dots> = queue_drops lg + word_of_nat (length (offered_run Q pd (e # es) lg))"
      unfolding drops_step using False by (simp add: algebra_simps)
    finally show ?thesis .
  qed simp
qed simp

lemma complete_start:
  assumes "rtos_queue Q cap items" and "start_at Q env path lg = (DATA_LOGGER_START_OK, lg')"
    and "bin_path path" and "block lg = []"
  shows "complete items [] lg'"
  using start_at_card [OF assms(2,3)] assms(1,3,4) rtos_queue.reset [OF assms(1)]
  by (auto simp: complete_def holds_def session_def contents_def LOG_RECORDS_PER_BLOCK_def)

text \<open>
  C3: A session records every sample it accepted.  When no call fails, then after any interleaving of
  samples, stop, renames and writer phases, the recording followed by the block and the queue
  holds exactly the accepted samples in order, and the companion their UTC stamps; every sample
  offered was accepted or is counted in the drop counter; and once the logger is idle the two
  closed files hold exactly the records and the stamps of all accepted samples.
\<close>

theorem session_records_everything:
  assumes "rtos_queue Q LOG_QUEUE_LENGTH items"
    and "start_at Q env path lg = (DATA_LOGGER_START_OK, lg0)" and "bin_path path" and "block lg = []"
    and "list_all fault_free evs" and "lg' = log_run Q pd evs lg0" and "acc = accepted_run Q pd evs lg0"
  shows "(\<exists>ss. acc = ss @ block lg' @ items (log_queue lg') \<and>
      sd_card lg' path = Some (Regular_File (recording ss)) \<and>
      sd_card lg' (path @ ''.utc'') = Some (Regular_File (companion ss))) \<and>
    (lg_state lg' = LOGGER_IDLE \<longrightarrow> block lg' = [] \<and> items (log_queue lg') = [] \<and>
      log_file lg' = None \<and> utc_file lg' = None) \<and>
    queue_drops lg' + word_of_nat (length acc) = queue_drops lg0 + word_of_nat (length (offered_run Q pd evs lg0))"
proof -
  have i: "invar items [] [] lg0" and p: "log_path lg0 = path" using invar_start [OF assms(1-4)] by auto
  have c: "complete items acc lg'"
    using complete_run [OF assms(1) complete_start [OF assms(1-4)] assms(5)] assms(6,7) by simp
  have "log_path lg' = path" using run_paths [OF i assms(1)] p assms(6) by simp
  moreover have "session lg'" using c by (auto simp: complete_def holds_def split: if_splits)
  ultimately have paths: "log_path lg' = path" "utc_path lg' = path @ ''.utc''" by (simp_all add: session_def)
  have "\<exists>ss. acc = ss @ block lg' @ items (log_queue lg') \<and> contents lg' (recording ss) (companion ss)"
    using c by (cases "lg_state lg' = LOGGER_IDLE") (auto simp: complete_def holds_def)
  moreover have "lg_state lg' = LOGGER_IDLE \<longrightarrow> block lg' = [] \<and> items (log_queue lg') = [] \<and>
      log_file lg' = None \<and> utc_file lg' = None" using c by (simp add: complete_def)
  ultimately show ?thesis using drops_run [of Q pd evs lg0] assms(6,7) paths by (auto simp: contents_def)
qed

theorem session_records_everything_witness:
  "let lg = log_run (list_queue LOG_QUEUE_LENGTH) (\<lambda>ms. word_of_nat ms)
       [Enqueue \<lparr>msg_id = 0x0B1, msg_dlc = 8, msg_data = 7\<rparr> 1700000000000, Stop] fresh_session
   in \<exists>ss. [\<lparr>qs_message = \<lparr>msg_id = 0x0B1, msg_dlc = 8, msg_data = 7\<rparr>, qs_utc_ms = 1700000000000\<rparr>] =
        ss @ block lg @ blist_rep LOG_QUEUE_LENGTH (log_queue lg) \<and>
      sd_card lg ''/sdcard/a.bin'' = Some (Regular_File (recording ss))"
proof -
  let ?evs = "[Enqueue \<lparr>msg_id = 0x0B1, msg_dlc = 8, msg_data = 7\<rparr> 1700000000000, Stop]"
  let ?Q = "list_queue LOG_QUEUE_LENGTH :: (queued_sample list, queued_sample) queue_api"
  have f: "lg_state fresh_session = LOGGER_RUNNING \<and> log_queue fresh_session = []"
    using start_at_card [OF fresh_session_start(1,2)] by (auto simp: list_queue_def)
  then have "accepted_run ?Q (\<lambda>ms. word_of_nat ms) ?evs fresh_session =
      [\<lparr>qs_message = \<lparr>msg_id = 0x0B1, msg_dlc = 8, msg_data = 7\<rparr>, qs_utc_ms = 1700000000000\<rparr>]"
    by (simp add: accepted_def data_logger_enqueue_def enqueue_check_def enqueue_send_def list_queue_def
        LOG_QUEUE_LENGTH_def)
  moreover have "list_all fault_free ?evs" by simp
  from session_records_everything [OF listq.rtos_queue_axioms fresh_session_start this refl refl,
      of "\<lambda>ms. word_of_nat ms"]
  show ?thesis unfolding Let_def calculation by blast
qed

subsection \<open>Stopping comes to an end\<close>

lemma writer_checkpoint_stopping:
  "lg_state lg \<noteq> LOGGER_RUNNING \<Longrightarrow> writer_checkpoint pd now env cenv lg = lg"
  by (simp add: writer_checkpoint_def)

lemma writer_receive_effect:
  assumes "rtos_queue Q cap items"
  shows "lg_state (writer_receive Q env lg) = lg_state lg \<and>
    items (log_queue (writer_receive Q env lg)) = tl (items (log_queue lg))"
  by (cases rule: rtos_queue.receive_cases [OF assms, of "log_queue lg", case_names got none])
    (auto simp: writer_receive_def Let_def)

lemma writer_round_stopping:
  assumes "rtos_queue Q cap items" and "lg_state lg = LOGGER_STOPPING"
  shows "lg_state (writer_round Q pd env lg) =
      (if length (items (log_queue lg)) \<le> 1 then LOGGER_IDLE else LOGGER_STOPPING) \<and>
    length (items (log_queue (writer_round Q pd env lg))) = length (items (log_queue lg)) - 1"
proof -
  let ?lg = "writer_receive Q (block_env env) lg"
  have st: "lg_state ?lg = LOGGER_STOPPING" and it: "items (log_queue ?lg) = tl (items (log_queue lg))"
    using writer_receive_effect [OF assms(1)] assms(2) by auto
  have "uxQueueMessagesWaiting Q (log_queue ?lg) = 0 \<longleftrightarrow> length (items (log_queue lg)) \<le> 1"
    unfolding rtos_queue.waiting_0 [OF assms(1)] it by (cases "items (log_queue lg)") auto
  moreover have "tl (items (log_queue lg)) = []" if "length (items (log_queue lg)) \<le> 1"
    using that by (cases "items (log_queue lg)") auto
  ultimately show ?thesis using st it
    by (auto simp: writer_round_def Let_def writer_checkpoint_stopping writer_finish_def writer_idle_def)
qed

text \<open>
  C24: A stop completes.  From the moment the logger is stopping, with \<open>n\<close> samples in its queue, it
  becomes idle after exactly \<open>max 1 n\<close> rounds of the writer, whatever the card, the mutexes and
  the clock do in them, and not one round earlier.
\<close>

theorem stop_completes:
  assumes "rtos_queue Q LOG_QUEUE_LENGTH items" and "lg_state lg = LOGGER_STOPPING"
    and "length envs = max 1 (length (items (log_queue lg)))"
  shows "lg_state (fold (writer_round Q pd) envs lg) = LOGGER_IDLE \<and>
    (\<forall>k < length envs. lg_state (fold (writer_round Q pd) (take k envs) lg) = LOGGER_STOPPING)"
  using assms(2,3)
proof (induction envs arbitrary: lg)
  case (Cons env envs)
  let ?lg = "writer_round Q pd env lg"
  note r = writer_round_stopping [OF assms(1) Cons.prems(1), of pd env]
  show ?case
  proof (cases "length (items (log_queue lg)) \<le> 1")
    case True
    then have "envs = []" using Cons.prems(2) by simp
    then show ?thesis using r True Cons.prems(1) by simp
  next
    case False
    then have "lg_state ?lg = LOGGER_STOPPING" and "length envs = max 1 (length (items (log_queue ?lg)))"
      using r Cons.prems(2) by auto
    note IH = Cons.IH [OF this]
    have "lg_state (fold (writer_round Q pd) (take k (env # envs)) lg) = LOGGER_STOPPING"
      if "k < length (env # envs)" for k
      using that IH Cons.prems(1) by (cases k) auto
    then show ?thesis using IH by simp
  qed
qed simp

theorem stop_completes_witness:
  "lg_state (fold (writer_round (list_queue LOG_QUEUE_LENGTH) (\<lambda>ms. word_of_nat ms))
     [\<lparr>block_env = \<lparr>write_mutex = False, log_accepted = 0, utc_accepted = 0, utc_flush_ok = False\<rparr>,
       flush_env = \<lparr>write_mutex = True, log_accepted = 16, utc_accepted = 0, utc_flush_ok = False\<rparr>,
       final_env = \<lparr>write_mutex = False, log_accepted = 0, utc_accepted = 0, utc_flush_ok = False\<rparr>,
       reopen_env = \<lparr>checkpoint_mutex = True, log_reopen_ok = True, utc_reopen_ok = False\<rparr>,
       close_mutex = False, round_now = 0\<rparr>]
     (fresh_session\<lparr>lg_state := LOGGER_STOPPING\<rparr>)) = LOGGER_IDLE"
proof -
  have "log_queue fresh_session = []"
    using start_at_card [OF fresh_session_start(1,2)] by (auto simp: list_queue_def)
  then show ?thesis
    by (intro stop_completes [OF listq.rtos_queue_axioms, THEN conjunct1])
      (simp_all add: blist_rep_def)
qed

subsection \<open>A late sample\<close>

text \<open>
  An enqueue that passed its state check just before a stop may send after the writer has gone
  idle.  The writer still receives the sample into its block, and a new session does not empty
  the block: the sample of the old session becomes the first record of the next recording.
\<close>

lemma late_sample_enters_next_session:
  assumes "rtos_queue Q LOG_QUEUE_LENGTH items" and "lg_state lg = LOGGER_IDLE" and "block lg = []"
    and "items (log_queue lg) = []" and "bin_path path"
    and "lg1 = writer_round Q pd renv (enqueue_send Q s lg)"
    and "start_at Q senv path lg1 = (DATA_LOGGER_START_OK, lg2)"
  shows "lg_state lg2 = LOGGER_RUNNING \<and> block lg2 = [s] \<and> items (log_queue lg2) = [] \<and>
    sd_card lg2 path = Some (Regular_File [])"
proof -
  obtain q where q: "xQueueSend Q (log_queue lg) s = Some q" and it: "items q = [s]"
    by (cases rule: rtos_queue.send_cases [OF assms(1), of "log_queue lg" s, case_names sent full])
      (use assms(4) in \<open>auto simp: LOG_QUEUE_LENGTH_def\<close>)
  obtain q' where q': "xQueueReceive Q q = Some (s, q')" and it': "items q' = []"
    by (cases rule: rtos_queue.receive_cases [OF assms(1), of q, case_names got none]) (use it in auto)
  have "block lg1 = [s]"
    using q q' assms(2,3) unfolding assms(6)
    by (simp add: enqueue_send_def writer_round_def writer_receive_def writer_checkpoint_def
        writer_finish_def writer_idle_def LOG_RECORDS_PER_BLOCK_def Let_def)
  then show ?thesis using start_at_card [OF assms(7,5)] rtos_queue.reset [OF assms(1)] by auto
qed

end
