(* ===== verification/Csv_Export.thy ===== *)
theory Csv_Export
  imports C_Float C_Time Live_Data Log_Writer
begin

text \<open>
  The exporters of \<open>web/web_server.c\<close>: a recording with its UTC companion as CSV rows, as rows
  that pair engine and bearing speed, or as it is.  An input file is the list of bytes that can be
  read from it and whether the stream then reports an error; \<open>ok n\<close> tells whether the \<open>n\<close>-th chunk
  reached the client, and the result of a download is whether it was delivered, with the chunks.
\<close>

definition DOWNLOAD_CHUNK_SIZE :: nat where "DOWNLOAD_CHUNK_SIZE = 4096"

subsection \<open>Printing\<close>

text \<open>
  The conversion with \<open>k\<close> digits after the point prints the decimal nearest to its argument.
\<close>

definition print_fixed :: "nat \<Rightarrow> rat \<Rightarrow> string" where
  "print_fixed k x =
     (let n = nat \<bar>round_half_even (x * 10 ^ k)\<bar>
      in (if x < 0 then ''-'' else []) @ dec (n div 10 ^ k) @ ''.'' @ dec_pad k (n mod 10 ^ k))"

definition hex_pad :: "nat \<Rightarrow> nat \<Rightarrow> string" where
  "hex_pad w n = zero_pad w (hex True n)"

definition crlf :: string where "crlf = [CHR 0x0D, CHR 0x0A]"

text \<open>The texts \<open>snprintf\<close> puts together are given by their fields.\<close>

fun comma_separated :: "string list \<Rightarrow> string" where
  "comma_separated [] = []"
| "comma_separated [field] = field"
| "comma_separated (field # rest) = field @ '','' @ comma_separated rest"

subsection \<open>Reading the files\<close>

function fread_records :: "u8 list \<Rightarrow> (u64 \<times> u64) list" where
  "fread_records bytes =
     (if length bytes < 16 then []
      else (assemble_data bytes 8, assemble_data (drop 8 bytes) 8) # fread_records (drop 16 bytes))"
  by auto
termination by (relation "measure length") auto

declare fread_records.simps [simp del]

text \<open>The UTC that goes with the next record, and the companion after it; None where it could not be opened.\<close>

definition read_utc_ms :: "u8 list option \<Rightarrow> int \<times> u8 list option" where
  "read_utc_ms utc_in =
     (case utc_in of
        None \<Rightarrow> (0, None)
      | Some bytes \<Rightarrow>
          if length bytes < 8 then (0, Some [])
          else let utc_ms = sint (assemble_data bytes 8)
               in (if utc_ms > 0 then utc_ms else 0, Some (drop 8 bytes)))"

definition format_absolute_time :: "int \<Rightarrow> string" where
  "format_absolute_time utc_ms =
     (if utc_ms \<le> 0 then []
      else let utc = gmtime (nat (utc_ms div 1000))
           in (case strftime 24 (strftime_date utc @ ''T'' @ strftime_time '':'' utc) of
                 None \<Rightarrow> []
               | Some date \<Rightarrow> snprintf 32 (date @ ''.'' @ dec_pad 3 (nat (utc_ms mod 1000)) @ ''Z'')))"

definition metadata_for :: "u32 \<Rightarrow> live_signal_metadata option" where
  "metadata_for can_id = List.find (\<lambda>s. sm_can_id s = can_id) signals"

definition record_id :: "u64 \<Rightarrow> u32" where
  "record_id w = ucast w AND 0x7FF"

subsection \<open>The row loops\<close>

text \<open>
  The loop both exporters run: \<open>step\<close> is the body up to the row it prints, if any, from the number
  of chunks sent on.
\<close>

fun csv_loop ::
  "('s \<Rightarrow> u64 \<times> u64 \<Rightarrow> int \<Rightarrow> string option \<times> 's) \<Rightarrow> (nat \<Rightarrow> bool) \<Rightarrow> nat \<Rightarrow> 's \<Rightarrow> (u64 \<times> u64) list \<Rightarrow>
   u8 list option \<Rightarrow> bool \<times> string list" where
  "csv_loop step ok n s [] utc_in = (True, [])"
| "csv_loop step ok n s (record # records) utc_in =
     (let (utc_ms, utc_in) = read_utc_ms utc_in;
          (row, s) = step s record utc_ms
      in case row of
           None \<Rightarrow> csv_loop step ok n s records utc_in
         | Some row \<Rightarrow>
             if length row \<ge> 256 \<or> \<not> ok n then (False, [])
             else let (good, rows) = csv_loop step ok (n + 1) s records utc_in in (good, row # rows))"

definition stream_rows ::
  "string \<Rightarrow> ('s \<Rightarrow> u64 \<times> u64 \<Rightarrow> int \<Rightarrow> string option \<times> 's) \<Rightarrow> 's \<Rightarrow> (nat \<Rightarrow> bool) \<Rightarrow> u8 list \<Rightarrow> bool \<Rightarrow>
   u8 list option \<Rightarrow> bool \<times> string list" where
  "stream_rows header step s ok file ferror utc_in =
     (if \<not> ok 0 then (False, [])
      else
        let (good, rows) = csv_loop step ok 1 s (fread_records file) utc_in
        in if \<not> good \<or> ferror then (False, header # rows)
           else (ok (1 + length rows), header # rows))"

definition csv_header :: string where
  "csv_header = ''sample_index,can_id,can_id_hex,signal,node,timestamp_ms,absolute_time_utc,value,units,raw_data'' @ crlf"

text \<open>The fields of a row of \<open>stream_csv\<close>.\<close>

definition csv_fields :: "nat \<Rightarrow> u64 \<times> u64 \<Rightarrow> int \<Rightarrow> string list" where
  "csv_fields sample_index record utc_ms =
     (let can_id = record_id (fst record);
          packed = snd record;
          value = sample_value packed;
          metadata = metadata_for can_id;
          sgnl = (case metadata of Some s \<Rightarrow> sm_signal s | None \<Rightarrow> []);
          nde = (case metadata of Some s \<Rightarrow> sm_node s | None \<Rightarrow> []);
          units = (case metadata of Some s \<Rightarrow> sm_units s | None \<Rightarrow> ''raw'');
          (value_text, units) =
            (if can_id = CAN_ID_GPS_SPEED then (snprintf 32 (print_fixed 2 (f64 (of_int value / 100))), ''km/h'')
             else (snprintf 32 (dec_int value), units))
      in [dec sample_index, dec (unat can_id), ''0x'' @ hex_pad 3 (unat can_id), sgnl, nde,
          dec (unat (sample_timestamp packed)), format_absolute_time utc_ms, value_text, units, dec (unat packed)])"

definition csv_step :: "nat \<Rightarrow> u64 \<times> u64 \<Rightarrow> int \<Rightarrow> string option \<times> nat" where
  "csv_step sample_index record utc_ms =
     (Some (comma_separated (csv_fields sample_index record utc_ms) @ crlf), sample_index + 1)"

definition stream_csv :: "(nat \<Rightarrow> bool) \<Rightarrow> u8 list \<Rightarrow> bool \<Rightarrow> u8 list option \<Rightarrow> bool \<times> string list" where
  "stream_csv = stream_rows csv_header csv_step 0"

subsection \<open>Paired rows\<close>

definition sample_at_or_before :: "u32 \<Rightarrow> u32 \<Rightarrow> bool" where
  "sample_at_or_before timestamp since \<longleftrightarrow> timestamp - since < 0x80000000"

text \<open>What \<open>stream_paired_csv\<close> holds of each signal: time stamp and value, None before the first.\<close>

record held =
  held_bearing :: "(u32 \<times> int) option"
  held_brake :: "(u32 \<times> int) option"
  held_speed :: "(u32 \<times> int) option"
  held_latitude :: "(u32 \<times> int) option"
  held_longitude :: "(u32 \<times> int) option"

definition nothing_held :: held where
  "nothing_held = \<lparr>held_bearing = None, held_brake = None, held_speed = None, held_latitude = None, held_longitude = None\<rparr>"

text \<open>The text of a value held since a time not after \<open>timestamp\<close>, empty otherwise.\<close>

definition held_text :: "u32 \<Rightarrow> (u32 \<Rightarrow> bool) \<Rightarrow> (int \<Rightarrow> string) \<Rightarrow> (u32 \<times> int) option \<Rightarrow> string" where
  "held_text timestamp recent print value =
     (case value of
        None \<Rightarrow> []
      | Some (since, v) \<Rightarrow> if sample_at_or_before timestamp since \<and> recent (timestamp - since) then print v else [])"

definition paired_fields :: "held \<Rightarrow> u32 \<Rightarrow> int \<Rightarrow> int \<Rightarrow> int \<Rightarrow> string list" where
  "paired_fields h timestamp bearing_rpm value utc_ms =
     [dec (unat timestamp), format_absolute_time utc_ms,
      held_text timestamp (\<lambda>age. age \<le> 100) (\<lambda>v. snprintf 16 (dec_int v)) (held_brake h),
      dec_int bearing_rpm, dec_int value,
      held_text timestamp (\<lambda>age. True) (\<lambda>v. snprintf 24 (print_fixed 7 (f64 (of_int v / 10000000)))) (held_latitude h),
      held_text timestamp (\<lambda>age. True) (\<lambda>v. snprintf 24 (print_fixed 7 (f64 (of_int v / 10000000)))) (held_longitude h),
      held_text timestamp (\<lambda>age. True) (\<lambda>v. snprintf 16 (print_fixed 2 (f64 (of_int v / 100)))) (held_speed h)]"

definition paired_step :: "held \<Rightarrow> u64 \<times> u64 \<Rightarrow> int \<Rightarrow> string option \<times> held" where
  "paired_step h record utc_ms =
     (let can_id = record_id (fst record);
          timestamp = sample_timestamp (snd record);
          value = sample_value (snd record)
      in if can_id = CAN_ID_FRONT_BRAKE then (None, h\<lparr>held_brake := Some (timestamp, value)\<rparr>)
         else if can_id = CAN_ID_BEARING_ENCODER then (None, h\<lparr>held_bearing := Some (timestamp, value)\<rparr>)
         else if can_id = CAN_ID_GPS_SPEED then (None, h\<lparr>held_speed := Some (timestamp, value)\<rparr>)
         else if can_id = CAN_ID_GPS_LATITUDE then (None, h\<lparr>held_latitude := Some (timestamp, value)\<rparr>)
         else if can_id = CAN_ID_GPS_LONGITUDE then (None, h\<lparr>held_longitude := Some (timestamp, value)\<rparr>)
         else if can_id \<noteq> CAN_ID_ENGINE_RPM then (None, h)
         else
           (case held_bearing h of
              None \<Rightarrow> (None, h)
            | Some (bearing_timestamp, bearing_rpm) \<Rightarrow>
                if \<not> sample_at_or_before timestamp bearing_timestamp \<or> timestamp - bearing_timestamp > 100
                then (None, h)
                else (Some (comma_separated (paired_fields h timestamp bearing_rpm value utc_ms) @ crlf), h)))"

definition paired_header :: string where
  "paired_header = ''Relative time,Absolute time,Brake pressure,Bearing RPM,Engine RPM,GPS latitude,GPS longitude,GPS Speed'' @ crlf"

definition stream_paired_csv :: "(nat \<Rightarrow> bool) \<Rightarrow> u8 list \<Rightarrow> bool \<Rightarrow> u8 list option \<Rightarrow> bool \<times> string list" where
  "stream_paired_csv = stream_rows paired_header paired_step nothing_held"

subsection \<open>The recording as it is\<close>

function binary_chunks :: "(nat \<Rightarrow> bool) \<Rightarrow> nat \<Rightarrow> u8 list \<Rightarrow> bool \<times> u8 list list" where
  "binary_chunks ok n bytes =
     (if bytes = [] then (True, [])
      else if \<not> ok n then (False, [])
      else let (good, chunks) = binary_chunks ok (n + 1) (drop DOWNLOAD_CHUNK_SIZE bytes)
           in (good, take DOWNLOAD_CHUNK_SIZE bytes # chunks))"
  by auto
termination
  by (relation "measure (\<lambda>(ok, n, bytes). length bytes)") (auto simp: DOWNLOAD_CHUNK_SIZE_def)

declare binary_chunks.simps [simp del]

definition stream_binary :: "bool \<Rightarrow> (nat \<Rightarrow> bool) \<Rightarrow> u8 list \<Rightarrow> bool \<Rightarrow> bool \<times> u8 list list" where
  "stream_binary malloc_ok ok file ferror =
     (if \<not> malloc_ok then (False, [])
      else let (good, chunks) = binary_chunks ok 0 file
           in (if good \<and> \<not> ferror then ok (length chunks) else False, chunks))"

subsection \<open>Fixed-point numbers are printed exactly\<close>

lemma round_half_even_near:
  assumes "\<bar>y - of_int n\<bar> < 1 / 2"
  shows "round_half_even y = n"
proof -
  have "\<bar>of_int (round_half_even y) - of_int n :: rat\<bar> < 1"
    using round_half_even_error [of y] assms by linarith
  then have "\<bar>(of_int (round_half_even y - n) :: rat)\<bar> < 1" by simp
  then show ?thesis by linarith
qed

text \<open>A 32-bit integer divided by a power of ten comes out with its own digits.\<close>

lemma print_fixed_exact:
  assumes "in_i32 v" and "0 < k" and "k \<le> 7"
  shows "print_fixed k (f64 (of_int v / 10 ^ k)) =
    (if v < 0 then ''-'' else []) @ dec (nat \<bar>v\<bar> div 10 ^ k) @ ''.'' @ dec_pad k (nat \<bar>v\<bar> mod 10 ^ k)"
proof -
  let ?x = "of_int v / 10 ^ k :: rat"
  have v: "\<bar>of_int v :: rat\<bar> \<le> 2 ^ 31"
    using assms(1) of_int_le_iff [of "\<bar>v\<bar>" "2 ^ 31", where 'a = rat] by (auto simp: in_i32_def)
  have p: "(1 :: rat) \<le> 10 ^ k" "(10 :: rat) ^ k \<le> 10 ^ 7"
    using assms(3) power_increasing [of k 7 "10 :: rat"] by simp_all
  have scaled: "\<bar>?x\<bar> * 10 ^ k = \<bar>of_int v\<bar>" using p by simp
  have err: "\<bar>f64 ?x - ?x\<bar> \<le> \<bar>?x\<bar> / 2 ^ 53"
  proof (cases "v = 0")
    case False
    then have "(1 :: rat) \<le> \<bar>of_int v\<bar>" by simp
    then have "1 / 10 ^ 7 \<le> \<bar>?x\<bar>" using p by (simp add: frac_le)
    moreover have "(2 :: rat) powi (- 1022) \<le> 2 powi (- 24)" by (rule power_int_increasing) simp_all
    moreover have "(2 :: rat) powi (- 24) \<le> 1 / 10 ^ 7" by (simp add: power_int_def power_divide)
    ultimately have "2 powi (- 1022) \<le> \<bar>?x\<bar>" by linarith
    moreover have "\<bar>?x\<bar> \<le> 2 ^ 31" using mult_left_mono [OF p(1), of "\<bar>?x\<bar>"] scaled v by linarith
    then have "\<bar>?x\<bar> < 2 powi 1024" by (simp add: power_int_def)
    ultimately show ?thesis by (rule f64_error)
  qed (use f64_of_int_small [of 0] in simp)
  have "f64 ?x * 10 ^ k - of_int v = (f64 ?x - ?x) * 10 ^ k" using p by (simp add: field_simps)
  then have "\<bar>f64 ?x * 10 ^ k - of_int v\<bar> = \<bar>f64 ?x - ?x\<bar> * 10 ^ k" by (simp add: abs_mult)
  also have "\<dots> \<le> \<bar>?x\<bar> / 2 ^ 53 * 10 ^ k" using err by (rule mult_right_mono) simp
  also have "\<dots> = \<bar>of_int v\<bar> / 2 ^ 53" using scaled by (simp add: field_simps)
  also have "\<dots> < 1 / 2" using v by simp
  finally have r: "round_half_even (f64 ?x * 10 ^ k) = v" by (rule round_half_even_near)
  have sign: "f64 ?x < 0 \<longleftrightarrow> v < 0"
  proof (cases "v < 0")
    case True
    then have "f64 ?x \<le> 0" unfolding f64_def by (intro fl_nonpos) (simp add: divide_nonpos_pos)
    moreover have "f64 ?x \<noteq> 0" using r True round_half_even_of_int [of 0] by auto
    ultimately show ?thesis using True by simp
  next
    case False
    then have "0 \<le> f64 ?x" by (intro f64_nonneg) simp
    then show ?thesis using False by simp
  qed
  show ?thesis unfolding print_fixed_def r sign Let_def by simp
qed

subsection \<open>Rows\<close>

lemma length_dec_word:
  fixes w :: "'a :: len word"
  assumes "2 ^ LENGTH('a) \<le> (10 :: nat) ^ k" and "0 < k"
  shows "length (dec (unat w)) \<le> k"
proof -
  have "unat w < 2 ^ LENGTH('a)" by (rule unsigned_less)
  then have "unat w < 10 ^ k" using assms(1) by (rule order_less_le_trans)
  then show ?thesis using assms(2) by (rule length_dec_less)
qed

lemma length_dec_u32: "length (dec (unat (w :: u32))) \<le> 10"
  by (rule length_dec_word) simp_all

lemma length_dec_u64: "length (dec (unat (w :: u64))) \<le> 20"
  by (rule length_dec_word) simp_all

lemma length_dec_i32: "in_i32 v \<Longrightarrow> length (dec_int v) \<le> 11"
  using length_dec_int [of v 10] by (simp add: in_i32_def abs_less_iff)

lemma length_snprintf: "0 < n \<Longrightarrow> length (snprintf n s) < n"
  by (auto simp: snprintf_def min_def)

lemma length_absolute_time: "length (format_absolute_time t) < 32"
  by (auto simp: format_absolute_time_def Let_def length_snprintf split: option.splits)

lemma record_id_bound: "unat (record_id w) < 2048"
proof -
  have "unat (record_id w) = unat (ucast w :: u32) AND 0x7FF" by (simp add: record_id_def unsigned_and_eq)
  also have "\<dots> = take_bit 11 (unat (ucast w :: u32))" by (simp add: take_bit_eq_mask mask_eq_exp_minus_1)
  finally show ?thesis using take_bit_nat_less_exp [of 11] by simp
qed

text \<open>Fields without the characters that structure the file.\<close>

definition plain :: "string \<Rightarrow> bool" where
  "plain field \<longleftrightarrow> CHR '','' \<notin> set field \<and> CHR 0x0D \<notin> set field \<and> CHR 0x0A \<notin> set field"

lemma metadata_texts:
  assumes "metadata_for i = Some s"
  shows "length (sm_signal s) \<le> 20" and "length (sm_node s) \<le> 14" and "length (sm_units s) \<le> 9"
    and "plain (sm_signal s)" and "plain (sm_node s)" and "plain (sm_units s)"
proof -
  have "list_all (\<lambda>s. length (sm_signal s) \<le> 20 \<and> length (sm_node s) \<le> 14 \<and> length (sm_units s) \<le> 9
      \<and> plain (sm_signal s) \<and> plain (sm_node s) \<and> plain (sm_units s)) signals"
    by (simp add: signals_def plain_def)
  moreover have "s \<in> set signals" using assms by (auto simp: metadata_for_def find_Some_iff)
  ultimately show "length (sm_signal s) \<le> 20" "length (sm_node s) \<le> 14" "length (sm_units s) \<le> 9"
    "plain (sm_signal s)" "plain (sm_node s)" "plain (sm_units s)" by (auto simp: list_all_iff)
qed

lemma comma_separated_length: "length (comma_separated fs) = sum_list (map length fs) + (length fs - 1)"
  by (induction fs rule: comma_separated.induct) simp_all

lemma plain_simps [simp]: "plain []" "plain (a @ b) \<longleftrightarrow> plain a \<and> plain b"
  "plain (c # s) \<longleftrightarrow> c \<noteq> CHR '','' \<and> c \<noteq> CHR 0x0D \<and> c \<noteq> CHR 0x0A \<and> plain s"
  by (auto simp: plain_def)

lemma plain_digits: "\<forall>c \<in> set s. char_isdigit c \<Longrightarrow> plain s"
  by (auto simp: plain_def char_isdigit_def)

lemma plain_dec [simp]: "plain (dec n)" "plain (dec_pad w n)"
  by (simp_all add: plain_digits set_dec_isdigit set_dec_pad_isdigit)

lemma plain_dec_int [simp]: "plain (dec_int i)"
  by (simp add: dec_int_def)

lemma plain_take: "plain s \<Longrightarrow> plain (take n s)"
  by (auto simp: plain_def dest: in_set_takeD)

lemma plain_snprintf [simp]: "plain s \<Longrightarrow> plain (snprintf n s)"
  by (simp add: snprintf_def plain_take)

lemma plain_fixed [simp]: "plain (print_fixed k x)"
  unfolding print_fixed_def Let_def by simp

lemma plain_absolute_time [simp]: "plain (format_absolute_time t)"
  by (auto simp: format_absolute_time_def Let_def strftime_def strftime_date_def strftime_time_def
      intro!: plain_snprintf)

lemma hex_digits: "\<forall>c \<in> set (hex upper n). char_isxdigit c"
proof (induction upper n rule: hex.induct)
  case (1 upper n)
  then show ?case by (subst hex.simps) auto
qed

lemma plain_hex [simp]: "plain (hex_pad w n)"
proof -
  have "digit_char 0 = CHR ''0''" by code_simp
  then show ?thesis
    using hex_digits [of True n] by (auto simp: hex_pad_def zero_pad_def plain_def char_class_defs)
qed

lemma csv_fields_plain: "list_all plain (csv_fields i r u)"
  using metadata_texts(4-6)
  by (cases "metadata_for (record_id (fst r))") (auto simp: csv_fields_def Let_def)

lemma csv_fields_short:
  assumes "i < 10 ^ 20"
  shows "length (comma_separated (csv_fields i r u) @ crlf) < 256"
proof -
  have i: "length (dec i) \<le> 20" using length_dec_less [OF assms] by simp
  have id: "length (dec (unat (record_id (fst r)))) \<le> 10" "length (hex_pad 3 (unat (record_id (fst r)))) = 3"
    using length_dec_u32 length_hex_less [of "unat (record_id (fst r))" 3] record_id_bound [of "fst r"]
    by (simp_all add: hex_pad_def)
  have v: "length (snprintf 32 s) \<le> 31" for s using length_snprintf [of 32 s] by simp
  have t: "length (format_absolute_time u) \<le> 31" using length_absolute_time [of u] by simp
  obtain sgnl nde val units where f: "csv_fields i r u =
      [dec i, dec (unat (record_id (fst r))), ''0x'' @ hex_pad 3 (unat (record_id (fst r))), sgnl, nde,
       dec (unat (sample_timestamp (snd r))), format_absolute_time u, snprintf 32 val, units, dec (unat (snd r))]"
    and l: "length sgnl \<le> 20" "length nde \<le> 14" "length units \<le> 9"
    using metadata_texts(1-3)
    by (cases "metadata_for (record_id (fst r))"; cases "record_id (fst r) = CAN_ID_GPS_SPEED")
      (simp_all add: csv_fields_def Let_def, (meson le_trans numeral_le_iff)?)
  show ?thesis
    unfolding comma_separated_length length_append f
    using l i id v [of val] t length_dec_u32 [of "sample_timestamp (snd r)"] length_dec_u64 [of "snd r"]
    by (simp add: crlf_def)
qed

subsection \<open>The loops as lists of rows\<close>

fun all_rows ::
  "('s \<Rightarrow> u64 \<times> u64 \<Rightarrow> int \<Rightarrow> string option \<times> 's) \<Rightarrow> 's \<Rightarrow> (u64 \<times> u64) list \<Rightarrow> u8 list option \<Rightarrow> string list" where
  "all_rows step s [] utc_in = []"
| "all_rows step s (r # rs) utc_in =
     (let (utc_ms, utc_in) = read_utc_ms utc_in; (row, s) = step s r utc_ms
      in case row of None \<Rightarrow> all_rows step s rs utc_in | Some row \<Rightarrow> row # all_rows step s rs utc_in)"

text \<open>What reaches the client of chunks sent from number \<open>n\<close> on: all up to the first failure.\<close>

fun delivered :: "(nat \<Rightarrow> bool) \<Rightarrow> nat \<Rightarrow> string list \<Rightarrow> string list" where
  "delivered ok n [] = []"
| "delivered ok n (row # rows) = (if ok n then row # delivered ok (n + 1) rows else [])"

lemma delivered_all: "(\<And>j. ok j) \<Longrightarrow> delivered ok n rows = rows"
  by (induction rows arbitrary: n) simp_all

lemma csv_loop_rows:
  assumes "\<forall>row \<in> set (all_rows step s rs utc_in). length row < 256"
  shows "csv_loop step ok n s rs utc_in =
    (delivered ok n (all_rows step s rs utc_in) = all_rows step s rs utc_in, delivered ok n (all_rows step s rs utc_in))"
  using assms
proof (induction rs arbitrary: n s utc_in)
  case (Cons r rs)
  obtain utc rest where u: "read_utc_ms utc_in = (utc, rest)" by (cases "read_utc_ms utc_in")
  obtain row s' where st: "step s r utc = (row, s')" by (cases "step s r utc")
  show ?case
  proof (cases row)
    case None
    then show ?thesis using Cons.IH [of s' rest n] Cons.prems by (simp add: u st)
  next
    case (Some line)
    then show ?thesis using Cons.IH [of s' rest "n + 1"] Cons.prems by (simp add: u st)
  qed
qed simp

lemma stream_rows_eq:
  assumes "\<forall>row \<in> set (all_rows step s (fread_records file) utc_in). length row < 256"
    and "chunks = header # all_rows step s (fread_records file) utc_in"
  shows "stream_rows header step s ok file ferr utc_in =
    (delivered ok 0 chunks = chunks \<and> \<not> ferr \<and> ok (length chunks), delivered ok 0 chunks)"
  unfolding stream_rows_def csv_loop_rows [OF assms(1)] assms(2) by (auto simp: Let_def)

fun companion_utc :: "nat \<Rightarrow> u8 list option \<Rightarrow> int list" where
  "companion_utc 0 utc_in = []"
| "companion_utc (Suc k) utc_in = fst (read_utc_ms utc_in) # companion_utc k (snd (read_utc_ms utc_in))"

lemma length_companion_utc [simp]: "length (companion_utc k u) = k"
  by (induction k arbitrary: u) simp_all

definition csv_row :: "nat \<Rightarrow> u64 \<times> u64 \<Rightarrow> int \<Rightarrow> string" where
  "csv_row i r utc = comma_separated (csv_fields i r utc) @ crlf"

lemma csv_all_rows:
  "all_rows csv_step k rs u = map (\<lambda>i. csv_row (k + i) (rs ! i) (companion_utc (length rs) u ! i)) [0..<length rs]"
proof (induction rs arbitrary: k u)
  case (Cons r rs)
  have "[0..<length (r # rs)] = 0 # map Suc [0..<length rs]"
    by (simp add: upt_conv_Cons map_Suc_upt del: upt_Suc)
  then show ?case
    using Cons.IH [of "k + 1" "snd (read_utc_ms u)"] by (simp add: csv_step_def csv_row_def split_beta Let_def comp_def)
qed simp

subsection \<open>Reading back what the writer wrote\<close>

lemma assemble_first_bytes: "assemble_data (payload_bytes w @ rest) 8 = w"
proof -
  have "n \<le> 8 \<Longrightarrow> assemble_data (payload_bytes w @ rest) n = assemble_data (payload_bytes w) n" for n
    by (induction n) (simp_all add: nth_append)
  then show ?thesis by simp
qed

definition record_words :: "queued_sample \<Rightarrow> u64 \<times> u64" where
  "record_words s = (ucast (msg_id (qs_message s)), msg_data (qs_message s))"

lemma fread_recording: "fread_records (recording ss) = map record_words ss"
proof (induction ss)
  case Nil
  then show ?case by (simp add: fread_records.simps)
next
  case (Cons s ss)
  have "recording (s # ss) = payload_bytes (ucast (msg_id (qs_message s))) @ payload_bytes (msg_data (qs_message s)) @ recording ss"
    by (simp add: recording_def record_bytes_def)
  then show ?case
    using Cons by (subst fread_records.simps) (simp add: assemble_first_bytes record_words_def)
qed

lemma read_companion:
  assumes "list_all (\<lambda>s. in_i64 (qs_utc_ms s)) ss"
  shows "companion_utc (length ss) (Some (companion ss)) = map (\<lambda>s. max 0 (qs_utc_ms s)) ss"
  using assms
proof (induction ss)
  case (Cons s ss)
  have c: "companion (s # ss) = payload_bytes (word_of_int (qs_utc_ms s)) @ companion ss"
    by (simp add: companion_def utc_bytes_def)
  have "sint (word_of_int (qs_utc_ms s) :: u64) = qs_utc_ms s"
    using Cons.prems by (simp add: in_i64_def signed_of_int signed_take_bit_int_eq_self)
  then have "read_utc_ms (Some (companion (s # ss))) = (max 0 (qs_utc_ms s), Some (companion ss))"
    by (simp add: c read_utc_ms_def assemble_first_bytes Let_def)
  then show ?case using Cons by simp
qed simp

definition csv_rows :: "(u64 \<times> u64) list \<Rightarrow> int list \<Rightarrow> string list" where
  "csv_rows rs utcs = map (\<lambda>i. csv_row i (rs ! i) (utcs ! i)) [0..<length rs]"

lemma stream_csv_eq:
  assumes "length file < 10 ^ 20" and "rs = fread_records file"
  shows "stream_csv ok file ferr utc_in =
    (delivered ok 0 (csv_header # csv_rows rs (companion_utc (length rs) utc_in)) =
       csv_header # csv_rows rs (companion_utc (length rs) utc_in)
     \<and> \<not> ferr \<and> ok (Suc (length rs)),
     delivered ok 0 (csv_header # csv_rows rs (companion_utc (length rs) utc_in)))"
proof -
  have "length (fread_records bytes) \<le> length bytes" for bytes
  proof (induction bytes rule: fread_records.induct)
    case (1 bytes)
    show ?case using 1 by (subst fread_records.simps) auto
  qed
  then have "length rs < 10 ^ 20" using assms by (meson le_less_trans)
  moreover have rows: "all_rows csv_step 0 (fread_records file) utc_in = csv_rows rs (companion_utc (length rs) utc_in)"
    by (simp add: csv_all_rows csv_rows_def assms(2))
  ultimately have "\<forall>row \<in> set (all_rows csv_step 0 (fread_records file) utc_in). length row < 256"
    using csv_fields_short by (auto simp: csv_rows_def csv_row_def)
  then show ?thesis
    unfolding stream_csv_def by (subst stream_rows_eq [OF _ refl]) (simp_all add: rows csv_rows_def)
qed

lemma record_id_field: "unat (record_id (ucast (i :: u32))) = unat i mod 2048"
proof -
  have "(ucast (ucast i :: u64) :: u32) = i"
    by (rule bit_word_eqI) (auto simp: bit_ucast_iff dest: bit_imp_le_length)
  then have "unat (record_id (ucast i)) = unat i AND 0x7FF" by (simp add: record_id_def unsigned_and_eq)
  also have "\<dots> = take_bit 11 (unat i)" by (simp add: take_bit_eq_mask mask_eq_exp_minus_1)
  finally show ?thesis by (simp add: take_bit_eq_mod)
qed

lemma gps_speed_text:
  assumes "in_i32 v"
  shows "snprintf 32 (print_fixed 2 (f64 (of_int v / 100))) =
    (if v < 0 then ''-'' else []) @ dec (nat \<bar>v\<bar> div 100) @ ''.'' @ dec_pad 2 (nat \<bar>v\<bar> mod 100)"
proof -
  have short: "length ((if neg then ''-'' else []) @ a @ ''.'' @ b) < 32" if "length a \<le> 10" "length b = 2" for neg a b
    using that by simp
  have "length (dec (nat \<bar>v\<bar> div 100)) \<le> 10" using assms by (intro length_dec_less) (auto simp: in_i32_def)
  moreover have "length (dec_pad 2 (nat \<bar>v\<bar> mod 100)) = 2" by (rule length_dec_pad) simp_all
  ultimately have "length ((if v < 0 then ''-'' else []) @ dec (nat \<bar>v\<bar> div 100) @ ''.'' @ dec_pad 2 (nat \<bar>v\<bar> mod 100)) < 32"
    by (rule short)
  moreover have "print_fixed 2 (f64 (of_int v / 100)) =
      (if v < 0 then ''-'' else []) @ dec (nat \<bar>v\<bar> div 100) @ ''.'' @ dec_pad 2 (nat \<bar>v\<bar> mod 100)"
    using print_fixed_exact [OF assms, of 2] by simp
  ultimately show ?thesis by (simp only: snprintf_fits)
qed

text \<open>
  C12: a recording is exported completely and without loss.  When the client receives every chunk,
  the CSV of a recording the logger wrote is its header and one row for every record, in order;
  every row fits its buffer, no field holds a separator, and the fields give back the position,
  the identifier's eleven bits, the time stamp, the UTC, the value (the GPS speed with its decimal
  point) and the whole packed word.
\<close>
theorem csv_export_exact:
  assumes "list_all (\<lambda>s. in_i64 (qs_utc_ms s)) ss" and "16 * length ss < 10 ^ 20"
  shows "stream_csv (\<lambda>n. True) (recording ss) False (Some (companion ss)) =
      (True, csv_header # map (\<lambda>i. csv_row i (record_words (ss ! i)) (max 0 (qs_utc_ms (ss ! i)))) [0..<length ss])
    \<and> (\<forall>i < length ss.
         let fs = csv_fields i (record_words (ss ! i)) (max 0 (qs_utc_ms (ss ! i))); m = qs_message (ss ! i);
             v = sample_value (msg_data m)
         in csv_row i (record_words (ss ! i)) (max 0 (qs_utc_ms (ss ! i))) = comma_separated fs @ crlf
          \<and> length fs = 10 \<and> list_all plain fs \<and> length (comma_separated fs @ crlf) < 256
          \<and> dec_value (fs ! 0) = i \<and> dec_value (fs ! 1) = unat (msg_id m) mod 2048
          \<and> dec_value (fs ! 5) = unat (sample_timestamp (msg_data m))
          \<and> fs ! 6 = format_absolute_time (qs_utc_ms (ss ! i))
          \<and> fs ! 7 = (if unat (msg_id m) mod 2048 = 0x700
               then (if v < 0 then ''-'' else []) @ dec (nat \<bar>v\<bar> div 100) @ ''.'' @ dec_pad 2 (nat \<bar>v\<bar> mod 100)
               else dec_int v)
          \<and> dec_value (fs ! 9) = unat (msg_data m))"
proof (intro conjI allI impI)
  have rows: "csv_rows (map record_words ss) (map (\<lambda>s. max 0 (qs_utc_ms s)) ss) =
      map (\<lambda>i. csv_row i (record_words (ss ! i)) (max 0 (qs_utc_ms (ss ! i)))) [0..<length ss]"
    by (simp add: csv_rows_def)
  show "stream_csv (\<lambda>n. True) (recording ss) False (Some (companion ss)) =
      (True, csv_header # map (\<lambda>i. csv_row i (record_words (ss ! i)) (max 0 (qs_utc_ms (ss ! i)))) [0..<length ss])"
    using stream_csv_eq [of "recording ss" "map record_words ss"] assms
    by (simp add: fread_recording delivered_all read_companion rows)
next
  fix i assume i: "i < length ss"
  let ?m = "qs_message (ss ! i)"
  let ?v = "sample_value (msg_data ?m)"
  have id: "record_id (ucast (msg_id ?m)) = CAN_ID_GPS_SPEED \<longleftrightarrow> unat (msg_id ?m) mod 2048 = 0x700"
    unfolding record_id_field [symmetric] by (simp add: CAN_ID_GPS_SPEED_def word_unat_eq_iff)
  have "i < 10 ^ 20" using i assms(2) by simp
  note short = csv_fields_short [OF this, of "record_words (ss ! i)" "max 0 (qs_utc_ms (ss ! i))"]
  have utc: "format_absolute_time (max 0 t) = format_absolute_time t" for t
    by (cases "t \<le> 0") (simp_all add: format_absolute_time_def)
  have int: "snprintf 32 (dec_int ?v) = dec_int ?v" using length_dec_i32 [of ?v] by simp
  show "let fs = csv_fields i (record_words (ss ! i)) (max 0 (qs_utc_ms (ss ! i))); m = qs_message (ss ! i);
             v = sample_value (msg_data m)
         in csv_row i (record_words (ss ! i)) (max 0 (qs_utc_ms (ss ! i))) = comma_separated fs @ crlf
          \<and> length fs = 10 \<and> list_all plain fs \<and> length (comma_separated fs @ crlf) < 256
          \<and> dec_value (fs ! 0) = i \<and> dec_value (fs ! 1) = unat (msg_id m) mod 2048
          \<and> dec_value (fs ! 5) = unat (sample_timestamp (msg_data m))
          \<and> fs ! 6 = format_absolute_time (qs_utc_ms (ss ! i))
          \<and> fs ! 7 = (if unat (msg_id m) mod 2048 = 0x700
               then (if v < 0 then ''-'' else []) @ dec (nat \<bar>v\<bar> div 100) @ ''.'' @ dec_pad 2 (nat \<bar>v\<bar> mod 100)
               else dec_int v)
          \<and> dec_value (fs ! 9) = unat (msg_data m)"
    unfolding Let_def csv_row_def id [symmetric]
    using short csv_fields_plain [of i "record_words (ss ! i)" "max 0 (qs_utc_ms (ss ! i))"]
    by (simp add: csv_fields_def Let_def record_words_def record_id_field utc int gps_speed_text)
qed

text \<open>The recording of a GPS speed of -1.50 km/h.\<close>

theorem csv_export_exact_witness:
  "let ss = [\<lparr>qs_message = \<lparr>msg_id = 0x700, msg_dlc = 8, msg_data = pack_sample (- 150) 7\<rparr>, qs_utc_ms = 0\<rparr>]
   in stream_csv (\<lambda>n. True) (recording ss) False (Some (companion ss)) =
     (True, [csv_header, csv_row 0 (0x700, pack_sample (- 150) 7) 0])"
proof -
  let ?ss = "[\<lparr>qs_message = \<lparr>msg_id = 0x700, msg_dlc = 8, msg_data = pack_sample (- 150) 7\<rparr>, qs_utc_ms = 0\<rparr>]"
  have a: "list_all (\<lambda>s. in_i64 (qs_utc_ms s)) ?ss" "16 * length ?ss < 10 ^ 20" by (simp_all add: in_i64_def)
  show ?thesis unfolding Let_def csv_export_exact [OF a, THEN conjunct1] by (simp add: record_words_def)
qed

subsection \<open>Which rows are paired\<close>

text \<open>The last record of an identifier before position \<open>i\<close>: its time stamp and value.\<close>

definition latest :: "(u64 \<times> u64) list \<Rightarrow> nat \<Rightarrow> u32 \<Rightarrow> (u32 \<times> int) option" where
  "latest rs i can_id =
     map_option (\<lambda>r. (sample_timestamp (snd r), sample_value (snd r)))
       (List.find (\<lambda>r. record_id (fst r) = can_id) (rev (take i rs)))"

definition held_at :: "(u64 \<times> u64) list \<Rightarrow> nat \<Rightarrow> held" where
  "held_at rs i = \<lparr>held_bearing = latest rs i CAN_ID_BEARING_ENCODER, held_brake = latest rs i CAN_ID_FRONT_BRAKE,
     held_speed = latest rs i CAN_ID_GPS_SPEED, held_latitude = latest rs i CAN_ID_GPS_LATITUDE,
     held_longitude = latest rs i CAN_ID_GPS_LONGITUDE\<rparr>"

text \<open>The row of record \<open>i\<close>: only for an engine speed with a bearing speed at most 100 ms old.\<close>

definition paired_row :: "(u64 \<times> u64) list \<Rightarrow> int list \<Rightarrow> nat \<Rightarrow> string list" where
  "paired_row rs utcs i =
     (let t = sample_timestamp (snd (rs ! i))
      in if record_id (fst (rs ! i)) \<noteq> CAN_ID_ENGINE_RPM then []
         else (case latest rs i CAN_ID_BEARING_ENCODER of
                 None \<Rightarrow> []
               | Some (since, rpm) \<Rightarrow>
                   if unat (t - since) \<le> 100
                   then [comma_separated (paired_fields (held_at rs i) t rpm (sample_value (snd (rs ! i))) (utcs ! i)) @ crlf]
                   else []))"

lemma recent_iff: "sample_at_or_before t since \<and> \<not> t - since > 100 \<longleftrightarrow> unat (t - since) \<le> 100"
  by (auto simp: sample_at_or_before_def word_le_nat_alt word_less_nat_alt)

lemma latest_snoc:
  "i < length rs \<Longrightarrow> latest rs (Suc i) can_id =
     (if record_id (fst (rs ! i)) = can_id
      then Some (sample_timestamp (snd (rs ! i)), sample_value (snd (rs ! i))) else latest rs i can_id)"
  by (simp add: latest_def take_Suc_conv_app_nth)

lemma paired_ids_differ:
  "distinct [CAN_ID_FRONT_BRAKE, CAN_ID_BEARING_ENCODER, CAN_ID_GPS_SPEED, CAN_ID_GPS_LATITUDE,
     CAN_ID_GPS_LONGITUDE, CAN_ID_ENGINE_RPM]"
  by (simp add: sensor_id_defs gps_id_defs)

lemma paired_step_spec:
  assumes "i < length rs"
  shows "paired_step (held_at rs i) (rs ! i) (utcs ! i) =
    (case paired_row rs utcs i of [] \<Rightarrow> None | row # _ \<Rightarrow> Some row, held_at rs (Suc i))"
proof -
  let ?id = "record_id (fst (rs ! i))"
  note differ = paired_ids_differ [simplified]
  have next_held: "held_at rs (Suc i) = (let v = Some (sample_timestamp (snd (rs ! i)), sample_value (snd (rs ! i))) in
      if ?id = CAN_ID_FRONT_BRAKE then (held_at rs i)\<lparr>held_brake := v\<rparr>
      else if ?id = CAN_ID_BEARING_ENCODER then (held_at rs i)\<lparr>held_bearing := v\<rparr>
      else if ?id = CAN_ID_GPS_SPEED then (held_at rs i)\<lparr>held_speed := v\<rparr>
      else if ?id = CAN_ID_GPS_LATITUDE then (held_at rs i)\<lparr>held_latitude := v\<rparr>
      else if ?id = CAN_ID_GPS_LONGITUDE then (held_at rs i)\<lparr>held_longitude := v\<rparr>
      else held_at rs i)"
    using differ by (auto simp: held_at_def latest_snoc [OF assms] Let_def)
  show ?thesis
  proof (cases "?id = CAN_ID_ENGINE_RPM")
    case False
    then show ?thesis by (auto simp: paired_step_def paired_row_def next_held Let_def)
  next
    case True
    have held: "held_bearing (held_at rs i) = latest rs i CAN_ID_BEARING_ENCODER" by (simp add: held_at_def)
    show ?thesis
    proof (cases "latest rs i CAN_ID_BEARING_ENCODER")
      case None
      then show ?thesis using True differ by (auto simp: paired_step_def paired_row_def next_held held Let_def)
    next
      case (Some b)
      obtain since rpm where b: "b = (since, rpm)" by (cases b)
      let ?t = "sample_timestamp (snd (rs ! i))"
      show ?thesis
        using True differ recent_iff [of ?t since]
        by (cases "unat (?t - since) \<le> 100") (auto simp: paired_step_def paired_row_def next_held held Some b Let_def)
    qed
  qed
qed

lemma paired_all_rows:
  assumes "rs = done @ rest" and "utcs = us @ companion_utc (length rest) u" and "length us = length done"
  shows "all_rows paired_step (held_at rs (length done)) rest u =
    concat (map (paired_row rs utcs) [length done..<length rs])"
  using assms
proof (induction rest arbitrary: "done" us u)
  case Nil
  then show ?case by simp
next
  case (Cons r rest)
  obtain utc v where u: "read_utc_ms u = (utc, v)" by (cases "read_utc_ms u")
  let ?i = "length done"
  have i: "?i < length rs" "rs ! ?i = r" "utcs ! ?i = utc" using Cons.prems u by (simp_all add: nth_append)
  have "[?i..<length rs] = ?i # [Suc ?i..<length rs]" using i(1) by (rule upt_conv_Cons)
  moreover have "all_rows paired_step (held_at rs (Suc ?i)) rest v = concat (map (paired_row rs utcs) [Suc ?i..<length rs])"
    using Cons.IH [of "done @ [r]" "us @ [utc]" v] Cons.prems u by simp
  moreover have "paired_row rs utcs ?i = [] \<or> (\<exists>row. paired_row rs utcs ?i = [row])"
    by (simp add: paired_row_def Let_def split: option.splits)
  ultimately show ?case
    using paired_step_spec [OF i(1), of utcs] i u by (auto simp: Let_def)
qed

lemma held_text_short: "(\<And>v. length (print v) \<le> n) \<Longrightarrow> length (held_text t recent print v) \<le> n"
  by (cases v) (auto simp: held_text_def)

lemma paired_row_short:
  assumes "row \<in> set (paired_row rs utcs i)"
  shows "length row < 256"
proof -
  have v: "length (snprintf 16 s) \<le> 15" "length (snprintf 24 s) \<le> 23" for s
    using length_snprintf [of 16 s] length_snprintf [of 24 s] by simp_all
  have t: "length (format_absolute_time u) \<le> 31" for u using length_absolute_time [of u] by simp
  have "length (comma_separated (paired_fields h ts rpm (sample_value d) u) @ crlf) < 256" if "in_i32 rpm" for h ts rpm d u
    using that t [of u] length_dec_u32 [of ts] length_dec_i32 [of rpm] length_dec_i32 [of "sample_value d"]
      held_text_short [of "\<lambda>v. snprintf 16 (dec_int v)" 15 ts "\<lambda>age. age \<le> 100" "held_brake h"]
      held_text_short [of "\<lambda>v. snprintf 24 (print_fixed 7 (f64 (of_int v / 10000000)))" 23 ts "\<lambda>age. True" "held_latitude h"]
      held_text_short [of "\<lambda>v. snprintf 24 (print_fixed 7 (f64 (of_int v / 10000000)))" 23 ts "\<lambda>age. True" "held_longitude h"]
      held_text_short [of "\<lambda>v. snprintf 16 (print_fixed 2 (f64 (of_int v / 100)))" 15 ts "\<lambda>age. True" "held_speed h"] v
    by (simp add: comma_separated_length paired_fields_def crlf_def)
  moreover have "in_i32 rpm" if "latest rs i can_id = Some (since, rpm)" for since rpm can_id
    using that by (auto simp: latest_def)
  ultimately show ?thesis using assms by (auto simp: paired_row_def Let_def split: option.splits if_splits)
qed

text \<open>
  C18: the paired export is the join it is meant to be.  The loop, which keeps the last value of
  each signal while it runs through the file once, produces the same rows as looking backwards
  from every engine speed: one row for each engine speed whose last bearing speed is at most 100 ms
  older, with the brake pressure under the same condition and the last GPS values; the time stamps
  are compared modulo their wrap, and every row takes the UTC of its own record.
\<close>
theorem paired_export_is_join:
  assumes "rs = fread_records file" and "utcs = companion_utc (length rs) utc_in"
  shows "stream_paired_csv ok file ferr utc_in =
    (let chunks = paired_header # concat (map (paired_row rs utcs) [0..<length rs])
     in (delivered ok 0 chunks = chunks \<and> \<not> ferr \<and> ok (length chunks), delivered ok 0 chunks))"
proof -
  have "held_at rs 0 = nothing_held" by (simp add: held_at_def nothing_held_def latest_def)
  then have rows: "all_rows paired_step nothing_held (fread_records file) utc_in =
      concat (map (paired_row rs utcs) [0..<length rs])"
    using paired_all_rows [of rs "[]" rs utcs "[]" utc_in] assms by simp
  have "\<forall>row \<in> set (concat (map (paired_row rs utcs) [0..<length rs])). length row < 256"
    using paired_row_short by auto
  then show ?thesis
    unfolding stream_paired_csv_def Let_def rows [symmetric] by (intro stream_rows_eq) simp_all
qed

theorem paired_export_is_join_witness:
  "stream_paired_csv (\<lambda>n. True) (payload_bytes 0x0B9 @ payload_bytes (pack_sample 60 950)
       @ payload_bytes 0x0BB @ payload_bytes (pack_sample 3000 1000)) False None =
     (True, [paired_header, ''1000,,,60,3000,,,'' @ crlf])"
proof -
  let ?file = "payload_bytes 0x0B9 @ payload_bytes (pack_sample 60 950)
       @ payload_bytes 0x0BB @ payload_bytes (pack_sample 3000 1000)"
  let ?rs = "[(0x0B9, pack_sample 60 950), (0x0BB, pack_sample 3000 1000)]"
  have rs: "?rs = fread_records ?file"
    by (simp add: fread_records.simps assemble_first_bytes)
  have v: "sample_value (pack_sample 60 950) = 60" "sample_value (pack_sample 3000 1000) = 3000" by (simp_all add: in_i32_def)
  have d: "dec 1000 = ''1000''" "dec_int 60 = ''60''" "dec_int 3000 = ''3000''" by code_simp+
  have "read_utc_ms None = (0, None)" by (simp add: read_utc_ms_def)
  then show ?thesis
    using paired_export_is_join [OF rs refl, of "\<lambda>n. True" False None]
    by (simp add: paired_row_def latest_def record_id_def sensor_id_defs gps_id_defs v d held_at_def paired_fields_def
        held_text_def format_absolute_time_def delivered_all)
qed

end
