(* ===== verification/Twai_Port.thy ===== *)
theory Twai_Port
  imports App_Protocol
begin

text \<open>
  What the CAN ports of the two firmwares share.  Transmission uses one retained frame buffer: the
  TWAI driver keeps the pointers of a frame it accepted until
  \<open>twai_node_transmit_wait_all_done\<close> has returned \<open>ESP_OK\<close>.  What a port asks of the driver is
  a trace of \<open>tx_action\<close>s, so that the use of the buffer can be judged.  Recovery from bus-off
  polls the driver's status.  The locale \<open>retained_frame_port\<close> is the contract of one call of
  \<open>can_master_send\<close> or \<open>can_node_send\<close>; the locale \<open>bus_off_recovery\<close> that of one round of
  either recovery task.  Results of the driver, of semaphores and the tick counter are
  arguments.
\<close>

subsection \<open>Transmission\<close>

text \<open>The static \<open>tx_frame\<close> (identifier and length), \<open>tx_payload\<close> and \<open>tx_pending\<close>.\<close>

record can_tx =
  tx_frame :: "u32 \<times> u8"
  tx_payload :: "u8 list"
  tx_pending :: bool

definition can_tx_boot :: can_tx where
  "can_tx_boot = \<lparr>tx_frame = (0, 0), tx_payload = replicate 8 0, tx_pending = False\<rparr>"

text \<open>What one call of \<open>can_master_send\<close> meets: the mutex and the three driver calls.\<close>

record tx_env =
  mutex_taken :: bool
  drain_result :: esp_err
  transmit_result :: esp_err
  done_result :: esp_err

datatype tx_action =
    Wait_All_Done esp_err
  | Write_Frame u32 "u8 list"
  | Transmit esp_err

definition send_locked ::
  "tx_env \<Rightarrow> u32 \<Rightarrow> u8 list \<Rightarrow> u8 \<Rightarrow> can_tx \<Rightarrow> esp_err \<times> tx_action list \<times> can_tx" where
  "send_locked env frame_id payload len tx =
     (let tx = tx\<lparr>tx_payload := take (unat len) payload @ drop (unat len) (tx_payload tx)\<rparr>;
          tx = tx\<lparr>tx_frame := (frame_id, len)\<rparr>;
          writes = [Write_Frame frame_id (take (unat len) (tx_payload tx)), Transmit (transmit_result env)]
      in if transmit_result env \<noteq> ESP_OK then (transmit_result env, writes, tx)
         else let tx = tx\<lparr>tx_pending := True\<rparr>;
                  error = done_result env
              in (error, writes @ [Wait_All_Done error],
                  if error = ESP_OK then tx\<lparr>tx_pending := False\<rparr> else tx))"

text \<open>
  The driver's side of the trace.  \<open>in_flight held acts\<close> is whether the driver still holds the
  frame after \<open>acts\<close>; \<open>frame_free held acts\<close> that no write touched the buffer while it did.
\<close>

fun in_flight :: "bool \<Rightarrow> tx_action list \<Rightarrow> bool" where
  "in_flight held [] = held"
| "in_flight held (Wait_All_Done e # acts) = in_flight (held \<and> e \<noteq> ESP_OK) acts"
| "in_flight held (Transmit e # acts) = in_flight (held \<or> e = ESP_OK) acts"
| "in_flight held (Write_Frame i bs # acts) = in_flight held acts"

fun frame_free :: "bool \<Rightarrow> tx_action list \<Rightarrow> bool" where
  "frame_free held [] = True"
| "frame_free held (Wait_All_Done e # acts) = frame_free (held \<and> e \<noteq> ESP_OK) acts"
| "frame_free held (Transmit e # acts) = frame_free (held \<or> e = ESP_OK) acts"
| "frame_free held (Write_Frame i bs # acts) = (\<not> held \<and> frame_free held acts)"

text \<open>The frames the driver accepted, with the bytes that were in the buffer.\<close>

fun accepted_frames :: "(u32 \<times> u8 list) option \<Rightarrow> tx_action list \<Rightarrow> (u32 \<times> u8 list) list" where
  "accepted_frames buf [] = []"
| "accepted_frames buf (Wait_All_Done e # acts) = accepted_frames buf acts"
| "accepted_frames buf (Write_Frame i bs # acts) = accepted_frames (Some (i, bs)) acts"
| "accepted_frames buf (Transmit e # acts) =
     (case buf of Some f \<Rightarrow> (if e = ESP_OK then [f] else []) | None \<Rightarrow> []) @ accepted_frames buf acts"

lemma in_flight_append: "in_flight held (a @ b) = in_flight (in_flight held a) b"
  by (induction held a rule: in_flight.induct) auto

lemma frame_free_append: "frame_free held (a @ b) \<longleftrightarrow> frame_free held a \<and> frame_free (in_flight held a) b"
  by (induction held a rule: in_flight.induct) auto

lemma send_locked_safe:
  assumes "send_locked env i bs len tx = (e, acts, tx')" and "\<not> tx_pending tx"
  shows "frame_free False acts \<and> in_flight False acts = tx_pending tx'"
  using assms by (auto simp: send_locked_def Let_def split: if_splits)

lemma send_locked_accepts:
  assumes "send_locked env i bs len tx = (ESP_OK, acts, tx')" and "unat len \<le> length bs"
  shows "accepted_frames buf acts = [(i, take (unat len) bs)]"
  using assms by (auto simp: send_locked_def Let_def split: if_splits)

fun last_write :: "(u32 \<times> u8 list) option \<Rightarrow> tx_action list \<Rightarrow> (u32 \<times> u8 list) option" where
  "last_write buf [] = buf"
| "last_write buf (Write_Frame i bs # acts) = last_write (Some (i, bs)) acts"
| "last_write buf (Wait_All_Done e # acts) = last_write buf acts"
| "last_write buf (Transmit e # acts) = last_write buf acts"

lemma accepted_frames_append:
  "accepted_frames buf (a @ b) = accepted_frames buf a @ accepted_frames (last_write buf a) b"
  by (induction buf a rule: last_write.induct) auto

text \<open>A run of sends by any of the tasks; the mutex makes them follow one another.\<close>

type_synonym port_send = "tx_env \<Rightarrow> u32 \<Rightarrow> u8 list option \<Rightarrow> u8 \<Rightarrow> can_tx \<Rightarrow> esp_err \<times> tx_action list \<times> can_tx"

type_synonym tx_call = "tx_env \<times> u32 \<times> u8 list option \<times> u8"

fun tx_run :: "port_send \<Rightarrow> tx_call list \<Rightarrow> can_tx \<Rightarrow> tx_action list \<times> can_tx" where
  "tx_run send [] tx = ([], tx)"
| "tx_run send ((env, i, p, len) # calls) tx =
     (case send env i p len tx of
        (e, acts, tx) \<Rightarrow> (case tx_run send calls tx of (acts', tx) \<Rightarrow> (acts @ acts', tx)))"

definition given_bytes :: "u8 list option \<Rightarrow> u8 list" where
  "given_bytes p = (case p of None \<Rightarrow> [] | Some bytes \<Rightarrow> bytes)"

lemma given_bytes_simps [simp]: "given_bytes None = []" "given_bytes (Some bytes) = bytes"
  by (simp_all add: given_bytes_def)

locale retained_frame_port =
  fixes send :: port_send
  assumes send_safe: "send env i p len tx = (e, acts, tx') \<Longrightarrow>
      frame_free (tx_pending tx) acts \<and> in_flight (tx_pending tx) acts = tx_pending tx'"
    and send_accepts: "send env i p len tx = (ESP_OK, acts, tx') \<Longrightarrow> unat len \<le> length (given_bytes p) \<Longrightarrow>
      accepted_frames buf acts = [(i, take (unat len) (given_bytes p))]"
begin

lemma run_safe:
  "tx_run send calls tx = (acts, tx') \<Longrightarrow>
   frame_free (tx_pending tx) acts \<and> in_flight (tx_pending tx) acts = tx_pending tx'"
proof (induction calls arbitrary: tx acts)
  case (Cons call calls)
  obtain env i p len where call: "call = (env, i, p, len)" by (metis prod_cases4)
  obtain e a1 tx1 where s: "send env i p len tx = (e, a1, tx1)" by (metis prod_cases3)
  obtain a2 tx2 where r: "tx_run send calls tx1 = (a2, tx2)" by fastforce
  have "acts = a1 @ a2" and "tx' = tx2" using Cons.prems call s r by auto
  then show ?case using Cons.IH [of tx1 a2] r send_safe [OF s] by (simp add: frame_free_append in_flight_append)
qed simp

lemma run_from_boot:
  "frame_free False (fst (tx_run send calls can_tx_boot)) \<and>
   tx_pending (snd (tx_run send calls can_tx_boot)) = in_flight False (fst (tx_run send calls can_tx_boot))"
proof -
  obtain acts tx where "tx_run send calls can_tx_boot = (acts, tx)" by fastforce
  from this run_safe [OF this] show ?thesis by (simp add: can_tx_boot_def)
qed

end

subsection \<open>Bus-off recovery\<close>

datatype twai_error_state = TWAI_ERROR_ACTIVE | TWAI_ERROR_WARNING | TWAI_ERROR_PASSIVE | TWAI_ERROR_BUS_OFF

text \<open>\<open>state_name\<close> of both firmwares; the model has no other states.\<close>

primrec twai_state_name :: "twai_error_state \<Rightarrow> string" where
  "twai_state_name TWAI_ERROR_ACTIVE = ''active''"
| "twai_state_name TWAI_ERROR_WARNING = ''warning''"
| "twai_state_name TWAI_ERROR_PASSIVE = ''passive''"
| "twai_state_name TWAI_ERROR_BUS_OFF = ''bus-off''"

text \<open>What one round of the recovery task meets; \<open>poll_ticks\<close> is the tick counter.\<close>

record poll_env =
  poll_generation :: u32
  info_result :: esp_err
  info_state :: twai_error_state
  recover_result :: esp_err
  poll_ticks :: u32

text \<open>The calls of \<open>twai_node_recover\<close> in a run of polls.\<close>

fun recovery_requests ::
  "((nat \<Rightarrow> u32) \<Rightarrow> 'e \<Rightarrow> 'r \<Rightarrow> bool \<times> 'l \<times> 'r) \<Rightarrow> (nat \<Rightarrow> u32) \<Rightarrow> 'e list \<Rightarrow> 'r \<Rightarrow> bool list" where
  "recovery_requests poll pd [] r = []"
| "recovery_requests poll pd (env # envs) r =
     (case poll pd env r of (called, out, r) \<Rightarrow> called # recovery_requests poll pd envs r)"

text \<open>The specification: ask at every readable poll until the driver accepts, then never again.\<close>

fun ask_until_accepted :: "'e poll_env_scheme list \<Rightarrow> bool list" where
  "ask_until_accepted [] = []"
| "ask_until_accepted (env # envs) =
     (info_result env = ESP_OK) #
     (if info_result env = ESP_OK \<and> recover_result env = ESP_OK
      then replicate (length envs) False else ask_until_accepted envs)"

text \<open>A stretch of polls during one bus-off: unreadable, or bus-off with the same generation.\<close>

definition one_bus_off :: "u32 \<Rightarrow> 'e poll_env_scheme list \<Rightarrow> bool" where
  "one_bus_off g envs \<longleftrightarrow> (\<forall>env \<in> set envs. info_result env = ESP_OK \<longrightarrow>
     info_state env = TWAI_ERROR_BUS_OFF \<and> poll_generation env = g)"

locale bus_off_recovery =
  fixes poll :: "(nat \<Rightarrow> u32) \<Rightarrow> 'e poll_env_scheme \<Rightarrow> 'r \<Rightarrow> bool \<times> 'l \<times> 'r"
    and recovering :: "'r \<Rightarrow> bool"
    and generation :: "'r \<Rightarrow> u32"
  assumes unreadable: "poll pd env r = (c, out, r') \<Longrightarrow> info_result env \<noteq> ESP_OK \<Longrightarrow>
      \<not> c \<and> recovering r' = recovering r \<and> generation r' = generation r"
    and pending: "poll pd env r = (c, out, r') \<Longrightarrow> info_result env = ESP_OK \<Longrightarrow>
      info_state env = TWAI_ERROR_BUS_OFF \<Longrightarrow> recovering r \<Longrightarrow> generation r = poll_generation env \<Longrightarrow>
      \<not> c \<and> recovering r' \<and> generation r' = generation r"
    and request: "poll pd env r = (c, out, r') \<Longrightarrow> info_result env = ESP_OK \<Longrightarrow>
      info_state env = TWAI_ERROR_BUS_OFF \<Longrightarrow> \<not> recovering r \<or> generation r \<noteq> poll_generation env \<Longrightarrow>
      c \<and> recovering r' = (recover_result env = ESP_OK) \<and> (recovering r' \<longrightarrow> generation r' = poll_generation env)"
begin

lemma quiet:
  "one_bus_off g envs \<Longrightarrow> recovering r \<Longrightarrow> generation r = g \<Longrightarrow>
   recovery_requests poll pd envs r = replicate (length envs) False"
proof (induction envs arbitrary: r)
  case (Cons env envs)
  obtain c l r' where p: "poll pd env r = (c, l, r')" by (metis prod_cases3)
  have "\<not> c \<and> recovering r' \<and> generation r' = g"
    using unreadable [OF p] pending [OF p] Cons.prems
    by (cases "info_result env = ESP_OK") (auto simp: one_bus_off_def)
  then show ?case using Cons p by (simp add: one_bus_off_def)
qed simp

lemma asks:
  "one_bus_off g envs \<Longrightarrow> \<not> recovering r \<or> generation r \<noteq> g \<Longrightarrow>
   recovery_requests poll pd envs r = ask_until_accepted envs"
proof (induction envs arbitrary: r)
  case (Cons env envs)
  obtain c l r' where p: "poll pd env r = (c, l, r')" by (metis prod_cases3)
  have rest: "one_bus_off g envs" using Cons.prems(1) by (simp add: one_bus_off_def)
  show ?case
  proof (cases "info_result env = ESP_OK")
    case False
    then show ?thesis using unreadable [OF p] Cons.IH [OF rest, of r'] Cons.prems(2) p by simp
  next
    case True
    then have e: "info_state env = TWAI_ERROR_BUS_OFF" "poll_generation env = g"
      using Cons.prems(1) by (simp_all add: one_bus_off_def)
    then have r: "c \<and> recovering r' = (recover_result env = ESP_OK) \<and> (recovering r' \<longrightarrow> generation r' = g)"
      using request [OF p True] Cons.prems(2) by simp
    show ?thesis
      using r True p quiet [OF rest, of r'] Cons.IH [OF rest, of r']
      by (cases "recover_result env = ESP_OK") simp_all
  qed
qed simp

end

end
