(* ===== verification/Can_Master.thy ===== *)
theory Can_Master
  imports Twai_Port Rtos_Queue "HOL-Library.Sublist"
begin

text \<open>
  The master's CAN port, \<open>can/can_master.c\<close>: transmission through the retained frame of
  \<open>Twai_Port\<close>, command bursts, reception from the interrupt into a queue and from the queue to
  the application, and the bus-off recovery task.
\<close>

definition CAN_RX_QUEUE_LENGTH :: nat where "CAN_RX_QUEUE_LENGTH = 256"
definition CAN_COMMAND_REPEAT_COUNT :: nat where "CAN_COMMAND_REPEAT_COUNT = 5"
definition CAN_RECOVERY_WARN_MS :: nat where "CAN_RECOVERY_WARN_MS = 5000"

subsection \<open>Transmission\<close>

definition can_master_send ::
  "tx_env \<Rightarrow> u32 \<Rightarrow> u8 list option \<Rightarrow> u8 \<Rightarrow> can_tx \<Rightarrow> esp_err \<times> tx_action list \<times> can_tx" where
  "can_master_send env frame_id payload len tx =
     (if len > 8 \<or> (len > 0 \<and> payload = None) then (ESP_ERR_INVALID_ARG, [], tx)
      else if \<not> mutex_taken env then (ESP_ERR_TIMEOUT, [], tx)
      else let bytes = (case payload of None \<Rightarrow> [] | Some bytes \<Rightarrow> bytes)
           in if tx_pending tx
              then if drain_result env \<noteq> ESP_OK
                   then (drain_result env, [Wait_All_Done (drain_result env)], tx)
                   else (case send_locked env frame_id bytes len (tx\<lparr>tx_pending := False\<rparr>) of
                           (error, acts, tx') \<Rightarrow> (error, Wait_All_Done (drain_result env) # acts, tx'))
              else send_locked env frame_id bytes len tx)"

text \<open>
  \<open>send_command_burst\<close>: the first argument gives the environments of its attempts, one per
  attempt (\<open>CAN_COMMAND_REPEAT_COUNT\<close> of them).
\<close>

fun burst_attempts ::
  "tx_env list \<Rightarrow> u32 \<Rightarrow> esp_err \<Rightarrow> can_tx \<Rightarrow> esp_err \<times> tx_action list \<times> can_tx" where
  "burst_attempts [] frame_id first_error tx = (first_error, [], tx)"
| "burst_attempts (env # envs) frame_id first_error tx =
     (case can_master_send env frame_id None 0 tx of
        (error, acts, tx) \<Rightarrow>
          (case burst_attempts envs frame_id
                  (if error \<noteq> ESP_OK \<and> first_error = ESP_OK then error else first_error) tx of
             (result, acts', tx) \<Rightarrow> (result, acts @ acts', tx)))"

definition send_command_burst ::
  "(nat \<Rightarrow> tx_env) \<Rightarrow> u32 \<Rightarrow> can_tx \<Rightarrow> esp_err \<times> tx_action list \<times> can_tx" where
  "send_command_burst env frame_id tx =
     burst_attempts (map env [0..<CAN_COMMAND_REPEAT_COUNT]) frame_id ESP_OK tx"

definition can_master_start_nodes :: "(nat \<Rightarrow> tx_env) \<Rightarrow> can_tx \<Rightarrow> esp_err \<times> tx_action list \<times> can_tx" where
  "can_master_start_nodes env tx = send_command_burst env CAN_ID_START tx"

definition can_master_stop_nodes :: "(nat \<Rightarrow> tx_env) \<Rightarrow> can_tx \<Rightarrow> esp_err \<times> tx_action list \<times> can_tx" where
  "can_master_stop_nodes env tx = send_command_burst env CAN_ID_STOP tx"

lemma can_master_send_refused:
  "len > 8 \<or> (len > 0 \<and> p = None) \<or> \<not> mutex_taken env \<Longrightarrow>
   can_master_send env i p len tx =
     (if len > 8 \<or> (len > 0 \<and> p = None) then ESP_ERR_INVALID_ARG else ESP_ERR_TIMEOUT, [], tx)"
  by (auto simp: can_master_send_def)

lemma can_master_send_cases:
  assumes "can_master_send env i p len tx = (e, acts, tx')"
  obtains (refused) "e \<noteq> ESP_OK" and "acts = []" and "tx' = tx"
  | (busy) "tx_pending tx" and "e \<noteq> ESP_OK" and "acts = [Wait_All_Done e]" and "tx' = tx"
  | (drained) acts' where "tx_pending tx" and "acts = Wait_All_Done ESP_OK # acts'"
      and "send_locked env i (case p of None \<Rightarrow> [] | Some bs \<Rightarrow> bs) len (tx\<lparr>tx_pending := False\<rparr>) = (e, acts', tx')"
  | (fresh) "\<not> tx_pending tx"
      and "send_locked env i (case p of None \<Rightarrow> [] | Some bs \<Rightarrow> bs) len tx = (e, acts, tx')"
proof (cases "len > 8 \<or> (len > 0 \<and> p = None) \<or> \<not> mutex_taken env")
  case True
  then show ?thesis using assms refused by (auto simp: can_master_send_refused split: if_splits)
next
  case False
  let ?bs = "case p of None \<Rightarrow> [] | Some bs \<Rightarrow> bs"
  obtain e1 a1 t1 where l: "send_locked env i ?bs len (tx\<lparr>tx_pending := False\<rparr>) = (e1, a1, t1)"
    by (metis prod_cases3)
  from False have g: "\<not> (len > 8 \<or> (len > 0 \<and> p = None))" "mutex_taken env" by blast+
  have "can_master_send env i p len tx =
     (if tx_pending tx
      then if drain_result env \<noteq> ESP_OK then (drain_result env, [Wait_All_Done (drain_result env)], tx)
           else (e1, Wait_All_Done (drain_result env) # a1, t1)
      else send_locked env i ?bs len tx)"
    unfolding can_master_send_def Let_def using g(2) l by (simp only: g(1) if_False not_True_eq_False) simp
  then show ?thesis using assms l busy drained fresh by (simp split: if_splits)
qed

lemma can_master_send_safe:
  assumes "can_master_send env i p len tx = (e, acts, tx')"
  shows "frame_free (tx_pending tx) acts \<and> in_flight (tx_pending tx) acts = tx_pending tx'"
  using assms
proof (cases rule: can_master_send_cases)
  case (drained acts')
  then show ?thesis using send_locked_safe [OF drained(3)] by simp
next
  case fresh
  then show ?thesis using send_locked_safe [OF fresh(2)] by simp
qed simp_all

lemma can_master_send_accepts:
  assumes "can_master_send env i p len tx = (ESP_OK, acts, tx')" and "unat len \<le> length (given_bytes p)"
  shows "accepted_frames buf acts = [(i, take (unat len) (given_bytes p))]"
  using assms(1)
  by (cases rule: can_master_send_cases) (use assms(2) send_locked_accepts in \<open>auto simp: given_bytes_def\<close>)

text \<open>Whatever its result, a call puts no other frame on the bus than the one it was given.\<close>

lemma can_master_send_frames:
  assumes "can_master_send env i p len tx = (e, acts, tx')" and "unat len \<le> length (given_bytes p)"
  shows "set (accepted_frames buf acts) \<subseteq> {(i, take (unat len) (given_bytes p))}"
  using assms(1)
  by (cases rule: can_master_send_cases)
    (use assms(2) in \<open>auto simp: send_locked_def given_bytes_def Let_def split: if_splits option.splits\<close>)

interpretation master_port: retained_frame_port can_master_send
  by unfold_locales (rule can_master_send_safe, assumption, rule can_master_send_accepts)

text \<open>
  C26: The transmit buffer is never overwritten while the driver holds it.  Whatever the tasks send,
  whatever the driver and the mutex answer, timeouts included, no call writes the retained frame
  between the driver accepting it and reporting all transmissions done; and \<open>tx_pending\<close> tells
  exactly whether the driver still holds the frame.
\<close>

theorem tx_frame_not_overwritten_in_flight:
  "frame_free False (fst (tx_run can_master_send calls can_tx_boot)) \<and>
   tx_pending (snd (tx_run can_master_send calls can_tx_boot)) =
     in_flight False (fst (tx_run can_master_send calls can_tx_boot))"
  by (rule master_port.run_from_boot)

subsection \<open>Command bursts\<close>

text \<open>The results of the attempts of a burst, in order.\<close>

fun attempt_errors :: "tx_env list \<Rightarrow> u32 \<Rightarrow> can_tx \<Rightarrow> esp_err list" where
  "attempt_errors [] i tx = []"
| "attempt_errors (env # envs) i tx =
     (case can_master_send env i None 0 tx of (e, acts, tx) \<Rightarrow> e # attempt_errors envs i tx)"

lemma length_attempt_errors [simp]: "length (attempt_errors envs i tx) = length envs"
  by (induction envs i tx rule: attempt_errors.induct) (simp_all split: prod.split)

text \<open>The first element that is not \<open>ESP_OK\<close>.\<close>

fun first_failure :: "esp_err list \<Rightarrow> esp_err" where
  "first_failure [] = ESP_OK"
| "first_failure (e # es) = (if e = ESP_OK then first_failure es else e)"

lemma first_failure_ok: "first_failure es = ESP_OK \<longleftrightarrow> (\<forall>e \<in> set es. e = ESP_OK)"
  by (induction es) auto

lemma burst_result:
  "fst (burst_attempts envs i e0 tx) =
     (if e0 = ESP_OK then first_failure (attempt_errors envs i tx) else e0)"
  by (induction envs arbitrary: e0 tx) (simp_all add: split_beta)

lemma burst_frames:
  assumes "burst_attempts envs i e0 tx = (ESP_OK, acts, tx')"
  shows "accepted_frames buf acts = replicate (length envs) (i, []) \<and> e0 = ESP_OK"
  using assms
proof (induction envs arbitrary: e0 tx acts buf)
  case (Cons env envs)
  obtain e a1 tx1 where s: "can_master_send env i None 0 tx = (e, a1, tx1)" by (metis prod_cases3)
  let ?e = "if e \<noteq> ESP_OK \<and> e0 = ESP_OK then e else e0"
  obtain r a2 tx2 where b: "burst_attempts envs i ?e tx1 = (r, a2, tx2)" by (metis prod_cases3)
  have acts: "acts = a1 @ a2" and "burst_attempts envs i ?e tx1 = (ESP_OK, a2, tx')"
    using Cons.prems s b by auto
  from Cons.IH [OF this(2)]
  have rest: "accepted_frames buf' a2 = replicate (length envs) (i, [])" and "?e = ESP_OK" for buf'
    by blast+
  then have "e0 = ESP_OK" and "e = ESP_OK" by (auto split: if_splits)
  then have "accepted_frames buf a1 = [(i, [])]" using master_port.send_accepts [of env i None 0 tx a1 tx1] s by simp
  then show ?case using rest \<open>e0 = ESP_OK\<close> by (simp add: acts accepted_frames_append)
qed simp

lemma burst_commands: "set (accepted_frames buf (fst (snd (burst_attempts envs i e0 tx)))) \<subseteq> {(i, [])}"
proof (induction envs arbitrary: e0 tx buf)
  case (Cons env envs)
  obtain e acts tx1 where s: "can_master_send env i None 0 tx = (e, acts, tx1)" by (metis prod_cases3)
  show ?case
    using can_master_send_frames [OF s] Cons.IH
    by (fastforce simp: s accepted_frames_append split_beta)
qed simp

text \<open>
  Starting and stopping the nodes.  A burst makes five attempts whatever happens to each of
  them and reports the first failure; when it reports success the driver has accepted exactly
  five empty frames with the command's identifier.
\<close>

lemma start_burst_reports_first_error:
  "fst (can_master_start_nodes env tx) =
     first_failure (attempt_errors (map env [0..<5]) CAN_ID_START tx) \<and>
   (can_master_start_nodes env tx = (ESP_OK, acts, tx') \<longrightarrow>
     accepted_frames None acts = replicate 5 (CAN_ID_START, []))"
  using burst_result [of "map env [0..<5]" CAN_ID_START ESP_OK tx]
    burst_frames [of "map env [0..<5]" CAN_ID_START ESP_OK tx acts tx' None]
  by (simp only: can_master_start_nodes_def send_command_burst_def CAN_COMMAND_REPEAT_COUNT_def) simp

subsection \<open>Reception\<close>

record 'q can_rx =
  rx_queue :: 'q
  rx_drops :: u32

text \<open>
  \<open>receive_callback\<close>: what the driver read is an argument, None when it reported an error; the
  message goes to the queue or is counted as dropped.
\<close>

definition receive_callback ::
  "('q, can_message) queue_api \<Rightarrow> (u32 \<times> u16 \<times> u8 list) option \<Rightarrow> 'q can_rx \<Rightarrow> 'q can_rx" where
  "receive_callback Q frame rx =
     (case frame of
        None \<Rightarrow> rx
      | Some (frame_id, frame_dlc, bytes) \<Rightarrow>
          (case xQueueSend Q (rx_queue rx) (received_message frame_id frame_dlc bytes) of
             None \<Rightarrow> rx\<lparr>rx_drops := rx_drops rx + 1\<rparr>
           | Some q \<Rightarrow> rx\<lparr>rx_queue := q\<rparr>))"

text \<open>One round of \<open>dispatch_task\<close>: the message it hands to the application, if one was waiting.\<close>

definition dispatch_message ::
  "('q, can_message) queue_api \<Rightarrow> 'q can_rx \<Rightarrow> can_message option \<times> 'q can_rx" where
  "dispatch_message Q rx =
     (case xQueueReceive Q (rx_queue rx) of
        None \<Rightarrow> (None, rx)
      | Some (m, q) \<Rightarrow> (Some m, rx\<lparr>rx_queue := q\<rparr>))"

datatype rx_event = Frame_Received "(u32 \<times> u16 \<times> u8 list) option" | Dispatch

definition can_master_rx_drop_count :: "'q can_rx \<Rightarrow> u32" where
  "can_master_rx_drop_count rx = rx_drops rx"

fun rx_step ::
  "('q, can_message) queue_api \<Rightarrow> rx_event \<Rightarrow> can_message list \<times> 'q can_rx \<Rightarrow> can_message list \<times> 'q can_rx" where
  "rx_step Q (Frame_Received f) (handled, rx) = (handled, receive_callback Q f rx)"
| "rx_step Q Dispatch (handled, rx) =
     (case dispatch_message Q rx of (None, rx) \<Rightarrow> (handled, rx) | (Some m, rx) \<Rightarrow> (handled @ [m], rx))"

definition rx_run ::
  "('q, can_message) queue_api \<Rightarrow> rx_event list \<Rightarrow> 'q \<Rightarrow> can_message list \<times> 'q can_rx" where
  "rx_run Q evs q0 = fold (rx_step Q) evs ([], \<lparr>rx_queue = q0, rx_drops = 0\<rparr>)"

fun arrival :: "rx_event \<Rightarrow> can_message list" where
  "arrival (Frame_Received (Some (i, d, bs))) = [received_message i d bs]"
| "arrival _ = []"

definition arrivals :: "rx_event list \<Rightarrow> can_message list" where
  "arrivals evs = concat (map arrival evs)"

lemma rx_run_snoc: "rx_run Q (evs @ [e]) q0 = rx_step Q e (rx_run Q evs q0)"
  by (simp add: rx_run_def)

lemma arrivals_snoc: "arrivals (evs @ [e]) = arrivals evs @ arrival e"
  by (simp add: arrivals_def)

text \<open>What one event does to the messages handled or waiting, \<open>log\<close>.\<close>

lemma rx_step_log:
  assumes "rtos_queue Q cap items" and "rx_step Q e (h, rx) = (h', rx')"
  shows "(h' @ items (rx_queue rx') = h @ items (rx_queue rx) @ arrival e \<and> rx_drops rx' = rx_drops rx) \<or>
    (\<exists>m. arrival e = [m] \<and> length (items (rx_queue rx)) = cap \<and> h' = h \<and>
       rx_queue rx' = rx_queue rx \<and> rx_drops rx' = rx_drops rx + 1)"
proof (cases "(Q, e, h, rx)" rule: rx_step.cases)
  case (1 Q' f)
  show ?thesis
  proof (cases f)
    case None
    then show ?thesis using 1 assms(2) by (auto simp: receive_callback_def)
  next
    case (Some f')
    obtain i d bs where f': "f' = (i, d, bs)" by (cases f')
    show ?thesis
      using 1 Some f' assms(2) rtos_queue.sendD [OF assms(1), of "rx_queue rx"]
        rtos_queue.send_NoneD [OF assms(1), of "rx_queue rx"]
      by (fastforce simp: receive_callback_def split: option.splits)
  qed
next
  case (2 Q')
  then show ?thesis
    using assms(2) rtos_queue.receiveD [OF assms(1), of "rx_queue rx"]
    by (fastforce simp: dispatch_message_def split: option.splits prod.splits)
qed

lemma rx_run_accounts:
  assumes "rtos_queue Q cap items" and "items q0 = []"
  shows "subseq (fst (rx_run Q evs q0) @ items (rx_queue (snd (rx_run Q evs q0)))) (arrivals evs) \<and>
    rx_drops (snd (rx_run Q evs q0)) = word_of_nat (length (arrivals evs)
      - length (fst (rx_run Q evs q0) @ items (rx_queue (snd (rx_run Q evs q0)))))"
proof (induction evs rule: rev_induct)
  case Nil
  then show ?case using assms(2) by (simp add: rx_run_def arrivals_def)
next
  case (snoc e evs)
  obtain h rx where r: "rx_run Q evs q0 = (h, rx)" by fastforce
  obtain h' rx' where st: "rx_step Q e (h, rx) = (h', rx')" by fastforce
  have r': "rx_run Q (evs @ [e]) q0 = (h', rx')" by (simp add: rx_run_snoc r st)
  let ?kept = "h @ items (rx_queue rx)" and ?kept' = "h' @ items (rx_queue rx')"
  have sub: "subseq ?kept (arrivals evs)"
    and drops: "rx_drops rx = word_of_nat (length (arrivals evs) - length ?kept)"
    using snoc r by simp_all
  have le: "length ?kept \<le> length (arrivals evs)" using sub by (rule list_emb_length)
  from rx_step_log [OF assms(1) st] show ?case
  proof (elim disjE exE conjE)
    assume k: "?kept' = h @ items (rx_queue rx) @ arrival e" and "rx_drops rx' = rx_drops rx"
    have "subseq (?kept @ arrival e) (arrivals evs @ arrival e)"
      by (rule list_emb_append_mono [OF sub subseq_order.refl])
    moreover have "length (arrivals evs @ arrival e) - length (?kept @ arrival e)
        = length (arrivals evs) - length ?kept" by simp
    ultimately show ?thesis using drops k \<open>rx_drops rx' = _\<close> by (simp add: r' arrivals_snoc)
  next
    fix m assume m: "arrival e = [m]" and "h' = h" "rx_queue rx' = rx_queue rx" "rx_drops rx' = rx_drops rx + 1"
    then have k: "?kept' = ?kept" by simp
    have "subseq ?kept (arrivals evs @ [m])" using sub by (rule list_emb_prefix)
    moreover have "length (arrivals evs @ [m]) - length ?kept = Suc (length (arrivals evs) - length ?kept)"
      using le by simp
    ultimately show ?thesis using drops m k \<open>rx_drops rx' = _\<close>
      by (simp only: r' fst_conv snd_conv arrivals_snoc of_nat_Suc add.commute simp_thms)
  qed
qed

lemma rx_run_lossless:
  assumes "rtos_queue Q cap items" and "items q0 = []"
    and "\<forall>evs'. strict_prefix evs' evs \<longrightarrow> length (arrivals evs') < cap + length (fst (rx_run Q evs' q0))"
  shows "fst (rx_run Q evs q0) @ items (rx_queue (snd (rx_run Q evs q0))) = arrivals evs"
  using assms(3)
proof (induction evs rule: rev_induct)
  case Nil
  then show ?case using assms(2) by (simp add: rx_run_def arrivals_def)
next
  case (snoc e evs)
  obtain h rx where r: "rx_run Q evs q0 = (h, rx)" by fastforce
  obtain h' rx' where st: "rx_step Q e (h, rx) = (h', rx')" by fastforce
  have pre: "strict_prefix evs' (evs @ [e])" if "strict_prefix evs' evs \<or> evs' = evs" for evs'
    using that by (auto simp: strict_prefix_def)
  have kept: "h @ items (rx_queue rx) = arrivals evs" using snoc pre r by simp
  have "length (arrivals evs) < cap + length h" using snoc.prems pre [of evs] r by fastforce
  then have "length (items (rx_queue rx)) \<noteq> cap" unfolding kept [symmetric] by simp
  with rx_step_log [OF assms(1) st] have "h' @ items (rx_queue rx') = h @ items (rx_queue rx) @ arrival e"
    by blast
  then show ?case by (simp add: rx_run_snoc r st arrivals_snoc flip: kept)
qed

text \<open>
  C13: Reception loses nothing silently.  For any interleaving of receive interrupts and dispatch
  rounds, on any queue of 256 messages that was empty: the messages handed to the application,
  then those still waiting, are the received ones in order, less those dropped; the drop counter
  is their number (modulo 2 to the 32); and if fewer than 256 messages were outstanding before
  every event, nothing is dropped.
\<close>

theorem reception_in_order_drops_counted:
  assumes "rtos_queue Q CAN_RX_QUEUE_LENGTH items" and "items q0 = []"
    and "rx_run Q evs q0 = (handled, rx)"
  shows "subseq (handled @ items (rx_queue rx)) (arrivals evs) \<and>
    can_master_rx_drop_count rx =
      word_of_nat (length (arrivals evs) - length (handled @ items (rx_queue rx))) \<and>
    ((\<forall>evs'. strict_prefix evs' evs \<longrightarrow>
        length (arrivals evs') < CAN_RX_QUEUE_LENGTH + length (fst (rx_run Q evs' q0))) \<longrightarrow>
      handled @ items (rx_queue rx) = arrivals evs)"
  using rx_run_accounts [OF assms(1,2), of evs] rx_run_lossless [OF assms(1,2), of evs] assms(3)
  unfolding can_master_rx_drop_count_def by auto

theorem reception_in_order_drops_counted_witness:
  "\<exists>handled rx. rx_run (list_queue CAN_RX_QUEUE_LENGTH)
       [Frame_Received (Some (0x0B1, 8, replicate 8 1)), Dispatch] [] = (handled, rx) \<and>
     subseq (handled @ blist_rep CAN_RX_QUEUE_LENGTH (rx_queue rx)) [received_message 0x0B1 8 (replicate 8 1)]"
proof -
  let ?Q = "list_queue CAN_RX_QUEUE_LENGTH :: (can_message list, can_message) queue_api"
  let ?evs = "[Frame_Received (Some (0x0B1, 8, replicate 8 1)), Dispatch]"
  obtain h rx where r: "rx_run ?Q ?evs [] = (h, rx)" by fastforce
  have "blist_rep CAN_RX_QUEUE_LENGTH [] = ([] :: can_message list)" by (simp add: blist_rep_def)
  from reception_in_order_drops_counted [OF listq.rtos_queue_axioms this r]
  have "subseq (h @ blist_rep CAN_RX_QUEUE_LENGTH (rx_queue rx)) (arrivals ?evs)" by blast
  then show ?thesis using r by (auto simp: arrivals_def)
qed

subsection \<open>Bus-off recovery\<close>

text \<open>\<open>state_change_callback\<close> counts bus-off events in \<open>bus_off_generation\<close>.\<close>

definition state_change_callback :: "twai_error_state \<Rightarrow> u32 \<Rightarrow> u32" where
  "state_change_callback new_sta bus_off_generation =
     (if new_sta = TWAI_ERROR_BUS_OFF then bus_off_generation + 1 else bus_off_generation)"

record recovery =
  rc_recovering :: bool
  rc_generation :: u32
  rc_warning_at :: u32
  rc_previous :: twai_error_state

definition recovery_boot :: recovery where
  "recovery_boot = \<lparr>rc_recovering = False, rc_generation = 0, rc_warning_at = 0,
     rc_previous = TWAI_ERROR_ACTIVE\<rparr>"

datatype recovery_log = State_Change twai_error_state twai_error_state | Recovery_Started
  | Recovery_Refused esp_err | Recovered twai_error_state | Still_Waiting | Status_Failed esp_err

text \<open>One round: whether \<open>twai_node_recover\<close> was called, the log lines, and the new state.\<close>

definition recovery_poll ::
  "(nat \<Rightarrow> u32) \<Rightarrow> poll_env \<Rightarrow> recovery \<Rightarrow> bool \<times> recovery_log list \<times> recovery" where
  "recovery_poll pd env r =
     (if info_result env \<noteq> ESP_OK then (False, [Status_Failed (info_result env)], r)
      else
        let changed = (if info_state env \<noteq> rc_previous r then [State_Change (rc_previous r) (info_state env)] else []);
            r = r\<lparr>rc_previous := info_state env\<rparr>
        in if info_state env = TWAI_ERROR_BUS_OFF
              \<and> (\<not> rc_recovering r \<or> poll_generation env \<noteq> rc_generation r)
           then if recover_result env = ESP_OK
                then (True, changed @ [Recovery_Started],
                      r\<lparr>rc_recovering := True, rc_generation := poll_generation env,
                        rc_warning_at := poll_ticks env\<rparr>)
                else (True, changed @ [Recovery_Refused (recover_result env)], r\<lparr>rc_recovering := False\<rparr>)
           else if rc_recovering r \<and> info_state env \<noteq> TWAI_ERROR_BUS_OFF
           then (False, changed @ [Recovered (info_state env)], r\<lparr>rc_recovering := False\<rparr>)
           else if rc_recovering r \<and> poll_ticks env - rc_warning_at r \<ge> pd CAN_RECOVERY_WARN_MS
           then (False, changed @ [Still_Waiting], r\<lparr>rc_warning_at := poll_ticks env\<rparr>)
           else (False, changed, r))"

interpretation master_recovery: bus_off_recovery recovery_poll rc_recovering rc_generation
  by unfold_locales (auto simp: recovery_poll_def Let_def split: if_splits)

text \<open>
  Bus-off recovery.  When the node is found in a bus-off for which no recovery is under way, be it
  the first or a later one that struck while an earlier recovery was still pending, the task
  asks the driver to recover at every round in which the status can be read until one request
  is accepted, and does not ask again while that bus-off lasts.
\<close>

lemma bus_off_recovery_requested_once:
  assumes "one_bus_off (state_change_callback TWAI_ERROR_BUS_OFF g) envs"
    and "rc_recovering r \<longrightarrow> rc_generation r = g"
  shows "recovery_requests recovery_poll pd envs r = ask_until_accepted envs"
  using master_recovery.asks [OF assms(1), of r pd] assms(2)
  by (auto simp: state_change_callback_def)

subsection \<open>Status and initialisation\<close>

text \<open>
  The error counters: the result and what is stored through the two pointers, which a NULL
  pointer (\<open>False\<close>) rules out; \<open>handle\<close> tells whether the node exists.
\<close>

definition can_master_error_counts ::
  "bool \<Rightarrow> bool \<Rightarrow> bool \<Rightarrow> esp_err \<Rightarrow> u32 \<times> u32 \<Rightarrow> esp_err \<times> (u32 \<times> u32) option" where
  "can_master_error_counts rx_given tx_given handle info counts =
     (if \<not> rx_given \<or> \<not> tx_given then (ESP_ERR_INVALID_ARG, None)
      else if \<not> handle then (ESP_ERR_INVALID_STATE, Some (0, 0))
      else if info = ESP_OK then (info, Some counts)
      else (info, Some (0, 0)))"

record init_env =
  queue_created :: bool
  mutex_created :: bool
  new_node_result :: esp_err
  register_result :: esp_err
  enable_result :: esp_err
  recovery_task_created :: bool
  dispatch_task_created :: bool

definition can_master_init :: "bool \<Rightarrow> init_env \<Rightarrow> esp_err" where
  "can_master_init handler_given env =
     (if \<not> handler_given then ESP_ERR_INVALID_ARG
      else if \<not> queue_created env \<or> \<not> mutex_created env then ESP_ERR_NO_MEM
      else if new_node_result env \<noteq> ESP_OK then new_node_result env
      else if register_result env \<noteq> ESP_OK then register_result env
      else if enable_result env \<noteq> ESP_OK then enable_result env
      else if \<not> recovery_task_created env \<or> \<not> dispatch_task_created env then ESP_ERR_NO_MEM
      else ESP_OK)"

lemma can_master_init_ok:
  "can_master_init given env = ESP_OK \<longleftrightarrow> given \<and> queue_created env \<and> mutex_created env \<and>
     new_node_result env = ESP_OK \<and> register_result env = ESP_OK \<and> enable_result env = ESP_OK \<and>
     recovery_task_created env \<and> dispatch_task_created env"
  unfolding can_master_init_def by (auto split: if_splits)

end
