(* ===== verification/Node_Registry.thy ===== *)
theory Node_Registry
  imports App_Protocol
begin

text \<open>
  The master's registry of sensor nodes, \<open>node_state/node_registry.c\<close>: the last state report
  of every node and, while a recording is monitored, a liveness flag driven by sensor
  traffic.  The monitor task's loop body is \<open>monitor_poll\<close>; the tick counter is read once
  per operation and is an argument, and \<open>pd\<close> stands for \<open>pdMS_TO_TICKS\<close>, which depends on
  the configured tick rate.

  The abstract specification keeps unbounded times and says when a node counts as offline;
  the theorems show that the registry agrees with it although its tick counter wraps.
\<close>

definition NODE_OFFLINE_TIMEOUT_MS :: nat where "NODE_OFFLINE_TIMEOUT_MS = 3000"
definition NODE_MONITOR_PERIOD_MS :: nat where "NODE_MONITOR_PERIOD_MS = 250"

definition MASTER_EXPECTED_NODE_MASK :: u32 where
  "MASTER_EXPECTED_NODE_MASK = push_bit 1 1 OR push_bit 3 1 OR push_bit 4 1 OR push_bit 5 1"

record registered_node =
  rn_seen :: bool
  rn_data_seen :: bool
  rn_state :: u8
  rn_reason :: u8
  rn_reset_reason :: u8
  rn_last_seen :: u32
  rn_offline :: bool

text \<open>The two static variables \<open>nodes\<close> (one slot per node id) and \<open>monitoring\<close>.\<close>

record registry =
  reg_nodes :: "registered_node list"
  reg_monitoring :: bool

definition blank_node :: registered_node where
  "blank_node = \<lparr>rn_seen = False, rn_data_seen = False, rn_state = 0, rn_reason = 0,
     rn_reset_reason = 0, rn_last_seen = 0, rn_offline = False\<rparr>"

definition registry_boot :: registry where
  "registry_boot =
     \<lparr>reg_nodes = replicate (unat CAN_NODE_SLOT_COUNT) blank_node, reg_monitoring = False\<rparr>"

definition is_configured_node :: "u32 \<Rightarrow> bool" where
  "is_configured_node n \<longleftrightarrow>
     n < 32 \<and> MASTER_EXPECTED_NODE_MASK AND push_bit (unat n) 1 \<noteq> 0"

definition node_registry_is_state_frame :: "can_message \<Rightarrow> bool" where
  "node_registry_is_state_frame m \<longleftrightarrow>
     msg_id m > CAN_ID_NODE_STATE_BASE \<and> msg_id m < CAN_ID_NODE_STATE_BASE + CAN_NODE_SLOT_COUNT"

definition upd_node :: "nat \<Rightarrow> (registered_node \<Rightarrow> registered_node) \<Rightarrow> registry \<Rightarrow> registry" where
  "upd_node i f r = r\<lparr>reg_nodes := (reg_nodes r)[i := f (reg_nodes r ! i)]\<rparr>"

definition node_registry_update :: "can_message \<Rightarrow> registry \<Rightarrow> registry" where
  "node_registry_update m r =
     (let n = msg_id m - CAN_ID_NODE_STATE_BASE
      in if n \<ge> CAN_NODE_SLOT_COUNT \<or> msg_dlc m < 2 then r
         else upd_node (unat n) (\<lambda>nd. nd\<lparr>
                rn_seen := True,
                rn_state := ucast (msg_data m),
                rn_reason := ucast (drop_bit 8 (msg_data m)),
                rn_reset_reason := (if msg_dlc m \<ge> 3 then ucast (drop_bit 16 (msg_data m)) else 0)\<rparr>) r)"

text \<open>The loop \<open>for (id = 1; id < CAN_NODE_SLOT_COUNT; id++)\<close> with its \<open>continue\<close>.\<close>

definition for_configured ::
  "(registered_node \<Rightarrow> registered_node) \<Rightarrow> registry \<Rightarrow> registry" where
  "for_configured f r =
     fold (\<lambda>i r. if is_configured_node (word_of_nat i) then upd_node i f r else r)
       [1..<unat CAN_NODE_SLOT_COUNT] r"

definition node_registry_set_monitoring :: "bool \<Rightarrow> u32 \<Rightarrow> registry \<Rightarrow> registry" where
  "node_registry_set_monitoring enabled now r =
     for_configured (\<lambda>nd. nd\<lparr>rn_data_seen := False, rn_last_seen := now, rn_offline := False\<rparr>)
       (r\<lparr>reg_monitoring := enabled\<rparr>)"

definition node_registry_record_sensor_frame :: "can_message \<Rightarrow> u32 \<Rightarrow> registry \<Rightarrow> registry" where
  "node_registry_record_sensor_frame m now r =
     (if \<not> reg_monitoring r then r
      else let n = protocol_sensor_node_id (msg_id m)
           in if n = 0 \<or> ucast n \<ge> CAN_NODE_SLOT_COUNT then r
              else upd_node (unat n)
                (\<lambda>nd. nd\<lparr>rn_data_seen := True, rn_last_seen := now, rn_offline := False\<rparr>) r)"

definition monitor_poll :: "(nat \<Rightarrow> u32) \<Rightarrow> u32 \<Rightarrow> registry \<Rightarrow> registry" where
  "monitor_poll pd now r =
     for_configured (\<lambda>nd.
       if reg_monitoring r \<and> \<not> rn_offline nd
          \<and> now - rn_last_seen nd \<ge> pd NODE_OFFLINE_TIMEOUT_MS
       then nd\<lparr>rn_offline := True\<rparr> else nd) r"

definition node_registry_state_name :: "u8 \<Rightarrow> registry \<Rightarrow> string" where
  "node_registry_state_name n r =
     (if ucast n \<ge> CAN_NODE_SLOT_COUNT then ''unknown''
      else if \<not> is_configured_node (ucast n) then ''disabled''
      else if \<not> reg_monitoring r then ''off''
      else if rn_offline (reg_nodes r ! unat n) then ''offline''
      else if rn_data_seen (reg_nodes r ! unat n) then ''active'' else ''waiting'')"

subsection \<open>Configured nodes and the slot array\<close>

lemma bit_expected_mask: "bit MASTER_EXPECTED_NODE_MASK k \<longleftrightarrow> k \<in> {1, 3, 4, 5}"
  unfolding MASTER_EXPECTED_NODE_MASK_def bit_or_iff bit_push_bit_iff bit_1_iff by auto

lemma is_configured_node_iff: "is_configured_node n \<longleftrightarrow> n = 1 \<or> n = 3 \<or> n = 4 \<or> n = 5"
proof -
  have "is_configured_node n \<longleftrightarrow> n < 32 \<and> unat n \<in> {1, 3, 4, 5}"
    unfolding is_configured_node_def push_bit_of_1 and_exp_eq_0_iff_not_bit bit_expected_mask
    by simp
  also have "\<dots> \<longleftrightarrow> unat n \<in> {1, 3, 4, 5}"
    by (auto simp: word_less_nat_alt)
  also have "\<dots> \<longleftrightarrow> n = 1 \<or> n = 3 \<or> n = 4 \<or> n = 5"
    by (simp add: word_unat_eq_iff)
  finally show ?thesis .
qed

lemma expected_nodes_supported: "MASTER_EXPECTED_NODE_MASK AND NOT CAN_NODE_ID_MASK = 0"
  by (simp add: MASTER_EXPECTED_NODE_MASK_def CAN_NODE_ID_MASK_def)

lemma unat_slot_count [simp]: "unat CAN_NODE_SLOT_COUNT = 7"
  by (simp add: CAN_NODE_SLOT_COUNT_def)

text \<open>The configured slots, as the loops visit them.\<close>

definition conf_slots :: "nat list" where
  "conf_slots = [1, 3, 4, 5]"

lemma configured_slot: "i < 7 \<Longrightarrow> is_configured_node (word_of_nat i) \<longleftrightarrow> i \<in> set conf_slots"
proof -
  assume "i < 7"
  then have "i \<in> {0, 1, 2, 3, 4, 5, 6}" by auto
  then show ?thesis by (auto simp: is_configured_node_iff conf_slots_def)
qed

definition reg_wf :: "registry \<Rightarrow> bool" where
  "reg_wf r \<longleftrightarrow> length (reg_nodes r) = 7"

lemma upd_node_frame [simp]:
  "reg_monitoring (upd_node i f r) = reg_monitoring r"
  "length (reg_nodes (upd_node i f r)) = length (reg_nodes r)"
  by (simp_all add: upd_node_def)

lemma nth_upd_node:
  "i < length (reg_nodes r) \<Longrightarrow>
   reg_nodes (upd_node i f r) ! j = (if i = j then f (reg_nodes r ! i) else reg_nodes r ! j)"
  by (simp add: upd_node_def nth_list_update)

lemma for_configured_eq:
  "for_configured f r = fold (\<lambda>i. upd_node i f) conf_slots r"
proof -
  have "[1..<7] = [1, 2, 3, 4, 5, 6 :: nat]" by (simp add: upt_rec)
  then show ?thesis
    by (simp add: for_configured_def conf_slots_def is_configured_node_iff)
qed

lemma for_configured_frame [simp]:
  "reg_monitoring (for_configured f r) = reg_monitoring r"
  "length (reg_nodes (for_configured f r)) = length (reg_nodes r)"
  by (simp_all add: for_configured_eq conf_slots_def)

lemma nth_for_configured:
  "reg_wf r \<Longrightarrow> reg_nodes (for_configured f r) ! i =
     (if i \<in> set conf_slots then f (reg_nodes r ! i) else reg_nodes r ! i)"
  by (auto simp: for_configured_eq conf_slots_def nth_upd_node reg_wf_def)

lemma reg_wf_boot [simp]: "reg_wf registry_boot"
  by (simp add: reg_wf_def registry_boot_def)

lemma reg_wf_update [inv_intros]: "reg_wf r \<Longrightarrow> reg_wf (node_registry_update m r)"
  by (simp add: reg_wf_def node_registry_update_def Let_def)

lemma reg_wf_set_monitoring [inv_intros]: "reg_wf r \<Longrightarrow> reg_wf (node_registry_set_monitoring b t r)"
  by (simp add: reg_wf_def node_registry_set_monitoring_def)

lemma reg_wf_record [inv_intros]: "reg_wf r \<Longrightarrow> reg_wf (node_registry_record_sensor_frame m t r)"
  by (simp add: reg_wf_def node_registry_record_sensor_frame_def Let_def)

lemma reg_wf_poll [inv_intros]: "reg_wf r \<Longrightarrow> reg_wf (monitor_poll pd t r)"
  by (simp add: reg_wf_def monitor_poll_def)

subsection \<open>Liveness: specification and refinement\<close>

text \<open>
  What can happen to the registry, with the absolute tick count at which it happens: a state
  report, a sensor frame, the start or end of monitoring, an iteration of the monitor task.
\<close>

datatype reg_event =
    Report can_message
  | Sensor can_message
  | Monitoring bool
  | Poll

fun reg_step :: "(nat \<Rightarrow> u32) \<Rightarrow> nat \<times> reg_event \<Rightarrow> registry \<Rightarrow> registry" where
  "reg_step pd (t, Report m) r = node_registry_update m r"
| "reg_step pd (t, Sensor m) r = node_registry_record_sensor_frame m (word_of_nat t) r"
| "reg_step pd (t, Monitoring b) r = node_registry_set_monitoring b (word_of_nat t) r"
| "reg_step pd (t, Poll) r = monitor_poll pd (word_of_nat t) r"

definition reg_run :: "(nat \<Rightarrow> u32) \<Rightarrow> (nat \<times> reg_event) list \<Rightarrow> registry \<Rightarrow> registry" where
  "reg_run pd evs r = fold (reg_step pd) evs r"

text \<open>
  The specification: for each node the time of its last activity in natural numbers, and a
  node goes offline at a poll that finds its last activity at least \<open>T\<close> ticks in the past.
\<close>

record liveness =
  lv_monitoring :: bool
  lv_last :: "nat \<Rightarrow> nat"
  lv_data :: "nat \<Rightarrow> bool"
  lv_offline :: "nat \<Rightarrow> bool"

definition liveness_boot :: liveness where
  "liveness_boot = \<lparr>lv_monitoring = False, lv_last = (\<lambda>_. 0), lv_data = (\<lambda>_. False),
     lv_offline = (\<lambda>_. False)\<rparr>"

fun lv_step :: "nat \<Rightarrow> nat \<times> reg_event \<Rightarrow> liveness \<Rightarrow> liveness" where
  "lv_step T (t, Report m) s = s"
| "lv_step T (t, Sensor m) s =
     (let n = unat (protocol_sensor_node_id (msg_id m))
      in if lv_monitoring s \<and> n \<noteq> 0
         then s\<lparr>lv_last := (lv_last s)(n := t), lv_data := (lv_data s)(n := True),
                lv_offline := (lv_offline s)(n := False)\<rparr>
         else s)"
| "lv_step T (t, Monitoring b) s =
     \<lparr>lv_monitoring = b, lv_last = (\<lambda>_. t), lv_data = (\<lambda>_. False), lv_offline = (\<lambda>_. False)\<rparr>"
| "lv_step T (t, Poll) s =
     (if lv_monitoring s
      then s\<lparr>lv_offline := (\<lambda>n. lv_offline s n \<or> lv_last s n + T \<le> t)\<rparr> else s)"

definition lv_run :: "nat \<Rightarrow> (nat \<times> reg_event) list \<Rightarrow> liveness \<Rightarrow> liveness" where
  "lv_run T evs s = fold (lv_step T) evs s"

definition lv_name :: "nat \<Rightarrow> liveness \<Rightarrow> string" where
  "lv_name n s = (if \<not> lv_monitoring s then ''off'' else if lv_offline s n then ''offline''
     else if lv_data s n then ''active'' else ''waiting'')"

text \<open>
  Timing of a run: times do not decrease and no event comes more than \<open>P\<close> ticks after the
  latest poll (the monitor task keeps running).
\<close>

fun well_timed :: "nat \<Rightarrow> nat \<Rightarrow> nat \<Rightarrow> (nat \<times> reg_event) list \<Rightarrow> bool" where
  "well_timed P lp now [] \<longleftrightarrow> True"
| "well_timed P lp now ((t, e) # evs) \<longleftrightarrow>
     now \<le> t \<and> t \<le> lp + P \<and> well_timed P (case e of Poll \<Rightarrow> t | _ \<Rightarrow> lp) t evs"

definition lv_sim :: "nat \<Rightarrow> nat \<Rightarrow> nat \<Rightarrow> registry \<Rightarrow> liveness \<Rightarrow> bool" where
  "lv_sim T lp now r s \<longleftrightarrow>
     reg_wf r \<and> lp \<le> now \<and> reg_monitoring r = lv_monitoring s \<and>
     (\<forall>i \<in> set conf_slots.
        rn_last_seen (reg_nodes r ! i) = word_of_nat (lv_last s i) \<and>
        rn_data_seen (reg_nodes r ! i) = lv_data s i \<and>
        rn_offline (reg_nodes r ! i) = lv_offline s i \<and>
        lv_last s i \<le> now \<and>
        (lv_monitoring s \<and> \<not> lv_offline s i \<longrightarrow> lp < lv_last s i + T))"

lemma lv_simI:
  assumes "reg_wf r" and "lp \<le> now" and "reg_monitoring r = lv_monitoring s"
    and "\<And>i. i \<in> set conf_slots \<Longrightarrow>
        rn_last_seen (reg_nodes r ! i) = word_of_nat (lv_last s i) \<and>
        rn_data_seen (reg_nodes r ! i) = lv_data s i \<and>
        rn_offline (reg_nodes r ! i) = lv_offline s i \<and>
        lv_last s i \<le> now \<and>
        (lv_monitoring s \<and> \<not> lv_offline s i \<longrightarrow> lp < lv_last s i + T)"
  shows "lv_sim T lp now r s"
  using assms by (simp add: lv_sim_def)

lemma lv_simD:
  assumes "lv_sim T lp now r s"
  shows "reg_wf r" and "lp \<le> now" and "reg_monitoring r = lv_monitoring s"
    and "i \<in> set conf_slots \<Longrightarrow> rn_last_seen (reg_nodes r ! i) = word_of_nat (lv_last s i)"
    and "i \<in> set conf_slots \<Longrightarrow> rn_data_seen (reg_nodes r ! i) = lv_data s i"
    and "i \<in> set conf_slots \<Longrightarrow> rn_offline (reg_nodes r ! i) = lv_offline s i"
    and "i \<in> set conf_slots \<Longrightarrow> lv_last s i \<le> now"
    and "i \<in> set conf_slots \<Longrightarrow> lv_monitoring s \<Longrightarrow> \<not> lv_offline s i \<Longrightarrow> lp < lv_last s i + T"
  using assms by (auto simp: lv_sim_def)

lemma lv_sim_boot: "lv_sim T 0 0 registry_boot liveness_boot"
  by (rule lv_simI)
    (auto simp: registry_boot_def liveness_boot_def conf_slots_def blank_node_def reg_wf_def)

lemma update_keeps_liveness:
  assumes "reg_wf r"
  shows "rn_last_seen (reg_nodes (node_registry_update m r) ! i) = rn_last_seen (reg_nodes r ! i)"
    and "rn_data_seen (reg_nodes (node_registry_update m r) ! i) = rn_data_seen (reg_nodes r ! i)"
    and "rn_offline (reg_nodes (node_registry_update m r) ! i) = rn_offline (reg_nodes r ! i)"
    and "reg_monitoring (node_registry_update m r) = reg_monitoring r"
proof -
  let ?n = "msg_id m - CAN_ID_NODE_STATE_BASE"
  have "unat ?n < length (reg_nodes r)" if "\<not> ?n \<ge> CAN_NODE_SLOT_COUNT"
    using that assms by (simp add: word_le_nat_alt reg_wf_def)
  then show "rn_last_seen (reg_nodes (node_registry_update m r) ! i) = rn_last_seen (reg_nodes r ! i)"
    and "rn_data_seen (reg_nodes (node_registry_update m r) ! i) = rn_data_seen (reg_nodes r ! i)"
    and "rn_offline (reg_nodes (node_registry_update m r) ! i) = rn_offline (reg_nodes r ! i)"
    and "reg_monitoring (node_registry_update m r) = reg_monitoring r"
    by (simp_all add: node_registry_update_def Let_def nth_upd_node)
qed

lemma lv_sim_report:
  assumes "lv_sim T lp now r s" and "now \<le> t"
  shows "lv_sim T lp t (node_registry_update m r) s"
proof -
  have "reg_wf r" using assms(1) by (simp add: lv_sim_def)
  note [simp] = update_keeps_liveness [OF this] reg_wf_update [OF this]
  show ?thesis using assms by (force simp add: lv_sim_def)
qed

lemma lv_sim_sensor:
  assumes "lv_sim T lp now r s" and "now \<le> t" and "0 < T"
  shows "lv_sim T lp t (node_registry_record_sensor_frame m (word_of_nat t) r)
           (lv_step T (t, Sensor m) s)"
proof (cases "reg_monitoring r \<and> protocol_sensor_node_id (msg_id m) \<noteq> 0")
  case False
  then have "node_registry_record_sensor_frame m (word_of_nat t) r = r" "lv_step T (t, Sensor m) s = s"
    using assms(1) by (auto simp: node_registry_record_sensor_frame_def lv_sim_def Let_def unat_eq_0)
  then show ?thesis using assms by (force simp: lv_sim_def)
next
  case True
  let ?n = "protocol_sensor_node_id (msg_id m)"
  have n: "unat ?n \<in> {1, 3, 4, 5, 6}" using True by (intro sensor_node_id_slot) simp
  have "unat (ucast ?n :: u32) = unat ?n" by simp
  with n have slot: "\<not> ucast ?n \<ge> CAN_NODE_SLOT_COUNT" by (auto simp: word_le_nat_alt)
  have r': "node_registry_record_sensor_frame m (word_of_nat t) r = upd_node (unat ?n)
      (\<lambda>nd. nd\<lparr>rn_data_seen := True, rn_last_seen := word_of_nat t, rn_offline := False\<rparr>) r"
    using True slot by (simp add: node_registry_record_sensor_frame_def Let_def)
  have s': "lv_step T (t, Sensor m) s = s\<lparr>lv_last := (lv_last s)(unat ?n := t),
      lv_data := (lv_data s)(unat ?n := True), lv_offline := (lv_offline s)(unat ?n := False)\<rparr>"
    using True n assms(1) by (auto simp: lv_sim_def Let_def)
  have len: "unat ?n < length (reg_nodes r)" using n assms(1) by (auto simp: lv_sim_def reg_wf_def)
  show ?thesis unfolding r' s'
    using assms len by (intro lv_simI) (auto simp: lv_sim_def nth_upd_node reg_wf_def)
qed

lemma lv_sim_monitoring:
  assumes "lv_sim T lp now r s" and "now \<le> t" and "0 < T"
  shows "lv_sim T lp t (node_registry_set_monitoring b (word_of_nat t) r)
           (lv_step T (t, Monitoring b) s)"
proof (rule lv_simI)
  fix i assume "i \<in> set conf_slots"
  then show "rn_last_seen (reg_nodes (node_registry_set_monitoring b (word_of_nat t) r) ! i) =
        word_of_nat (lv_last (lv_step T (t, Monitoring b) s) i) \<and>
      rn_data_seen (reg_nodes (node_registry_set_monitoring b (word_of_nat t) r) ! i) =
        lv_data (lv_step T (t, Monitoring b) s) i \<and>
      rn_offline (reg_nodes (node_registry_set_monitoring b (word_of_nat t) r) ! i) =
        lv_offline (lv_step T (t, Monitoring b) s) i \<and>
      lv_last (lv_step T (t, Monitoring b) s) i \<le> t \<and>
      (lv_monitoring (lv_step T (t, Monitoring b) s) \<and> \<not> lv_offline (lv_step T (t, Monitoring b) s) i
        \<longrightarrow> lp < lv_last (lv_step T (t, Monitoring b) s) i + T)"
    using assms by (auto simp: node_registry_set_monitoring_def lv_sim_def nth_for_configured reg_wf_def)
qed (use assms in \<open>auto simp: lv_sim_def node_registry_set_monitoring_def reg_wf_def\<close>)

lemma lv_sim_poll:
  assumes sim: "lv_sim T lp now r s" and t: "now \<le> t" "t \<le> lp + P" and "P + T \<le> 2 ^ 32"
    and T: "T = unat (pd NODE_OFFLINE_TIMEOUT_MS)"
  shows "lv_sim T t t (monitor_poll pd (word_of_nat t) r) (lv_step T (t, Poll) s)"
proof (rule lv_simI)
  fix i assume i: "i \<in> set conf_slots"
  note D = lv_simD [OF sim] lv_simD(4-7) [OF sim i]
  have "(pd NODE_OFFLINE_TIMEOUT_MS \<le> word_of_nat t - rn_last_seen (reg_nodes r ! i))
        = (lv_last s i + T \<le> t)" if "lv_monitoring s" "\<not> lv_offline s i"
  proof -
    have le: "lv_last s i \<le> t" using D(12) t(1) by linarith
    have "t - lv_last s i < 2 ^ 32" using lv_simD(8) [OF sim i that] t assms(4) by simp
    from tick_diff_ge_iff [OF le this] show ?thesis unfolding D(9) T .
  qed
  moreover have "lv_last s i \<le> t" using D(12) t(1) by linarith
  moreover note D(1,3) D(9-11)
  ultimately show "rn_last_seen (reg_nodes (monitor_poll pd (word_of_nat t) r) ! i) =
        word_of_nat (lv_last (lv_step T (t, Poll) s) i) \<and>
      rn_data_seen (reg_nodes (monitor_poll pd (word_of_nat t) r) ! i) =
        lv_data (lv_step T (t, Poll) s) i \<and>
      rn_offline (reg_nodes (monitor_poll pd (word_of_nat t) r) ! i) =
        lv_offline (lv_step T (t, Poll) s) i \<and>
      lv_last (lv_step T (t, Poll) s) i \<le> t \<and>
      (lv_monitoring (lv_step T (t, Poll) s) \<and> \<not> lv_offline (lv_step T (t, Poll) s) i
        \<longrightarrow> t < lv_last (lv_step T (t, Poll) s) i + T)"
    using i by (cases "lv_monitoring s"; cases "lv_offline s i")
      (simp_all add: monitor_poll_def nth_for_configured)
qed (use sim t in \<open>auto simp: lv_sim_def monitor_poll_def reg_wf_def\<close>)

lemma lv_sim_step:
  assumes "lv_sim T lp now r s" and "now \<le> t" and "t \<le> lp + P" and "P + T \<le> 2 ^ 32"
    and "T = unat (pd NODE_OFFLINE_TIMEOUT_MS)" and "0 < T"
  shows "lv_sim T (case e of Poll \<Rightarrow> t | _ \<Rightarrow> lp) t (reg_step pd (t, e) r) (lv_step T (t, e) s)"
proof (cases e)
  case (Report m)
  then show ?thesis using lv_sim_report [OF assms(1,2)] by simp
next
  case (Sensor m)
  then show ?thesis using lv_sim_sensor [OF assms(1,2,6)] by simp
next
  case (Monitoring b)
  then show ?thesis using lv_sim_monitoring [OF assms(1,2,6)] by simp
next
  case Poll
  then show ?thesis using lv_sim_poll [OF assms(1-4), of pd] assms(5) by simp
qed

lemma lv_sim_run:
  assumes "lv_sim T lp now r s" and "well_timed P lp now evs" and "P + T \<le> 2 ^ 32"
    and "T = unat (pd NODE_OFFLINE_TIMEOUT_MS)" and "0 < T"
  shows "\<exists>lp' now'. lv_sim T lp' now' (reg_run pd evs r) (lv_run T evs s)"
  using assms(1,2)
proof (induction evs arbitrary: lp now r s)
  case Nil
  then show ?case by (auto simp: reg_run_def lv_run_def)
next
  case (Cons te evs)
  obtain t e where [simp]: "te = (t, e)" by force
  have "lv_sim T (case e of Poll \<Rightarrow> t | _ \<Rightarrow> lp) t (reg_step pd (t, e) r) (lv_step T (t, e) s)"
    using Cons.prems assms(3-5) by (intro lv_sim_step) auto
  moreover have "well_timed P (case e of Poll \<Rightarrow> t | _ \<Rightarrow> lp) t evs" using Cons.prems by simp
  ultimately have "\<exists>lp' now'. lv_sim T lp' now' (reg_run pd evs (reg_step pd (t, e) r))
      (lv_run T evs (lv_step T (t, e) s))"
    by (rule Cons.IH)
  then show ?case by (simp add: reg_run_def lv_run_def)
qed

lemma lv_sim_name:
  assumes "lv_sim T lp now r s" and "unat n \<in> set conf_slots"
  shows "node_registry_state_name n r = lv_name (unat n) s"
proof -
  have "unat (ucast n :: u32) \<in> {1, 3, 4, 5}" using assms(2) by (auto simp: conf_slots_def)
  then have "is_configured_node (ucast n)" and "\<not> ucast n \<ge> CAN_NODE_SLOT_COUNT"
    by (auto simp: is_configured_node_iff word_unat_eq_iff word_le_nat_alt simp del: unat_ucast_u8_u32)
  then show ?thesis
    using lv_simD [OF assms(1)] lv_simD(5,6) [OF assms(1,2)]
    by (simp add: node_registry_state_name_def lv_name_def)
qed


definition brake_frame :: can_message where
  "brake_frame = \<lparr>msg_id = CAN_ID_FRONT_BRAKE, msg_dlc = 8, msg_data = 0\<rparr>"


end
