(* ===== verification/Master_App.thy ===== *)
theory Master_App
  imports Can_Master Node_Registry Live_Data Log_Writer
begin

text \<open>
  The master's application level: \<open>app/app_control.c\<close> (the lifecycle of a recording session),
  \<open>main.c\<close> (what happens to a received frame or a GPS sample), \<open>time/time_beacon.c\<close> and
  \<open>console/serial_console.c\<close>.  The state is the state of the modules \<open>main.c\<close> connects.
  \<open>lifecycle_mutex\<close> makes each \<open>app_control\<close> operation one step; everything else that can run,
  from interrupts to the writer's phases, is a step of its own.  \<open>can_enabled\<close> is the build
  option \<open>MASTER_CAN_ENABLED\<close>.
\<close>

datatype app_control_result =
    APP_CONTROL_OK
  | APP_CONTROL_CONFLICT
  | APP_CONTROL_BUSY
  | APP_CONTROL_INVALID_FILENAME
  | APP_CONTROL_FILENAME_EXISTS
  | APP_CONTROL_FAILED

record ('q, 'r) app =
  lifecycle_ready :: bool
  logger_of :: "'q logger"
  live_of :: live_data
  registry_of :: registry
  beacon_recording :: bool
  tx_of :: can_tx
  rx_of :: "'r can_rx"

subsection \<open>The lifecycle of a session\<close>

text \<open>What an operation meets: the lifecycle mutex, the tick counter, the bus, and the logger's start.\<close>

record app_env =
  lifecycle_taken :: bool
  app_now :: u32
  burst_env :: "nat \<Rightarrow> tx_env"
  name_started :: u32
  name_readings :: "(int \<times> u32) list"
  logger_start_env :: start_env

definition time_beacon_set_recording :: "bool \<Rightarrow> ('q, 'r) app \<Rightarrow> ('q, 'r) app" where
  "time_beacon_set_recording enabled app = app\<lparr>beacon_recording := enabled\<rparr>"

definition start_refused :: "data_logger_start_result \<Rightarrow> app_control_result" where
  "start_refused result =
     (if result = DATA_LOGGER_START_INVALID_NAME then APP_CONTROL_INVALID_FILENAME
      else if result = DATA_LOGGER_START_EXISTS then APP_CONTROL_FILENAME_EXISTS
      else if result = DATA_LOGGER_START_ACTIVE then APP_CONTROL_CONFLICT
      else APP_CONTROL_FAILED)"

text \<open>
  The result, the driver calls of the START burst and the state; None would be an endless search
  for a default name, which \<open>default_name_is_free\<close> excludes.
\<close>

definition app_control_start_logging ::
  "bool \<Rightarrow> ('q, queued_sample) queue_api \<Rightarrow> (nat \<Rightarrow> u32) \<Rightarrow> app_env \<Rightarrow> string option \<Rightarrow> ('q, 'r) app \<Rightarrow>
   (app_control_result \<times> tx_action list \<times> ('q, 'r) app) option" where
  "app_control_start_logging can_enabled Q pd env filename app =
     (if \<not> lifecycle_ready app \<or> \<not> lifecycle_taken env then Some (APP_CONTROL_FAILED, [], app)
      else if lg_state (logger_of app) \<noteq> LOGGER_IDLE then Some (APP_CONTROL_CONFLICT, [], app)
      else case data_logger_start Q pd (name_started env) (name_readings env) (logger_start_env env)
                  filename (logger_of app) of
        None \<Rightarrow> None
      | Some (start_result, lg) \<Rightarrow>
          let app = app\<lparr>logger_of := lg\<rparr>
          in if start_result \<noteq> DATA_LOGGER_START_OK then Some (start_refused start_result, [], app)
             else if \<not> can_enabled then Some (APP_CONTROL_OK, [], app)
             else
               let app = app\<lparr>registry_of := node_registry_set_monitoring True (app_now env) (registry_of app)\<rparr>;
                   app = time_beacon_set_recording True app;
                   (error, acts, tx) = can_master_start_nodes (burst_env env) (tx_of app)
               in Some (APP_CONTROL_OK, acts, app\<lparr>tx_of := tx\<rparr>))"

definition app_control_stop_logging ::
  "bool \<Rightarrow> app_env \<Rightarrow> ('q, 'r) app \<Rightarrow> app_control_result \<times> tx_action list \<times> ('q, 'r) app" where
  "app_control_stop_logging can_enabled env app =
     (if \<not> lifecycle_ready app \<or> \<not> lifecycle_taken env then (APP_CONTROL_FAILED, [], app)
      else if lg_state (logger_of app) \<noteq> LOGGER_RUNNING then (APP_CONTROL_CONFLICT, [], app)
      else
        let app = app\<lparr>live_of := live_data_force_stop (live_of app)\<rparr>;
            (stopped, lg) = data_logger_stop (logger_of app);
            app = app\<lparr>logger_of := lg\<rparr>
        in if \<not> stopped then (APP_CONTROL_FAILED, [], app)
           else if \<not> can_enabled then (APP_CONTROL_OK, [], app)
           else
             let app = time_beacon_set_recording False app;
                 app = app\<lparr>registry_of := node_registry_set_monitoring False (app_now env) (registry_of app)\<rparr>;
                 (error, acts, tx) = can_master_stop_nodes (burst_env env) (tx_of app)
             in (APP_CONTROL_OK, acts, app\<lparr>tx_of := tx\<rparr>))"

text \<open>\<open>token_given\<close>: the token pointer is not NULL; the token is stored on success.\<close>

definition app_control_start_live_data ::
  "bool \<Rightarrow> bool \<Rightarrow> int \<Rightarrow> u32 \<Rightarrow> ('q, 'r) app \<Rightarrow> (app_control_result \<times> u32 option) \<times> ('q, 'r) app" where
  "app_control_start_live_data token_given lifecycle now_us rnd app =
     (if \<not> lifecycle_ready app \<or> \<not> token_given \<or> \<not> lifecycle then ((APP_CONTROL_FAILED, None), app)
      else if lg_state (logger_of app) \<noteq> LOGGER_RUNNING then ((APP_CONTROL_CONFLICT, None), app)
      else case live_data_start now_us rnd (live_of app) of
        ((result, token), l) \<Rightarrow>
          ((if result = LIVE_DATA_BUSY then APP_CONTROL_BUSY
            else if result = LIVE_DATA_OK then APP_CONTROL_OK else APP_CONTROL_FAILED, token),
           app\<lparr>live_of := l\<rparr>))"

record app_status =
  st_logger_state :: logger_state
  st_current_file :: string
  st_can_drops :: u32
  st_can_rx_errors :: u32
  st_can_tx_errors :: u32
  st_can_errors_available :: bool
  st_log_drops :: u32
  st_live_enabled :: bool
  st_node_1 :: string
  st_node_3 :: string
  st_node_4 :: string
  st_node_5 :: string
  st_node_6 :: string

text \<open>\<open>handle\<close>, \<open>info\<close> and \<open>counts\<close> are what the driver gives \<open>can_master_error_counts\<close>.\<close>

definition app_control_get_status ::
  "bool \<Rightarrow> esp_err \<Rightarrow> u32 \<times> u32 \<Rightarrow> int \<Rightarrow> ('q, 'r) app \<Rightarrow> app_status \<times> ('q, 'r) app" where
  "app_control_get_status handle info counts now_us app =
     (let (error, errors) = can_master_error_counts True True handle info counts;
          (rx_errors, tx_errors) = (case errors of Some e \<Rightarrow> e | None \<Rightarrow> (0, 0));
          (live_enabled, l) = live_data_is_enabled now_us (live_of app);
          name = (\<lambda>n. node_registry_state_name n (registry_of app))
      in (\<lparr>st_logger_state = lg_state (logger_of app),
           st_current_file = data_logger_path (logger_of app),
           st_can_drops = can_master_rx_drop_count (rx_of app),
           st_can_rx_errors = rx_errors, st_can_tx_errors = tx_errors,
           st_can_errors_available = (error = ESP_OK),
           st_log_drops = queue_drops (logger_of app),
           st_live_enabled = live_enabled,
           st_node_1 = name 1, st_node_3 = name 3, st_node_4 = name 4, st_node_5 = name 5, st_node_6 = name 6\<rparr>,
          app\<lparr>live_of := l\<rparr>))"

text \<open>The two lines \<open>app_control_print_status\<close> logs: state, file, drops; the nodes' states.\<close>

definition app_control_print_status ::
  "bool \<Rightarrow> esp_err \<Rightarrow> u32 \<times> u32 \<Rightarrow> int \<Rightarrow> ('q, 'r) app \<Rightarrow> ((string \<times> string \<times> u32 \<times> u32) \<times> string list) \<times> ('q, 'r) app" where
  "app_control_print_status handle info counts now_us app =
     (let (st, app) = app_control_get_status handle info counts now_us app
      in (((data_logger_state_name (logger_of app), st_current_file st, st_can_drops st, st_log_drops st),
           [st_node_1 st, st_node_3 st, st_node_4 st, st_node_5 st, st_node_6 st]), app))"

subsection \<open>Frames and GPS samples\<close>

text \<open>The engine frames whose time stamp has its sign bit set.\<close>

definition bad_engine_stamp :: "can_message \<Rightarrow> bool" where
  "bad_engine_stamp m \<longleftrightarrow> (msg_id m = CAN_ID_ENGINE_SPARK \<or> msg_id m = CAN_ID_ENGINE_RPM) \<and>
     sint (sample_timestamp (msg_data m)) < 0"

definition handle_can_message ::
  "('q, queued_sample) queue_api \<Rightarrow> (u32 \<Rightarrow> int) \<Rightarrow> u32 \<Rightarrow> int \<Rightarrow> can_message \<Rightarrow> ('q, 'r) app \<Rightarrow> ('q, 'r) app" where
  "handle_can_message Q sample_utc now now_us m app =
     (if node_registry_is_state_frame m
      then app\<lparr>registry_of := node_registry_update m (registry_of app)\<rparr>
      else if protocol_is_sensor_id (msg_id m) \<and> msg_dlc m = 8
      then
        if bad_engine_stamp m then app
        else app\<lparr>registry_of := node_registry_record_sensor_frame m now (registry_of app),
                 logger_of := data_logger_enqueue Q sample_utc m (logger_of app),
                 live_of := live_data_record m now_us (live_of app)\<rparr>
      else app)"

definition handle_gps_sample ::
  "('q, queued_sample) queue_api \<Rightarrow> (u32 \<Rightarrow> int) \<Rightarrow> int \<Rightarrow> can_message \<Rightarrow> ('q, 'r) app \<Rightarrow> ('q, 'r) app" where
  "handle_gps_sample Q sample_utc now_us sample app =
     app\<lparr>logger_of := data_logger_enqueue Q sample_utc sample (logger_of app),
         live_of := live_data_record sample now_us (live_of app)\<rparr>"

subsection \<open>The time beacon\<close>

definition beacon_time :: "int \<Rightarrow> bool \<Rightarrow> u64" where
  "beacon_time now_us recording_flag =
     (let time_us = word_of_int now_us AND CAN_MASTER_TIME_VALUE_MASK
      in if recording_flag then time_us OR CAN_MASTER_TIME_RECORDING_FLAG else time_us)"

record beacon =
  bc_previous_error :: esp_err
  bc_last_failure_log :: u32

datatype beacon_log = Beacon_Failed esp_err | Beacon_Recovered

text \<open>One round of \<open>beacon_task\<close>; \<open>now\<close> is the tick counter after the send.\<close>

definition beacon_round ::
  "(nat \<Rightarrow> u32) \<Rightarrow> int \<Rightarrow> u32 \<Rightarrow> tx_env \<Rightarrow> bool \<Rightarrow> can_tx \<Rightarrow> beacon \<Rightarrow>
   beacon_log list \<times> tx_action list \<times> can_tx \<times> beacon" where
  "beacon_round pd now_us now env recording_flag tx bc =
     (case can_master_send env CAN_ID_MASTER_TIME (Some (payload_bytes (beacon_time now_us recording_flag))) 8 tx of
        (error, acts, tx) \<Rightarrow>
          let fail = (error \<noteq> ESP_OK \<and> error \<noteq> ESP_ERR_TIMEOUT \<and>
                (error \<noteq> bc_previous_error bc \<or> now - bc_last_failure_log bc \<ge> pd 5000));
              logs = (if fail then [Beacon_Failed error]
                      else if error = ESP_OK \<and> bc_previous_error bc \<noteq> ESP_OK then [Beacon_Recovered] else []);
              bc = (if fail then bc\<lparr>bc_last_failure_log := now\<rparr> else bc)
          in (logs, acts, tx, bc\<lparr>bc_previous_error := error\<rparr>))"

subsection \<open>The serial console\<close>

datatype console_command = Console_Start | Console_Stop | Console_Status | Console_Help

definition char_tolower :: "char \<Rightarrow> char" where
  "char_tolower c = (if char_isupper c then char_of ((of_char c :: nat) + 32) else c)"

text \<open>One line of \<open>console_task\<close>, as \<open>fgets\<close> delivered it; None for an empty line.\<close>

definition console_line :: "string \<Rightarrow> console_command option" where
  "console_line line =
     (let text = takeWhile (\<lambda>c. c \<noteq> CHR 0x0D \<and> c \<noteq> CHR 0x0A) (map char_tolower line)
      in if text = ''start'' then Some Console_Start
         else if text = ''stop'' then Some Console_Stop
         else if text = ''status'' then Some Console_Status
         else if text \<noteq> [] then Some Console_Help
         else None)"

subsection \<open>The master as a transition system\<close>

text \<open>The events of the logger that no application-level operation performs.\<close>

fun background :: "log_event \<Rightarrow> bool" where
  "background (Enqueue m utc) = False"
| "background Stop = False"
| "background e = True"

definition app_boot :: "'q \<Rightarrow> 'r \<Rightarrow> filesystem \<Rightarrow> ('q, 'r) app" where
  "app_boot log_q rx_q fs = \<lparr>lifecycle_ready = True, logger_of = logger_boot log_q fs,
     live_of = live_data_init live_boot, registry_of = registry_boot, beacon_recording = False,
     tx_of = can_tx_boot, rx_of = \<lparr>rx_queue = rx_q, rx_drops = 0\<rparr>\<rparr>"

inductive app_step ::
  "bool \<Rightarrow> ('q, queued_sample) queue_api \<Rightarrow> (nat \<Rightarrow> u32) \<Rightarrow> ('q, 'r) app \<Rightarrow> ('q, 'r) app \<Rightarrow> bool"
  for can_enabled Q pd where
  start: "app_control_start_logging can_enabled Q pd env filename app = Some (r, acts, app') \<Longrightarrow>
    app_step can_enabled Q pd app app'"
| stop: "app_control_stop_logging can_enabled env app = (r, acts, app') \<Longrightarrow>
    app_step can_enabled Q pd app app'"
| view: "app_control_start_live_data token_given lifecycle now_us rnd app = (r, app') \<Longrightarrow>
    app_step can_enabled Q pd app app'"
| snapshot: "app_step can_enabled Q pd app (app\<lparr>live_of := snd (live_data_snapshot token n now_us (live_of app))\<rparr>)"
| view_stop: "app_step can_enabled Q pd app (app\<lparr>live_of := snd (live_data_stop token now_us (live_of app))\<rparr>)"
| status: "app_control_get_status handle info counts now_us app = (st, app') \<Longrightarrow>
    app_step can_enabled Q pd app app'"
| frame: "can_enabled \<Longrightarrow>
    app_step can_enabled Q pd app (handle_can_message Q sample_utc now now_us m app)"
| gps: "app_step can_enabled Q pd app (handle_gps_sample Q sample_utc now_us m app)"
| monitor: "app_step can_enabled Q pd app (app\<lparr>registry_of := monitor_poll pd now (registry_of app)\<rparr>)"
| beacon: "can_enabled \<Longrightarrow> beacon_round pd now_us now env (beacon_recording app) (tx_of app) bc = (logs, acts, tx, bc') \<Longrightarrow>
    app_step can_enabled Q pd app (app\<lparr>tx_of := tx\<rparr>)"
| writer: "background e \<Longrightarrow> app_step can_enabled Q pd app (app\<lparr>logger_of := log_step Q pd e (logger_of app)\<rparr>)"
| idle: "app_step can_enabled Q pd app (app\<lparr>logger_of := writer_idle now (logger_of app)\<rparr>)"
| receive: "app_step can_enabled Q pd app (app\<lparr>rx_of := rx\<rparr>)"

inductive app_reach ::
  "bool \<Rightarrow> ('q, queued_sample) queue_api \<Rightarrow> (nat \<Rightarrow> u32) \<Rightarrow> ('q, 'r) app \<Rightarrow> ('q, 'r) app \<Rightarrow> bool"
  for can_enabled Q pd app0 where
  boot: "app_reach can_enabled Q pd app0 app0"
| step: "app_reach can_enabled Q pd app0 app \<Longrightarrow> app_step can_enabled Q pd app app' \<Longrightarrow>
    app_reach can_enabled Q pd app0 app'"

text \<open>The agreement of the modules.\<close>

definition app_ok :: "bool \<Rightarrow> ('q, 'r) app \<Rightarrow> bool" where
  "app_ok can_enabled app \<longleftrightarrow>
     (reg_monitoring (registry_of app) \<longleftrightarrow> can_enabled \<and> lg_state (logger_of app) = LOGGER_RUNNING) \<and>
     (beacon_recording app \<longleftrightarrow> can_enabled \<and> lg_state (logger_of app) = LOGGER_RUNNING) \<and>
     (ld_enabled (live_of app) \<longrightarrow> lg_state (logger_of app) = LOGGER_RUNNING)"

lemma monitoring_simps [simp]:
  "reg_monitoring (node_registry_update m r) = reg_monitoring r"
  "reg_monitoring (node_registry_record_sensor_frame m now r) = reg_monitoring r"
  "reg_monitoring (monitor_poll pd now r) = reg_monitoring r"
  "reg_monitoring (node_registry_set_monitoring b now r) = b"
  by (simp_all add: node_registry_update_def node_registry_record_sensor_frame_def monitor_poll_def
      node_registry_set_monitoring_def Let_def)

lemma enabled_after [dest]:
  "ld_enabled (live_data_record m t l) \<Longrightarrow> ld_enabled l"
  "ld_enabled (snd (live_data_snapshot k n t l)) \<Longrightarrow> ld_enabled l"
  "ld_enabled (snd (live_data_stop k t l)) \<Longrightarrow> ld_enabled l"
  "ld_enabled (snd (live_data_is_enabled t l)) \<Longrightarrow> ld_enabled l"
  by (auto simp: live_defs Let_def split: option.splits if_splits)

lemma state_enqueue_send [simp]: "lg_state (enqueue_send Q s lg) = lg_state lg"
  by (simp add: enqueue_send_def split: option.split)

lemma state_enqueue [simp]: "lg_state (data_logger_enqueue Q u m lg) = lg_state lg"
  by (simp add: data_logger_enqueue_def split: option.split)

lemma state_rename [simp]: "lg_state (snd (data_logger_rename env a b lg)) = lg_state lg"
  by (simp add: data_logger_rename_def Let_def)

lemma running_background:
  "background e \<Longrightarrow> lg_state (log_step Q pd e lg) = LOGGER_RUNNING \<longleftrightarrow> lg_state lg = LOGGER_RUNNING"
proof (cases e)
  case (Receive env)
  then show ?thesis by (simp add: writer_receive_def Let_def split: option.split prod.split)
next
  case (Checkpoint now env cenv)
  then show ?thesis by (auto simp: writer_checkpoint_def Let_def split_beta)
next
  case (Finish env closing)
  then show ?thesis by (simp add: writer_finish_def Let_def)
qed auto

lemma app_ok_boot: "app_ok can_enabled (app_boot log_q rx_q fs)"
  by (simp add: app_ok_def app_boot_def logger_boot_def registry_boot_def live_data_init_def clear_locked_def)

lemma app_ok_start:
  assumes "app_control_start_logging can_enabled Q pd env filename app = Some (r, acts, app')"
    and "app_ok can_enabled app"
  shows "app_ok can_enabled app'"
proof -
  have st: "lg_state lg = (if res = DATA_LOGGER_START_OK then LOGGER_RUNNING else lg_state (logger_of app))"
    if "data_logger_start Q pd t rs senv filename (logger_of app) = Some (res, lg)" for t rs senv res lg
    using that by (rule data_logger_start_state)
  show ?thesis using assms
    by (auto simp: app_control_start_logging_def app_ok_def time_beacon_set_recording_def Let_def split_beta
        dest!: st split: if_splits option.splits)
qed

lemma app_ok_stop:
  assumes "app_control_stop_logging can_enabled env app = (r, acts, app')" and "app_ok can_enabled app"
  shows "app_ok can_enabled app'"
  using assms
  by (auto simp: app_control_stop_logging_def app_ok_def time_beacon_set_recording_def data_logger_stop_def
      live_data_force_stop_def clear_locked_def Let_def split_beta split: if_splits)

lemma app_ok_view:
  assumes "app_control_start_live_data given lifecycle now_us rnd app = (r, app')" and "app_ok can_enabled app"
  shows "app_ok can_enabled app'"
  using assms by (auto simp: app_control_start_live_data_def app_ok_def split_beta split: if_splits)

lemma app_ok_frame:
  assumes "app_ok can_enabled app"
  shows "app_ok can_enabled (handle_can_message Q u now now_us m app)"
  using assms by (auto simp: handle_can_message_def app_ok_def)

lemma app_ok_step:
  assumes "app_step can_enabled Q pd app app'" and "app_ok can_enabled app"
  shows "app_ok can_enabled app'"
  using assms
proof (induction rule: app_step.induct)
  case (start env filename app r acts app')
  then show ?case by (rule app_ok_start)
next
  case (stop env app r acts app')
  then show ?case by (rule app_ok_stop)
next
  case (view token_given lifecycle now_us rnd app r app')
  then show ?case by (rule app_ok_view)
next
  case (status handle info counts now_us app st app')
  then show ?case by (auto simp: app_control_get_status_def app_ok_def Let_def split_beta)
next
  case (frame sample_utc now now_us m app)
  then show ?case by (intro app_ok_frame)
next
  case (writer e app)
  then show ?case using running_background [of e Q pd "logger_of app"] by (simp add: app_ok_def)
qed (auto simp: app_ok_def handle_gps_sample_def writer_idle_def)

lemma app_ok_reach: "app_reach can_enabled Q pd app0 app \<Longrightarrow> app_ok can_enabled app0 \<Longrightarrow> app_ok can_enabled app"
  by (induction rule: app_reach.induct) (auto intro: app_ok_step)

text \<open>
  C9: The modules of the master agree about recording.  In every state the master can reach from boot
  by any interleaving of start and stop commands, live viewers, received frames, GPS samples,
  beacons, the node monitor and the writer's phases, failures included: the nodes are monitored
  and the beacon announces recording exactly while the logger is running (never, when CAN is
  disabled), and a live view is enabled only while it is.
\<close>

theorem recording_state_agrees:
  assumes "app_reach can_enabled Q pd (app_boot log_q rx_q fs) app"
  shows "(reg_monitoring (registry_of app) \<longleftrightarrow> can_enabled \<and> lg_state (logger_of app) = LOGGER_RUNNING) \<and>
    (beacon_recording app \<longleftrightarrow> can_enabled \<and> lg_state (logger_of app) = LOGGER_RUNNING) \<and>
    (ld_enabled (live_of app) \<longrightarrow> lg_state (logger_of app) = LOGGER_RUNNING)"
  using app_ok_reach [OF assms app_ok_boot] by (simp add: app_ok_def)

lemma start_logging_ok:
  assumes "lifecycle_ready app" and "lifecycle_taken env" and "lg_state (logger_of app) = LOGGER_IDLE"
    and "data_logger_start Q pd (name_started env) (name_readings env) (logger_start_env env) filename (logger_of app)
      = Some (DATA_LOGGER_START_OK, lg)"
  shows "\<exists>acts app'. app_control_start_logging can_enabled Q pd env filename app = Some (APP_CONTROL_OK, acts, app') \<and>
    logger_of app' = lg"
  using assms by (simp add: app_control_start_logging_def time_beacon_set_recording_def Let_def split_beta)

theorem recording_state_agrees_witness:
  "\<exists>app :: (queued_sample list, can_message list) app. beacon_recording app \<and> reg_monitoring (registry_of app) \<and>
     lg_state (logger_of app) = LOGGER_RUNNING \<and>
     app_reach True (list_queue LOG_QUEUE_LENGTH) (\<lambda>ms. word_of_nat ms) (app_boot [] [] Map.empty) app"
proof -
  let ?Q = "list_queue LOG_QUEUE_LENGTH :: (queued_sample list, queued_sample) queue_api"
  let ?pd = "\<lambda>ms. word_of_nat ms :: u32"
  let ?app = "app_boot [] [] Map.empty :: (queued_sample list, can_message list) app"
  let ?tx = "\<lambda>_ :: nat. \<lparr>mutex_taken = True, drain_result = ESP_OK, transmit_result = ESP_OK, done_result = ESP_OK\<rparr>"
  let ?env = "\<lparr>lifecycle_taken = True, app_now = 0, burst_env = ?tx, name_started = 0, name_readings = [],
      logger_start_env = smooth_start\<rparr>"
  have v: "data_logger_valid_filename (Some ''a.bin'')" and sd: "sdcard_path ''a.bin'' = ''/sdcard/a.bin''"
    by (simp_all add: data_logger_valid_filename_def DATA_LOGGER_FILENAME_MAX_def char_class_defs sdcard_path_def
        LOG_PATH_LENGTH_def)
  have idle: "lg_state (logger_boot [] Map.empty) = LOGGER_IDLE" by (simp add: logger_boot_def)
  have lg: "data_logger_start ?Q ?pd 0 [] smooth_start (Some ''a.bin'') (logger_boot [] Map.empty) =
      Some (DATA_LOGGER_START_OK, fresh_session)"
    using v sd idle fresh_session_start(1) by (simp add: data_logger_start_def)
  have "lifecycle_ready ?app" and "lifecycle_taken ?env" and "logger_of ?app = logger_boot [] Map.empty"
    and "name_started ?env = 0" and "name_readings ?env = []" and "logger_start_env ?env = smooth_start"
    by (simp_all add: app_boot_def)
  then obtain acts app where st: "app_control_start_logging True ?Q ?pd ?env (Some ''a.bin'') ?app = Some (APP_CONTROL_OK, acts, app)"
    and run: "logger_of app = fresh_session"
    using start_logging_ok [of ?app ?env ?Q ?pd "Some ''a.bin''" fresh_session True] lg idle by metis
  have reach: "app_reach True ?Q ?pd ?app app" by (rule app_reach.step [OF app_reach.boot app_step.start [OF st]])
  have "lg_state fresh_session = LOGGER_RUNNING" using start_at_card [OF fresh_session_start(1,2)] by auto
  then show ?thesis using recording_state_agrees [OF reach] run reach by auto
qed

subsection \<open>Which frames are recorded\<close>

lemma state_frame_not_sensor: "node_registry_is_state_frame m \<Longrightarrow> \<not> protocol_is_sensor_id (msg_id m)"
  by (auto simp: node_registry_is_state_frame_def protocol_is_sensor_id_def protocol_sensor_node_id_def
      sensor_id_defs CAN_ID_NODE_STATE_BASE_def CAN_NODE_SLOT_COUNT_def split: if_splits)

end
