(* ===== verification/Web_Server.thy ===== *)
theory Web_Server
  imports Csv_Export Master_App "HOL-Library.List_Lexorder" "HOL-Library.Char_ord"
begin

text \<open>
  The HTTP server of \<open>web/web_server.c\<close>: its handlers over the state of the application, the list
  of finished recordings, and start-up.  The query string functions of the HTTP library are
  arguments: \<open>rq_query n\<close> is what reading the query into \<open>n\<close> bytes gives, and \<open>key\<close> looks a key up.
  A response is its status, headers and body; \<open>ok n\<close> tells whether the \<open>n\<close>-th chunk was sent.
\<close>

datatype query_result = Query string | No_query | Query_failed

record request =
  rq_uri :: string
  rq_query :: "nat \<Rightarrow> query_result"

datatype body = Texts "string list" | Binary "u8 list list"

record response =
  rs_status :: string
  rs_type :: string
  rs_headers :: "(string \<times> string) list"
  rs_body :: body
  rs_sent :: bool

type_synonym query_key = "string \<Rightarrow> string \<Rightarrow> nat \<Rightarrow> string option"

definition quoted :: "string \<Rightarrow> string" where
  "quoted s = CHR 0x22 # s @ [CHR 0x22]"

definition json_field :: "string \<Rightarrow> string \<Rightarrow> string" where
  "json_field name v = quoted name @ '':'' @ v"

definition json_object :: "string list \<Rightarrow> string" where
  "json_object members = ''{'' @ comma_separated members @ ''}''"

definition json_bool :: "bool \<Rightarrow> string" where
  "json_bool b = (if b then ''true'' else ''false'')"

definition base_name :: "string \<Rightarrow> string" where
  "base_name path = rev (takeWhile (\<lambda>c. c \<noteq> CHR ''/'') (rev path))"

definition no_store :: "(string \<times> string) list" where
  "no_store = [(''Cache-Control'', ''no-store'')]"

definition send_json_error :: "(nat \<Rightarrow> bool) \<Rightarrow> string \<Rightarrow> string \<Rightarrow> response" where
  "send_json_error ok status message =
     \<lparr>rs_status = status, rs_type = ''application/json'', rs_headers = [],
      rs_body = Texts [snprintf 160 (json_object [json_field ''error'' (quoted message)])], rs_sent = ok 0\<rparr>"

definition send_json :: "(nat \<Rightarrow> bool) \<Rightarrow> string \<Rightarrow> response" where
  "send_json ok body =
     \<lparr>rs_status = ''200 OK'', rs_type = ''application/json'', rs_headers = no_store, rs_body = Texts [body],
      rs_sent = ok 0\<rparr>"

definition bad_name_text :: string where
  "bad_name_text = ''Use 1-40 letters, numbers, underscores or hyphens, followed by .bin''"

definition root_handler :: "(nat \<Rightarrow> bool) \<Rightarrow> string \<Rightarrow> response" where
  "root_handler ok web_index_html =
     \<lparr>rs_status = ''200 OK'', rs_type = ''text/html; charset=utf-8'', rs_headers = no_store,
      rs_body = Texts [web_index_html], rs_sent = ok 0\<rparr>"

subsection \<open>The list of recordings\<close>

record dir_env =
  dir_opened :: bool
  dir_names :: "string list"
  grow_ok :: "nat \<Rightarrow> bool"

text \<open>The loop over the directory; None when memory runs out.\<close>

fun collect_logs ::
  "string option \<Rightarrow> filesystem \<Rightarrow> (nat \<Rightarrow> bool) \<Rightarrow> nat \<Rightarrow> (string \<times> nat) list \<Rightarrow> string list \<Rightarrow> (string \<times> nat) list option" where
  "collect_logs active fs grow capacity entries [] = Some entries"
| "collect_logs active fs grow capacity entries (item # items) =
     (if \<not> data_logger_valid_filename (Some item) \<or> active = Some item
      then collect_logs active fs grow capacity entries items
      else
        (case fs (snprintf 96 (''/sdcard/'' @ item)) of
           Some (Regular_File bytes) \<Rightarrow>
             let entry = (snprintf (DATA_LOGGER_FILENAME_MAX + 1) item, length bytes)
             in if length entries = capacity
                then let larger = (if capacity \<noteq> 0 then capacity * 2 else 16)
                     in if \<not> grow larger then None
                        else collect_logs active fs grow larger (entries @ [entry]) items
                else collect_logs active fs grow capacity (entries @ [entry]) items
         | _ \<Rightarrow> collect_logs active fs grow capacity entries items))"

definition active_log :: "'q logger \<Rightarrow> string option" where
  "active_log lg = (if lg_state lg = LOGGER_IDLE then None else Some (base_name (data_logger_path lg)))"

text \<open>None where the C code returns NULL with an error number.\<close>

definition load_completed_logs :: "dir_env \<Rightarrow> 'q logger \<Rightarrow> (string \<times> nat) list option" where
  "load_completed_logs env lg =
     (if \<not> dir_opened env then None
      else map_option (\<lambda>entries. rev (sort_key fst entries))
             (collect_logs (active_log lg) (sd_card lg) (grow_ok env) 0 [] (dir_names env)))"

text \<open>The chunks of a loop that breaks when one is not sent.\<close>

definition log_item :: "nat \<Rightarrow> string \<times> nat \<Rightarrow> string" where
  "log_item i entry =
     (if i = 0 then [] else '','')
     @ json_object [json_field ''name'' (quoted (fst entry)), json_field ''size_bytes'' (dec (snd entry))]"

definition logs_handler :: "(nat \<Rightarrow> bool) \<Rightarrow> dir_env \<Rightarrow> 'q logger \<Rightarrow> response" where
  "logs_handler ok env lg =
     (case load_completed_logs env lg of
        None \<Rightarrow> send_json_error ok ''500 Internal Server Error'' ''Unable to read the SD card''
      | Some entries \<Rightarrow>
          let items = map (\<lambda>i. snprintf 128 (log_item i (entries ! i))) [0..<length entries];
              sent = delivered ok 1 items;
              calls = 1 + length sent + (if sent = items then 0 else 1)
          in \<lparr>rs_status = ''200 OK'', rs_type = ''application/json'', rs_headers = no_store,
              rs_body = Texts ((if ok 0 then [''[''] else []) @ sent @ (if ok calls then ['']''] else [])),
              rs_sent = ok (calls + 1)\<rparr>)"

subsection \<open>Status and commands\<close>

definition status_body :: "string \<Rightarrow> app_status \<Rightarrow> string" where
  "status_body state_name st =
     json_object
       [json_field ''logger_state'' (quoted state_name),
        json_field ''current_file'' (quoted (base_name (st_current_file st))),
        json_field ''can_drops'' (dec (unat (st_can_drops st))),
        json_field ''log_drops'' (dec (unat (st_log_drops st))),
        json_field ''can_rx_errors'' (dec (unat (st_can_rx_errors st))),
        json_field ''can_tx_errors'' (dec (unat (st_can_tx_errors st))),
        json_field ''can_errors_available'' (json_bool (st_can_errors_available st)),
        json_field ''live_enabled'' (json_bool (st_live_enabled st)),
        json_field ''nodes''
          (json_object [json_field ''1'' (quoted (st_node_1 st)), json_field ''3'' (quoted (st_node_3 st)),
             json_field ''4'' (quoted (st_node_4 st)), json_field ''5'' (quoted (st_node_5 st)),
             json_field ''6'' (quoted (st_node_6 st))])]"

record driver_env =
  twai_handle :: bool
  twai_info :: esp_err
  twai_counts :: "u32 \<times> u32"
  status_now_us :: int

definition status_handler :: "(nat \<Rightarrow> bool) \<Rightarrow> driver_env \<Rightarrow> ('q, 'r) app \<Rightarrow> response \<times> ('q, 'r) app" where
  "status_handler ok env app =
     (let (st, app) = app_control_get_status (twai_handle env) (twai_info env) (twai_counts env) (status_now_us env) app
      in (send_json ok (snprintf 512 (status_body (data_logger_state_name (logger_of app)) st)), app))"

text \<open>The name a start request selects: None for the default name, or the error response.\<close>

definition selected_name :: "(nat \<Rightarrow> bool) \<Rightarrow> query_key \<Rightarrow> request \<Rightarrow> response + string option" where
  "selected_name ok key request =
     (case rq_query request 96 of
        Query query \<Rightarrow>
          (let filename = key query ''name'' (DATA_LOGGER_FILENAME_MAX + 1)
           in if filename = None \<or> \<not> data_logger_valid_filename filename
              then Inl (send_json_error ok ''400 Bad Request'' bad_name_text)
              else Inr filename)
      | No_query \<Rightarrow> Inr None
      | Query_failed \<Rightarrow> Inl (send_json_error ok ''400 Bad Request'' ''Log filename is too long''))"

definition command_response :: "(nat \<Rightarrow> bool) \<Rightarrow> app_control_result \<Rightarrow> response option" where
  "command_response ok result =
     (case result of
        APP_CONTROL_CONFLICT \<Rightarrow>
          Some (send_json_error ok ''409 Conflict'' ''Command is not valid in the current logger state'')
      | APP_CONTROL_INVALID_FILENAME \<Rightarrow> Some (send_json_error ok ''400 Bad Request'' bad_name_text)
      | APP_CONTROL_FILENAME_EXISTS \<Rightarrow>
          Some (send_json_error ok ''409 Conflict'' ''A log with this filename already exists'')
      | APP_CONTROL_OK \<Rightarrow> None
      | _ \<Rightarrow> Some (send_json_error ok ''500 Internal Server Error'' ''Logger command failed''))"

text \<open>The response, the driver calls of the command and the state; None as for the start itself.\<close>

definition command_handler ::
  "bool \<Rightarrow> ('q, queued_sample) queue_api \<Rightarrow> (nat \<Rightarrow> u32) \<Rightarrow> (nat \<Rightarrow> bool) \<Rightarrow> query_key \<Rightarrow> app_env \<Rightarrow> driver_env \<Rightarrow>
   request \<Rightarrow> ('q, 'r) app \<Rightarrow> (response \<times> tx_action list \<times> ('q, 'r) app) option" where
  "command_handler can_enabled Q pd ok key env denv request app =
     (let starting = take 18 (rq_uri request) = ''/api/logging/start''
      in case (if starting then selected_name ok key request else Inr None) of
           Inl refused \<Rightarrow> Some (refused, [], app)
         | Inr name \<Rightarrow>
             (case (if starting then app_control_start_logging can_enabled Q pd env name app
                    else Some (app_control_stop_logging can_enabled env app)) of
                None \<Rightarrow> None
              | Some (result, acts, app) \<Rightarrow>
                  (case command_response ok result of
                     Some response \<Rightarrow> Some (response, acts, app)
                   | None \<Rightarrow> let (response, app) = status_handler ok denv app in Some (response, acts, app))))"

subsection \<open>Renaming\<close>

definition rename_response :: "(nat \<Rightarrow> bool) \<Rightarrow> data_logger_rename_result \<Rightarrow> string \<Rightarrow> response" where
  "rename_response ok result new_name =
     (case result of
        DATA_LOGGER_RENAME_ACTIVE \<Rightarrow> send_json_error ok ''409 Conflict'' ''The active log cannot be renamed''
      | DATA_LOGGER_RENAME_NOT_FOUND \<Rightarrow> send_json_error ok ''404 Not Found'' ''Log file not found''
      | DATA_LOGGER_RENAME_EXISTS \<Rightarrow> send_json_error ok ''409 Conflict'' ''A log with the new filename already exists''
      | DATA_LOGGER_RENAME_INVALID_NAME \<Rightarrow> send_json_error ok ''400 Bad Request'' ''Invalid log filename''
      | DATA_LOGGER_RENAME_FAILED \<Rightarrow> send_json_error ok ''500 Internal Server Error'' ''Unable to rename the log file''
      | DATA_LOGGER_RENAME_OK \<Rightarrow> send_json ok (snprintf 80 (json_object [json_field ''name'' (quoted new_name)])))"

definition rename_log_handler ::
  "(nat \<Rightarrow> bool) \<Rightarrow> query_key \<Rightarrow> bool \<Rightarrow> rename_env \<Rightarrow> request \<Rightarrow> 'q logger \<Rightarrow> response \<times> 'q logger" where
  "rename_log_handler ok key download_mutex env request lg =
     (let names = (case rq_query request 128 of
                     Query query \<Rightarrow> (key query ''name'' (DATA_LOGGER_FILENAME_MAX + 1),
                                     key query ''new_name'' (DATA_LOGGER_FILENAME_MAX + 1))
                   | _ \<Rightarrow> (None, None))
      in if \<not> data_logger_valid_filename (fst names) \<or> \<not> data_logger_valid_filename (snd names)
         then (send_json_error ok ''400 Bad Request'' bad_name_text, lg)
         else if \<not> download_mutex
         then (send_json_error ok ''503 Service Unavailable'' ''Another log operation is already active'', lg)
         else let (result, lg) = data_logger_rename env (fst names) (snd names) lg
              in (rename_response ok result (the (snd names)), lg))"

subsection \<open>Downloads\<close>

text \<open>
  What a download meets: the mutex, which files open, how many bytes of each can be read before an
  error, the buffer of the binary export.
\<close>

record download_env =
  download_mutex :: bool
  file_opens :: bool
  utc_opens :: bool
  file_readable :: nat
  utc_readable :: nat
  buffer_allocated :: bool

definition open_read :: "bool \<Rightarrow> filesystem \<Rightarrow> string \<Rightarrow> u8 list option" where
  "open_read opens fs path =
     (case fs path of Some (Regular_File bytes) \<Rightarrow> if opens then Some bytes else None | _ \<Rightarrow> None)"

definition csv_attachment_name :: "string \<Rightarrow> bool \<Rightarrow> string" where
  "csv_attachment_name name paired =
     snprintf 48 (take (length name - 4) name @ (if paired then ''_powertrain'' else []) @ ''.csv'')"

definition attachment :: "string \<Rightarrow> string \<times> string" where
  "attachment name = (''Content-Disposition'', snprintf 80 (''attachment; filename='' @ quoted name))"

definition download_handler ::
  "(nat \<Rightarrow> bool) \<Rightarrow> query_key \<Rightarrow> download_env \<Rightarrow> request \<Rightarrow> 'q logger \<Rightarrow> response" where
  "download_handler ok key env request lg =
     (let (name, format) = (case rq_query request 128 of
                     Query query \<Rightarrow> (key query ''name'' (DATA_LOGGER_FILENAME_MAX + 1), key query ''format'' 8)
                   | _ \<Rightarrow> (None, None))
      in if \<not> data_logger_valid_filename name \<or> format \<notin> {Some ''bin'', Some ''csv'', Some ''paired''}
         then send_json_error ok ''400 Bad Request'' ''Expected a valid log filename and bin, csv or paired format''
         else if lg_state lg \<noteq> LOGGER_IDLE \<and> the name = base_name (data_logger_path lg)
         then send_json_error ok ''409 Conflict'' ''The active log is not available until Stop completes''
         else if \<not> download_mutex env
         then send_json_error ok ''503 Service Unavailable'' ''Another download is already active''
         else
           let path = snprintf 96 (''/sdcard/'' @ the name)
           in (case open_read (file_opens env) (sd_card lg) path of
                 None \<Rightarrow> send_json_error ok ''404 Not Found'' ''Log file not found''
               | Some bytes \<Rightarrow>
                   let file = take (file_readable env) bytes; ferror = (file_readable env < length bytes);
                       paired = (format = Some ''paired''); csv_format = (paired \<or> format = Some ''csv'')
                   in if csv_format
                      then
                        let utc_in = map_option (take (utc_readable env))
                              (open_read (utc_opens env) (sd_card lg) (snprintf 104 (path @ ''.utc'')));
                            (sent, chunks) = (if paired then stream_paired_csv ok file ferror utc_in
                                              else stream_csv ok file ferror utc_in)
                        in \<lparr>rs_status = ''200 OK'', rs_type = ''text/csv; charset=utf-8'',
                            rs_headers = [attachment (csv_attachment_name (the name) paired)],
                            rs_body = Texts chunks, rs_sent = sent\<rparr>
                      else
                        let (sent, chunks) = stream_binary (buffer_allocated env) ok file ferror
                        in \<lparr>rs_status = ''200 OK'', rs_type = ''application/octet-stream'',
                            rs_headers = [attachment (the name)],
                            rs_body = Binary chunks, rs_sent = sent\<rparr>))"

subsection \<open>The live view\<close>

definition char_isspace :: "char \<Rightarrow> bool" where
  "char_isspace c \<longleftrightarrow> (of_char c :: nat) = 32 \<or> (9 \<le> (of_char c :: nat) \<and> (of_char c :: nat) \<le> 13)"

text \<open>
  \<open>strtoul(text, &end, 16)\<close> for the 32-bit \<open>unsigned long\<close> of the target: the number and the text
  from \<open>end\<close> on.
\<close>

definition strtoul16 :: "string \<Rightarrow> u32 \<times> string" where
  "strtoul16 text =
     (let s = dropWhile char_isspace text;
          negative = (s \<noteq> [] \<and> hd s = CHR ''-'');
          s = (if s \<noteq> [] \<and> (hd s = CHR ''-'' \<or> hd s = CHR ''+'') then tl s else s);
          s = (if length s > 2 \<and> s ! 0 = CHR ''0'' \<and> (s ! 1 = CHR ''x'' \<or> s ! 1 = CHR ''X'') \<and> char_isxdigit (s ! 2)
               then drop 2 s else s);
          ds = takeWhile char_isxdigit s;
          number = hex_number ds
      in if ds = [] then (0, text)
         else (if number > 0xFFFFFFFF then 0xFFFFFFFF
               else if negative then - word_of_nat number else word_of_nat number,
               dropWhile char_isxdigit s))"

definition request_token :: "query_key \<Rightarrow> request \<Rightarrow> u32 option" where
  "request_token key request =
     (case rq_query request 64 of
        Query query \<Rightarrow>
          (case key query ''token'' 16 of
             None \<Rightarrow> None
           | Some v \<Rightarrow>
               let (parsed, rest) = strtoul16 v
               in if v = [] \<or> rest \<noteq> [] \<or> parsed = 0 then None else Some parsed)
      | _ \<Rightarrow> None)"

text \<open>A list response whose loop returns at the first chunk that is too long or not sent.\<close>

definition chunked_json :: "(nat \<Rightarrow> bool) \<Rightarrow> nat \<Rightarrow> string \<Rightarrow> string \<Rightarrow> string list \<Rightarrow> response" where
  "chunked_json ok limit opening closing items =
     (let chunks = opening # takeWhile (\<lambda>item. length item < limit) items @
            (if list_all (\<lambda>item. length item < limit) items then [closing] else [])
      in \<lparr>rs_status = ''200 OK'', rs_type = ''application/json'', rs_headers = no_store,
          rs_body = Texts (delivered ok 0 chunks),
          rs_sent = (delivered ok 0 chunks = opening # items @ [closing] \<and> ok (length chunks))\<rparr>)"

definition signal_item :: "nat \<Rightarrow> live_signal_metadata \<Rightarrow> string" where
  "signal_item i s =
     (if i = 0 then [] else '','')
     @ json_object
         [json_field ''can_id'' (dec (unat (sm_can_id s))),
          json_field ''can_id_hex'' (quoted (''0x'' @ hex_pad 3 (unat (sm_can_id s)))),
          json_field ''signal'' (quoted (sm_signal s)), json_field ''node'' (quoted (sm_node s)),
          json_field ''units'' (quoted (sm_units s)), json_field ''native_rate_hz'' (dec (unat (sm_native_rate_hz s)))]"

definition live_signals_handler :: "(nat \<Rightarrow> bool) \<Rightarrow> response" where
  "live_signals_handler ok =
     chunked_json ok 192 ''['' '']'' (map (\<lambda>i. signal_item i (signals ! i)) [0..<length signals])"

definition token_text :: "u32 \<Rightarrow> string" where
  "token_text token = zero_pad 8 (hex False (unat token))"

record live_env =
  live_lifecycle :: bool
  live_now_us :: int
  live_random :: u32

definition live_start_handler ::
  "(nat \<Rightarrow> bool) \<Rightarrow> live_env \<Rightarrow> ('q, 'r) app \<Rightarrow> response \<times> ('q, 'r) app" where
  "live_start_handler ok env app =
     (let ((result, token), app) = app_control_start_live_data True (live_lifecycle env) (live_now_us env) (live_random env) app
      in (if result = APP_CONTROL_CONFLICT
          then send_json_error ok ''409 Conflict'' ''Live data is available only while recording''
          else if result = APP_CONTROL_BUSY
          then send_json_error ok ''503 Service Unavailable'' ''Another live viewer is active''
          else if result \<noteq> APP_CONTROL_OK
          then send_json_error ok ''500 Internal Server Error'' ''Unable to start live data''
          else send_json ok (snprintf 96 (json_object
                 [json_field ''token'' (quoted (token_text (the token))),
                  json_field ''lease_seconds'' (dec (nat LIVE_DATA_LEASE_SECONDS))])), app))"

definition sample_item :: "bool \<Rightarrow> live_sample \<Rightarrow> string" where
  "sample_item first s =
     (if first then [] else '','')
     @ json_object
         [json_field ''can_id'' (dec (unat (ls_can_id s))), json_field ''value'' (dec_int (ls_value s)),
          json_field ''timestamp_ms'' (dec (unat (ls_timestamp_ms s))), json_field ''sequence'' (dec (unat (ls_sequence s)))]"

definition sample_items :: "live_sample list \<Rightarrow> string list" where
  "sample_items samples =
     (let valid = filter ls_valid samples in map (\<lambda>i. sample_item (i = 0) (valid ! i)) [0..<length valid])"

definition live_samples_handler ::
  "(nat \<Rightarrow> bool) \<Rightarrow> query_key \<Rightarrow> int \<Rightarrow> request \<Rightarrow> live_data \<Rightarrow> response \<times> live_data" where
  "live_samples_handler ok key now_us request l =
     (case request_token key request of
        None \<Rightarrow> (send_json_error ok ''400 Bad Request'' ''Missing or invalid token'', l)
      | Some token \<Rightarrow>
          let ((result, samples), l) = live_data_snapshot token LIVE_DATA_SIGNAL_COUNT now_us l
          in (if result = LIVE_DATA_DISABLED
              then send_json_error ok ''409 Conflict'' ''Live data is disabled''
              else if result \<noteq> LIVE_DATA_OK
              then send_json_error ok ''403 Forbidden'' ''Invalid live viewer token''
              else chunked_json ok 160 (''{'' @ quoted ''samples'' @ '':['') '']}'' (sample_items (the samples)), l))"

definition live_stop_handler ::
  "(nat \<Rightarrow> bool) \<Rightarrow> query_key \<Rightarrow> int \<Rightarrow> request \<Rightarrow> live_data \<Rightarrow> response \<times> live_data" where
  "live_stop_handler ok key now_us request l =
     (case request_token key request of
        None \<Rightarrow> (send_json_error ok ''400 Bad Request'' ''Missing or invalid token'', l)
      | Some token \<Rightarrow>
          let (result, l) = live_data_stop token now_us l
          in (if result = LIVE_DATA_INVALID_TOKEN
              then send_json_error ok ''403 Forbidden'' ''Invalid live viewer token''
              else if result = LIVE_DATA_DISABLED
              then send_json_error ok ''409 Conflict'' ''Live data is disabled''
              else \<lparr>rs_status = ''200 OK'', rs_type = ''application/json'', rs_headers = [],
                    rs_body = Texts [json_object [json_field ''live_enabled'' ''false'']], rs_sent = ok 0\<rparr>, l))"

subsection \<open>Routes and start-up\<close>

datatype http_method = HTTP_GET | HTTP_POST

datatype handler =
    Root | Status | Command | Logs | Rename | Download | Live_signals | Live_start | Live_samples | Live_stop

definition handlers :: "(string \<times> http_method \<times> handler) list" where
  "handlers =
     [(''/'', HTTP_GET, Root), (''/api/status'', HTTP_GET, Status),
      (''/api/logging/start'', HTTP_POST, Command), (''/api/logging/stop'', HTTP_POST, Command),
      (''/api/logs'', HTTP_GET, Logs), (''/api/logs/rename'', HTTP_POST, Rename),
      (''/api/logs/download'', HTTP_GET, Download), (''/api/live/signals'', HTTP_GET, Live_signals),
      (''/api/live/start'', HTTP_POST, Live_start), (''/api/live/samples'', HTTP_GET, Live_samples),
      (''/api/live/stop'', HTTP_POST, Live_stop)]"

definition MAX_URI_HANDLERS :: nat where "MAX_URI_HANDLERS = 12"

text \<open>The registrations one after the other; the first error stops the server again.\<close>

fun register_handlers :: "(nat \<Rightarrow> esp_err) \<Rightarrow> nat \<Rightarrow> (string \<times> http_method \<times> handler) list \<Rightarrow> esp_err" where
  "register_handlers reg i [] = ESP_OK"
| "register_handlers reg i (h # hs) = (if reg i \<noteq> ESP_OK then reg i else register_handlers reg (i + 1) hs)"

text \<open>The result and whether the server runs.\<close>

definition start_http_server :: "esp_err \<Rightarrow> (nat \<Rightarrow> esp_err) \<Rightarrow> esp_err \<times> bool" where
  "start_http_server start reg =
     (if start \<noteq> ESP_OK then (start, False)
      else let error = register_handlers reg 0 handlers in (error, error = ESP_OK))"

text \<open>
  What the steps of \<open>web_server_start\<close> meet.  The codes of the two NVS conditions that are cured
  by erasing and of an address server that was stopped already are given with the results.
\<close>

record net_env =
  web_mutex_created :: bool
  hosted_init :: esp_err
  nvs_init :: esp_err
  nvs_curable :: "esp_err \<Rightarrow> bool"
  nvs_init_again :: esp_err
  netif_init :: esp_err
  event_loop :: esp_err
  ap_created :: bool
  dhcps_stop :: esp_err
  dhcps_already_stopped :: esp_err
  set_ip_info :: esp_err
  dhcps_start :: esp_err
  wifi_results :: "esp_err list"
  httpd_start :: esp_err
  httpd_register :: "nat \<Rightarrow> esp_err"

fun first_error :: "esp_err list \<Rightarrow> esp_err" where
  "first_error [] = ESP_OK"
| "first_error (e # es) = (if e \<noteq> ESP_OK then e else first_error es)"

text \<open>\<open>wifi_results\<close> are those of \<open>esp_wifi_init\<close>, \<open>_set_mode\<close>, \<open>_set_config\<close> and \<open>_start\<close>.\<close>

definition web_server_start :: "net_env \<Rightarrow> esp_err \<times> bool" where
  "web_server_start env =
     (if \<not> web_mutex_created env then (ESP_ERR_NO_MEM, False)
      else if hosted_init env \<noteq> ESP_OK then (hosted_init env, False)
      else
        let nvs = (if nvs_curable env (nvs_init env) then nvs_init_again env else nvs_init env)
        in if nvs \<noteq> ESP_OK then (nvs, False)
           else if netif_init env \<noteq> ESP_OK then (netif_init env, False)
           else if event_loop env \<noteq> ESP_OK \<and> event_loop env \<noteq> ESP_ERR_INVALID_STATE then (event_loop env, False)
           else if \<not> ap_created env then (ESP_ERR_NO_MEM, False)
           else if dhcps_stop env \<noteq> ESP_OK \<and> dhcps_stop env \<noteq> dhcps_already_stopped env then (dhcps_stop env, False)
           else
             let error = first_error ([set_ip_info env, dhcps_start env] @ wifi_results env)
             in if error \<noteq> ESP_OK then (error, False)
                else start_http_server (httpd_start env) (httpd_register env))"

lemma register_handlers_ok: "register_handlers reg i hs = ESP_OK \<longleftrightarrow> (\<forall>j < length hs. reg (i + j) = ESP_OK)"
proof (induction hs arbitrary: i)
  case (Cons h hs)
  show ?case
    using Cons.IH [of "i + 1"] by (auto simp: less_Suc_eq_0_disj)
qed simp

lemma server_runs_iff_ok: "snd (web_server_start env) \<longleftrightarrow> fst (web_server_start env) = ESP_OK"
  by (auto simp: web_server_start_def start_http_server_def Let_def)

lemma routes_fit: "length handlers \<le> MAX_URI_HANDLERS" "distinct (map (\<lambda>(uri, m, h). (uri, m)) handlers)"
  by (simp_all add: handlers_def MAX_URI_HANDLERS_def)

subsection \<open>Responses are complete\<close>

lemma length_json [simp]:
  "length (quoted s) = length s + 2" "length (json_field n v) = length n + 3 + length v"
  "length (json_object ms) = 2 + sum_list (map length ms) + (length ms - 1)"
  by (simp_all add: quoted_def json_field_def json_object_def comma_separated_length)

lemma length_json_bool: "length (json_bool b) \<le> 5"
  by (simp add: json_bool_def)

lemma base_name_length: "length (base_name p) \<le> length p"
  using length_takeWhile_le [of "\<lambda>c. c \<noteq> CHR ''/''" "rev p"] by (simp add: base_name_def)

lemma state_name_length: "length (data_logger_state_name lg) \<le> 8"
  by (simp add: data_logger_state_name_def split: logger_state.split)

lemma node_name_length: "length (node_registry_state_name n r) \<le> 8"
  by (simp add: node_registry_state_name_def)

lemma status_of_app:
  assumes "app_control_get_status handle info counts t app = (st, app')"
  shows "st_current_file st = data_logger_path (logger_of app)" and "logger_of app' = logger_of app"
    and "length (st_node_1 st) \<le> 8" and "length (st_node_3 st) \<le> 8" and "length (st_node_4 st) \<le> 8"
    and "length (st_node_5 st) \<le> 8" and "length (st_node_6 st) \<le> 8"
  using assms by (auto simp: app_control_get_status_def Let_def node_name_length split: prod.splits)

text \<open>
  No response is cut off.  As long as the path of the recording fits its array, the status, every
  entry of the list of recordings, every signal and every sample of the live view fits the buffer
  it is printed into, whatever the counters and values are, and so do all error texts.
\<close>
lemma responses_never_truncated:
  assumes "length (log_path (logger_of app)) < LOG_PATH_LENGTH"
    and "app_control_get_status handle info counts t app = (st, app')"
    and "data_logger_valid_filename (Some name)" and "bytes < 2 ^ 64" and "in_i32 (ls_value smp)" and "s \<in> set signals"
  shows "length (status_body (data_logger_state_name (logger_of app)) st) < 512
    \<and> length (log_item i (name, bytes)) < 128 \<and> length (signal_item i s) < 192
    \<and> length (sample_item first smp) < 160
    \<and> length (json_object [json_field ''name'' (quoted name)]) < 80
    \<and> length (csv_attachment_name name False) = length name \<and> length (snd (attachment name)) < 80"
proof -
  have path: "length (base_name (st_current_file st)) \<le> 63"
    using base_name_length [of "st_current_file st"] assms(1) status_of_app(1) [OF assms(2)]
    by (simp add: data_logger_path_def LOG_PATH_LENGTH_def split: if_splits)
  have status: "length (status_body (data_logger_state_name (logger_of app)) st) < 512"
    using path status_of_app(3-7) [OF assms(2)] state_name_length [of "logger_of app"]
      length_dec_u32 [of "st_can_drops st"] length_dec_u32 [of "st_log_drops st"]
      length_dec_u32 [of "st_can_rx_errors st"] length_dec_u32 [of "st_can_tx_errors st"]
      length_json_bool [of "st_can_errors_available st"] length_json_bool [of "st_live_enabled st"]
    by (simp add: status_body_def)
  obtain stem where n: "name = stem @ ''.bin''" "length stem \<le> 40" using assms(3) by (auto simp: valid_filename_iff)
  have "bytes < 10 ^ 20" using assms(4) by simp
  then have b: "length (dec bytes) \<le> 20" by (rule length_dec_less) simp
  have meta: "list_all (\<lambda>s. length (sm_signal s) \<le> 20 \<and> length (sm_node s) \<le> 14 \<and> length (sm_units s) \<le> 9
      \<and> unat (sm_can_id s) < 2048) signals"
    by (simp add: signals_def)
  then have s: "length (sm_signal s) \<le> 20" "length (sm_node s) \<le> 14" "length (sm_units s) \<le> 9" "unat (sm_can_id s) < 2048"
    using assms(6) by (auto simp: list_all_iff)
  have hx: "length (hex_pad 3 (unat (sm_can_id s))) \<le> 3"
    using length_hex_less [of "unat (sm_can_id s)" 3] s(4) by (simp add: hex_pad_def)
  have rate: "length (dec (unat (sm_native_rate_hz s))) \<le> 5" by (rule length_dec_word) simp_all
  have "length (signal_item i s) < 192"
    using s hx rate length_dec_u32 [of "sm_can_id s"] by (simp add: signal_item_def)
  moreover have "length (sample_item first smp) < 160"
    using length_dec_u32 [of "ls_can_id smp"] length_dec_u32 [of "ls_timestamp_ms smp"] length_dec_u32 [of "ls_sequence smp"]
      length_dec_i32 [OF assms(5)] by (simp add: sample_item_def)
  moreover have "length (log_item i (name, bytes)) < 128" using n b by (simp add: log_item_def)
  moreover have "length (snd (attachment name)) < 80" using n by (simp add: attachment_def snprintf_def)
  ultimately show ?thesis using status n by (simp add: csv_attachment_name_def)
qed

text \<open>The boot state, the first entry and an invalid sample.\<close>

text \<open>
  The name of a paired download.  The powertrain export of a recording is offered as its name
  with \<open>_powertrain.csv\<close> exactly when the name without \<open>.bin\<close> has at most 32 characters; for the
  longer names that are allowed the buffer of 48 bytes cuts the end off, so that the file arrives
  without its \<open>.csv\<close> ending.
\<close>
lemma paired_name_cut:
  assumes "data_logger_valid_filename (Some (stem @ ''.bin''))"
  shows "(csv_attachment_name (stem @ ''.bin'') True = stem @ ''_powertrain.csv'') = (length stem \<le> 32)
    \<and> (32 < length stem \<longrightarrow> csv_attachment_name (stem @ ''.bin'') True = take 47 (stem @ ''_powertrain.csv'')
         \<and> drop (47 - 4) (csv_attachment_name (stem @ ''.bin'') True) \<noteq> ''.csv'')"
proof (intro conjI impI)
  let ?full = "stem @ ''_powertrain.csv''"
  have name: "csv_attachment_name (stem @ ''.bin'') True = take 47 ?full"
    by (simp add: csv_attachment_name_def snprintf_def)
  show "(csv_attachment_name (stem @ ''.bin'') True = ?full) = (length stem \<le> 32)"
  proof
    assume "csv_attachment_name (stem @ ''.bin'') True = ?full"
    then have "length (take 47 ?full) = length ?full" unfolding name by simp
    then show "length stem \<le> 32" by simp
  qed (simp add: name)
  assume long: "32 < length stem"
  show "csv_attachment_name (stem @ ''.bin'') True = take 47 ?full" by (rule name)
  have "length stem \<le> 40" using assms by (auto simp: valid_filename_iff)
  then have "43 - length stem \<in> {3, 4, 5, 6, 7, 8, 9, 10}" using long by auto
  moreover have "drop (47 - 4) (take 47 ?full) = take 4 (drop (43 - length stem) ''_powertrain.csv'')"
    using \<open>length stem \<le> 40\<close> by (simp add: drop_take)
  ultimately show "drop (47 - 4) (csv_attachment_name (stem @ ''.bin'') True) \<noteq> ''.csv''"
    unfolding name by (elim insertE emptyE) simp_all
qed

subsection \<open>The list is exact\<close>

lemma in_set_map_filter: "y \<in> set (List.map_filter f xs) \<longleftrightarrow> (\<exists>x \<in> set xs. f x = Some y)"
  by (induction xs) (auto split: option.split)

lemma collect_logs_entries:
  assumes "collect_logs active fs grow capacity entries items = Some es"
  shows "es = entries @ List.map_filter (\<lambda>item.
      if data_logger_valid_filename (Some item) \<and> active \<noteq> Some item
      then (case fs (''/sdcard/'' @ item) of Some (Regular_File bytes) \<Rightarrow> Some (item, length bytes) | _ \<Rightarrow> None)
      else None) items"
  using assms
proof (induction items arbitrary: entries capacity)
  case (Cons item items)
  show ?case
  proof (cases "data_logger_valid_filename (Some item) \<and> active \<noteq> Some item")
    case False
    then show ?thesis using Cons by auto
  next
    case True
    obtain stem where n: "item = stem @ ''.bin''" "length stem \<le> 40" using True by (auto simp: valid_filename_iff)
    have p: "snprintf 96 (''/sdcard/'' @ item) = ''/sdcard/'' @ item"
      "snprintf (DATA_LOGGER_FILENAME_MAX + 1) item = item" using n by (simp_all add: DATA_LOGGER_FILENAME_MAX_def)
    have keep: "(\<not> data_logger_valid_filename (Some item) \<or> active = Some item) = False" using True by simp
    note run = Cons.prems [unfolded collect_logs.simps p keep if_False]
    show ?thesis
    proof (cases "fs (''/sdcard/'' @ item)")
      case None
      then show ?thesis using run Cons.IH True by simp
    next
      case (Some node)
      show ?thesis
      proof (cases node)
        case Other_Node
        then show ?thesis using Some run Cons.IH True by simp
      next
        case (Regular_File bytes)
        obtain larger where "collect_logs active fs grow larger (entries @ [(item, length bytes)]) items = Some es"
          using run Some Regular_File by (cases "length entries = capacity") (simp_all add: Let_def split: if_splits)
        from Cons.IH [OF this] show ?thesis using Some Regular_File True by simp
      qed
    qed
  qed
qed simp

text \<open>
  The list of recordings is exact.  Unless the card cannot be read, the list names exactly the
  entries of the directory that are valid names of regular files and not the recording in
  progress, each once with its size, and in descending order.
\<close>
lemma log_list_exact:
  assumes "load_completed_logs env lg = Some es" and "distinct (dir_names env)"
  shows "((name, n) \<in> set es \<longleftrightarrow>
      name \<in> set (dir_names env) \<and> data_logger_valid_filename (Some name)
      \<and> (lg_state lg \<noteq> LOGGER_IDLE \<longrightarrow> name \<noteq> base_name (data_logger_path lg))
      \<and> (\<exists>bytes. sd_card lg (''/sdcard/'' @ name) = Some (Regular_File bytes) \<and> n = length bytes))
    \<and> distinct (map fst es) \<and> sorted_wrt (\<lambda>a b. fst b \<le> fst a) es"
proof -
  let ?f = "\<lambda>item. if data_logger_valid_filename (Some item) \<and> active_log lg \<noteq> Some item
      then (case sd_card lg (''/sdcard/'' @ item) of Some (Regular_File bytes) \<Rightarrow> Some (item, length bytes) | _ \<Rightarrow> None)
      else None"
  obtain found where f: "collect_logs (active_log lg) (sd_card lg) (grow_ok env) 0 [] (dir_names env) = Some found"
    and es: "es = rev (sort_key fst found)"
    using assms(1) by (auto simp: load_completed_logs_def split: if_splits)
  have found: "found = List.map_filter ?f (dir_names env)" using collect_logs_entries [OF f] by simp
  define f where "f = ?f"
  have key: "fst y = item" if "f item = Some y" for item y
    using that by (auto simp: f_def split: if_splits option.splits fs_node.splits)
  have "(name, n) \<in> set found \<longleftrightarrow> (\<exists>item \<in> set (dir_names env). f item = Some (name, n))"
    unfolding found f_def by (rule in_set_map_filter)
  then have "(name, n) \<in> set found \<longleftrightarrow> name \<in> set (dir_names env) \<and> f name = Some (name, n)"
    using key by fastforce
  then have mem: "(name, n) \<in> set es \<longleftrightarrow> name \<in> set (dir_names env) \<and> data_logger_valid_filename (Some name)
      \<and> (lg_state lg \<noteq> LOGGER_IDLE \<longrightarrow> name \<noteq> base_name (data_logger_path lg))
      \<and> (\<exists>bytes. sd_card lg (''/sdcard/'' @ name) = Some (Regular_File bytes) \<and> n = length bytes)"
    unfolding es by (auto simp: f_def active_log_def split: if_splits option.splits fs_node.splits)
  have "map fst (List.map_filter f items) = filter (\<lambda>item. f item \<noteq> None) items" for items
    by (induction items) (auto simp: key split: option.split)
  then have "map fst found = filter (\<lambda>item. f item \<noteq> None) (dir_names env)" unfolding found f_def [symmetric] .
  then have "distinct (map fst found)" using assms(2) by simp
  then have "distinct (map fst es)" unfolding es by (simp add: distinct_map inj_on_def)
  moreover have "sorted_wrt (\<lambda>a b. fst a \<le> fst b) (sort_key fst found)"
    using sorted_sort_key [of fst found] by (simp add: sorted_map)
  ultimately show ?thesis using mem unfolding es sorted_wrt_rev by blast
qed

subsection \<open>The live view over HTTP\<close>

lemma hex_number_zero_pad: "hex_number (zero_pad w s) = hex_number s"
proof -
  have "digit_char 0 = CHR ''0''" by code_simp
  then have "hex_number (replicate k (digit_char 0) @ s) = hex_number s" for k
    by (induction k) (simp_all add: hex_number_def hex_value_def)
  then show ?thesis by (simp add: zero_pad_def)
qed

lemma token_text_digits:
  shows "length (token_text t) = 8" and "list_all char_isxdigit (token_text t)" and "hex_number (token_text t) = unat t"
proof -
  have "unat t < 2 ^ 32" using unsigned_less [of t] by simp
  then have "length (hex False (unat t)) \<le> 8" by (intro length_hex_less) simp_all
  then show "length (token_text t) = 8" by (simp add: token_text_def)
  have "digit_char 0 = CHR ''0''" by code_simp
  then show "list_all char_isxdigit (token_text t)"
    using hex_digits [of False "unat t"] by (auto simp: token_text_def zero_pad_def list_all_iff char_class_defs)
  show "hex_number (token_text t) = unat t" by (simp add: token_text_def hex_number_zero_pad)
qed

lemma strtoul_digits:
  assumes "list_all char_isxdigit s" and "s \<noteq> []" and "hex_number s \<le> 0xFFFFFFFF"
  shows "strtoul16 s = (word_of_nat (hex_number s), [])"
proof -
  have x: "char_isxdigit c \<Longrightarrow> \<not> char_isspace c \<and> c \<noteq> CHR ''-'' \<and> c \<noteq> CHR ''+'' \<and> c \<noteq> CHR ''x'' \<and> c \<noteq> CHR ''X''" for c
    by (auto simp: char_class_defs char_isspace_def)
  have all: "\<forall>c \<in> set s. char_isxdigit c" using assms(1) by (simp add: list_all_iff)
  have hd: "char_isxdigit (hd s)" "\<not> char_isspace (hd s)" "hd s \<noteq> CHR ''-''" "hd s \<noteq> CHR ''+''"
    using all assms(2) x by auto
  have "dropWhile char_isspace s = s" using hd(2) assms(2) by (cases s) simp_all
  moreover have "length s > 2 \<Longrightarrow> s ! 1 \<noteq> CHR ''x'' \<and> s ! 1 \<noteq> CHR ''X''" using all x nth_mem [of 1 s] by auto
  moreover have "takeWhile char_isxdigit s = s" "dropWhile char_isxdigit s = []"
    using all by (simp_all only: takeWhile_eq_all_conv dropWhile_eq_Nil_conv)
  ultimately show ?thesis using hd assms(2,3)
    by (auto simp: strtoul16_def Let_def simp del: takeWhile_eq_all_conv dropWhile_eq_Nil_conv)
qed

lemma strtoul_token: "strtoul16 (token_text t) = (t, [])"
proof -
  have "unat t < 2 ^ 32" using unsigned_less [of t] by simp
  then have "hex_number (token_text t) \<le> 0xFFFFFFFF" unfolding token_text_digits by simp
  moreover have "token_text t \<noteq> []" using token_text_digits(1) [of t] by auto
  ultimately show ?thesis
    using strtoul_digits [OF token_text_digits(2), of t] by (simp add: token_text_digits(3))
qed

text \<open>
  C31: the live view works over HTTP.  When a client is given the live view, the token printed in
  the response, sent back as a query parameter, is read as the same token: until the lease runs
  out it is answered with the samples and extends the lease, while every other token is refused
  and so is every other client's request to start.
\<close>
theorem live_view_over_http:
  assumes "live_start_handler ok env app = (resp, app')" and "rs_status resp = ''200 OK''"
    and "now < live_now_us env + LIVE_DATA_LEASE_US"
  shows "\<exists>token. token \<noteq> 0
    \<and> rs_body resp = Texts [json_object [json_field ''token'' (quoted (token_text token)),
         json_field ''lease_seconds'' ''10'']]
    \<and> (\<forall>key request query. rq_query request 64 = Query query \<and> key query ''token'' 16 = Some (token_text token) \<longrightarrow>
         live_samples_handler ok key now request (live_of app') =
           (chunked_json ok 160 (''{'' @ quoted ''samples'' @ '':['') '']}'' (sample_items (ld_latest (live_of app'))),
            (live_of app')\<lparr>ld_lease_deadline_us := now + LIVE_DATA_LEASE_US\<rparr>))
    \<and> (\<forall>key request other. request_token key request = Some other \<and> other \<noteq> token \<longrightarrow>
         rs_status (fst (live_samples_handler ok key now request (live_of app'))) = ''403 Forbidden'')
    \<and> (\<forall>env2. live_lifecycle env2 \<and> live_now_us env2 = now \<longrightarrow>
         rs_status (fst (live_start_handler ok env2 app')) = ''503 Service Unavailable'')"
proof -
  obtain result tok l where started: "app_control_start_live_data True (live_lifecycle env) (live_now_us env)
      (live_random env) app = ((result, tok), l)"
    by (metis surj_pair)
  have ok: "result = APP_CONTROL_OK"
    using assms(1,2) started by (auto simp: live_start_handler_def send_json_error_def split: if_splits)
  then obtain token where t: "tok = Some token" "token \<noteq> 0" and run: "lg_state (logger_of app) = LOGGER_RUNNING"
    "lifecycle_ready app"
    and l: "logger_of l = logger_of app" "lifecycle_ready l = lifecycle_ready app" "ld_enabled (live_of l)"
      "ld_owner_token (live_of l) = token" "ld_lease_deadline_us (live_of l) = live_now_us env + LIVE_DATA_LEASE_US"
    using started by (auto simp: app_control_start_live_data_def live_data_start_def Let_def split: if_splits)
  have resp: "app' = l" "rs_body resp = Texts [snprintf 96 (json_object [json_field ''token'' (quoted (token_text token)),
         json_field ''lease_seconds'' (dec 10)])]"
    using assms(1) started ok t by (auto simp: live_start_handler_def send_json_def LIVE_DATA_LEASE_SECONDS_def)
  have ten: "dec 10 = ''10''" by code_simp
  have body: "rs_body resp = Texts [json_object [json_field ''token'' (quoted (token_text token)),
         json_field ''lease_seconds'' ''10'']]"
    unfolding resp ten by (simp add: token_text_digits(1))
  have live: "expire_locked now (live_of l) = live_of l" using assms(3) l(5) by (simp add: expire_locked_def)
  have read: "request_token key request = Some token"
    if "rq_query request 64 = Query query" "key query ''token'' 16 = Some (token_text token)" for key request query
    using that t(2) strtoul_token [of token] token_text_digits(1) [of token] by (auto simp: request_token_def)
  have snap: "live_data_snapshot token LIVE_DATA_SIGNAL_COUNT now (live_of l) =
      ((LIVE_DATA_OK, Some (ld_latest (live_of l))), (live_of l)\<lparr>ld_lease_deadline_us := now + LIVE_DATA_LEASE_US\<rparr>)"
    using live l t(2) by (simp add: live_data_snapshot_def Let_def)
  have other: "live_data_snapshot k LIVE_DATA_SIGNAL_COUNT now (live_of l) = ((LIVE_DATA_INVALID_TOKEN, None), live_of l)"
    if "k \<noteq> token" for k using live l that by (simp add: live_data_snapshot_def Let_def)
  have busy: "rs_status (fst (live_start_handler ok env2 l)) = ''503 Service Unavailable''"
    if "live_lifecycle env2" "live_now_us env2 = now" for env2
    using that live l run
    by (simp add: live_start_handler_def app_control_start_live_data_def live_data_start_def send_json_error_def)
  show ?thesis
    unfolding resp(1) using t(2) body read snap other busy
    by (intro exI [of _ token]) (auto simp: live_samples_handler_def send_json_error_def)
qed

theorem live_view_over_http_witness:
  "let app = (app_boot [] [] Map.empty :: (queued_sample list, can_message list) app)
         \<lparr>lifecycle_ready := True, logger_of := (logger_boot [] Map.empty)\<lparr>lg_state := LOGGER_RUNNING\<rparr>\<rparr>;
       env = \<lparr>live_lifecycle = True, live_now_us = 5, live_random = 7\<rparr>
   in rs_status (fst (live_start_handler (\<lambda>n. True) (env\<lparr>live_now_us := 6\<rparr>)
        (snd (live_start_handler (\<lambda>n. True) env app)))) = ''503 Service Unavailable''"
proof -
  let ?app = "(app_boot [] [] Map.empty :: (queued_sample list, can_message list) app)
         \<lparr>lifecycle_ready := True, logger_of := (logger_boot [] Map.empty)\<lparr>lg_state := LOGGER_RUNNING\<rparr>\<rparr>"
  let ?env = "\<lparr>live_lifecycle = True, live_now_us = 5, live_random = 7\<rparr>"
  have "rs_status (fst (live_start_handler (\<lambda>n. True) ?env ?app)) = ''200 OK''"
    by (simp add: live_start_handler_def app_control_start_live_data_def live_data_start_def app_boot_def
        live_data_init_def clear_locked_def expire_locked_def send_json_def Let_def)
  from live_view_over_http [OF surjective_pairing this, of 6] show ?thesis
    by (simp add: Let_def LIVE_DATA_LEASE_US_def LIVE_DATA_LEASE_SECONDS_def) auto
qed

end
