(* ===== verification/Master_Boot.thy ===== *)
theory Master_Boot
  imports Gps_Receiver Web_Server
begin

text \<open>
  The start of the master, \<open>app_main\<close> of \<open>master-node/src/main.c\<close>, with the initialisation functions
  it calls that the theories of the modules leave out: \<open>storage/sd_card.c\<close>, the queues, mutexes and
  tasks of the logger, the registry, the lifecycle, the console and the beacon.  A call of
  \<open>app_main\<close> is one step; the tasks it has created run between the calls.  A failed
  \<open>ESP_ERROR_CHECK\<close> restarts the chip: nothing runs after it.
\<close>

subsection \<open>The SD card\<close>

record sd_mount_config =
  format_if_mount_failed :: bool
  max_files :: nat
  allocation_unit_size :: nat

record 'p sd_host =
  host_slot :: nat
  pwr_ctrl_handle :: "'p option"

record sd_slot =
  slot_width :: nat
  slot_clk :: int
  slot_cmd :: int
  slot_d0 :: int
  slot_d1 :: int
  slot_d2 :: int
  slot_d3 :: int
  slot_cd :: int
  slot_wp :: int
  slot_flags :: u32

text \<open>
  What the mount meets: the build option \<open>SD_FORMAT_IF_MOUNT_FAILED\<close>, the power control of a chip
  that has an external supply for the card (by LDO channel), the defaults and constants of the
  SDMMC driver, and \<open>esp_vfs_fat_sdmmc_mount\<close>.
\<close>

record 'p sd_env =
  sd_format :: bool
  sd_power :: "(nat \<Rightarrow> esp_err \<times> 'p) option"
  sd_host_default :: "'p sd_host"
  sd_slot_default :: sd_slot
  sd_slot_0 :: nat
  sd_no_cd :: int
  sd_no_wp :: int
  sd_internal_pullup :: u32
  sd_fat_mount :: "string \<Rightarrow> 'p sd_host \<Rightarrow> sd_slot \<Rightarrow> sd_mount_config \<Rightarrow> esp_err"

definition sd_card_mount :: "'p sd_env \<Rightarrow> esp_err" where
  "sd_card_mount env =
     (let mount = \<lparr>format_if_mount_failed = sd_format env, max_files = 5, allocation_unit_size = 16 * 1024\<rparr>;
          host = (sd_host_default env)\<lparr>host_slot := sd_slot_0 env\<rparr>;
          host = (case sd_power env of
                    None \<Rightarrow> host
                  | Some new_ldo \<Rightarrow>
                      (case new_ldo 4 of
                         (error, handle) \<Rightarrow> if error = ESP_OK then host\<lparr>pwr_ctrl_handle := Some handle\<rparr> else host));
          slot = (sd_slot_default env)\<lparr>slot_width := 4, slot_clk := 43, slot_cmd := 44, slot_d0 := 39,
                    slot_d1 := 40, slot_d2 := 41, slot_d3 := 42, slot_cd := sd_no_cd env,
                    slot_wp := sd_no_wp env\<rparr>;
          slot = slot\<lparr>slot_flags := slot_flags slot OR sd_internal_pullup env\<rparr>
      in sd_fat_mount env ''/sdcard'' host slot mount)"

subsection \<open>The initialisation functions\<close>

text \<open>The queue or None when \<open>xQueueCreate\<close> failed, and whether the mutex and the task were created.\<close>

definition data_logger_init :: "'q option \<Rightarrow> bool \<Rightarrow> bool \<Rightarrow> 'q logger \<Rightarrow> esp_err \<times> 'q logger" where
  "data_logger_init queue mutex writer_created lg =
     (let lg = (case queue of None \<Rightarrow> lg | Some q \<Rightarrow> lg\<lparr>log_queue := q\<rparr>)
      in if queue = None \<or> \<not> mutex then (ESP_ERR_NO_MEM, lg)
         else (if writer_created then ESP_OK else ESP_ERR_NO_MEM, lg))"

definition node_registry_init :: "bool \<Rightarrow> esp_err" where
  "node_registry_init monitor_created = (if monitor_created then ESP_OK else ESP_ERR_NO_MEM)"

definition app_control_init :: "bool \<Rightarrow> ('q, 'r) app \<Rightarrow> esp_err \<times> ('q, 'r) app" where
  "app_control_init mutex a = (if mutex then ESP_OK else ESP_ERR_NO_MEM, a\<lparr>lifecycle_ready := mutex\<rparr>)"

text \<open>Which of the three callbacks are given; None for a NULL pointer to them.\<close>

definition serial_console_start :: "(bool \<times> bool \<times> bool) option \<Rightarrow> bool \<Rightarrow> esp_err" where
  "serial_console_start callbacks task_created =
     (case callbacks of
        None \<Rightarrow> ESP_ERR_INVALID_ARG
      | Some (start_given, stop_given, status_given) \<Rightarrow>
          if \<not> start_given \<or> \<not> stop_given \<or> \<not> status_given then ESP_ERR_INVALID_ARG
          else if task_created then ESP_OK else ESP_ERR_NO_MEM)"

definition time_beacon_start :: "bool \<Rightarrow> esp_err" where
  "time_beacon_start task_created = (if task_created then ESP_OK else ESP_ERR_NO_MEM)"

subsection \<open>The main task\<close>

datatype boot_stage =
    At_Mount | At_Logger | At_Live | At_Registry | At_Can | At_Gps | At_Control
  | At_Stop nat | At_Console | At_Beacon | At_Auto | At_Web
  | Boot_Finished | Boot_Aborted esp_err

datatype task = Sd_Writer | Node_Monitor | Can_Dispatch | Gps_Task | Console_Task | Time_Beacon
  | Auto_Start | Web_Task

datatype boot_event = Stop_Burst esp_err | Delay_Ms nat | Web_Unavailable esp_err

record ('q, 'r) master =
  bm_stage :: boot_stage
  bm_tasks :: "task set"
  bm_app :: "('q, 'r) app"
  bm_gps :: gps_receiver
  bm_bus :: "tx_action list"
  bm_log :: "boot_event list"

text \<open>What the boot meets; \<open>stop_burst_env i\<close> are the attempts of the \<open>i\<close>-th STOP burst.\<close>

record ('q, 'r, 'p) boot_env =
  bt_sd :: "'p sd_env"
  bt_log_queue :: "'q option"
  bt_file_mutex :: bool
  bt_writer :: bool
  bt_monitor :: bool
  bt_can :: init_env
  bt_rx_queue :: 'r
  bt_uart :: uart_env
  bt_lifecycle_mutex :: bool
  bt_stop_env :: "nat \<Rightarrow> nat \<Rightarrow> tx_env"
  bt_console :: bool
  bt_beacon :: bool
  bt_auto :: bool
  bt_net :: net_env

text \<open>The static variables before \<open>app_main\<close>; the queues do not exist yet, and nothing reads them.\<close>

definition master_static :: "'q \<Rightarrow> 'r \<Rightarrow> filesystem \<Rightarrow> ('q, 'r) master" where
  "master_static q0 r0 fs = \<lparr>bm_stage = At_Mount, bm_tasks = {},
     bm_app = \<lparr>lifecycle_ready = False, logger_of = logger_boot q0 fs,
       live_of = \<lparr>ld_latest = replicate LIVE_DATA_SIGNAL_COUNT zero_sample, ld_enabled = False,
                  ld_owner_token = 0, ld_lease_deadline_us = 0\<rparr>,
       registry_of = registry_boot, beacon_recording = False, tx_of = can_tx_boot,
       rx_of = \<lparr>rx_queue = r0, rx_drops = 0\<rparr>\<rparr>,
     bm_gps = \<lparr>gps_task_handle = False, gps_handler = False\<rparr>, bm_bus = [], bm_log = []\<rparr>"

text \<open>\<open>ESP_ERROR_CHECK(error)\<close>: go on with the tasks the call created, or restart.\<close>

definition checked :: "esp_err \<Rightarrow> task set \<Rightarrow> boot_stage \<Rightarrow> ('q, 'r) master \<Rightarrow> ('q, 'r) master" where
  "checked error created next_stage m =
     (if error = ESP_OK then m\<lparr>bm_stage := next_stage, bm_tasks := bm_tasks m \<union> created\<rparr>
      else m\<lparr>bm_stage := Boot_Aborted error\<rparr>)"

definition STOP_BURSTS :: nat where "STOP_BURSTS = 3"

definition stop_burst_step :: "(nat \<Rightarrow> nat \<Rightarrow> tx_env) \<Rightarrow> nat \<Rightarrow> ('q, 'r) master \<Rightarrow> ('q, 'r) master" where
  "stop_burst_step env i m =
     (let (error, acts, tx) = can_master_stop_nodes (env i) (tx_of (bm_app m))
      in m\<lparr>bm_stage := (if Suc i < STOP_BURSTS then At_Stop (Suc i) else At_Console),
           bm_app := (bm_app m)\<lparr>tx_of := tx\<rparr>, bm_bus := bm_bus m @ acts,
           bm_log := bm_log m @ [Stop_Burst error, Delay_Ms 50]\<rparr>)"

definition main_step :: "bool \<Rightarrow> ('q, 'r, 'p) boot_env \<Rightarrow> ('q, 'r) master \<Rightarrow> ('q, 'r) master" where
  "main_step can_enabled env m =
     (let a = bm_app m in
      case bm_stage m of
        At_Mount \<Rightarrow> checked (sd_card_mount (bt_sd env)) {} At_Logger (m\<lparr>bm_log := bm_log m @ [Delay_Ms 30]\<rparr>)
      | At_Logger \<Rightarrow>
          (case data_logger_init (bt_log_queue env) (bt_file_mutex env) (bt_writer env) (logger_of a) of
             (error, lg) \<Rightarrow> checked error {Sd_Writer} At_Live (m\<lparr>bm_app := a\<lparr>logger_of := lg\<rparr>\<rparr>))
      | At_Live \<Rightarrow> checked ESP_OK {} At_Registry (m\<lparr>bm_app := a\<lparr>live_of := live_data_init (live_of a)\<rparr>\<rparr>)
      | At_Registry \<Rightarrow> checked (node_registry_init (bt_monitor env)) {Node_Monitor} At_Can m
      | At_Can \<Rightarrow>
          if \<not> can_enabled then m\<lparr>bm_stage := At_Gps\<rparr>
          else
            checked (can_master_init True (bt_can env)) {Can_Dispatch} At_Gps
              (if queue_created (bt_can env)
               then m\<lparr>bm_app := a\<lparr>rx_of := (rx_of a)\<lparr>rx_queue := bt_rx_queue env\<rparr>\<rparr>\<rparr> else m)
      | At_Gps \<Rightarrow>
          (case gps_receiver_start (bt_uart env) True (bm_gps m) of
             (error, deleted, g) \<Rightarrow> checked error {Gps_Task} At_Control (m\<lparr>bm_gps := g\<rparr>))
      | At_Control \<Rightarrow>
          (case app_control_init (bt_lifecycle_mutex env) a of
             (error, a) \<Rightarrow> checked error {} (if can_enabled then At_Stop 0 else At_Console) (m\<lparr>bm_app := a\<rparr>))
      | At_Stop i \<Rightarrow> stop_burst_step (bt_stop_env env) i m
      | At_Console \<Rightarrow>
          checked (serial_console_start (Some (True, True, True)) (bt_console env)) {Console_Task} At_Beacon m
      | At_Beacon \<Rightarrow>
          if \<not> can_enabled then m\<lparr>bm_stage := At_Auto\<rparr>
          else checked (time_beacon_start (bt_beacon env)) {Time_Beacon} At_Auto m
      | At_Auto \<Rightarrow> checked (if bt_auto env then ESP_OK else ESP_ERR_NO_MEM) {Auto_Start} At_Web m
      | At_Web \<Rightarrow>
          (case web_server_start (bt_net env) of
             (error, runs) \<Rightarrow>
               m\<lparr>bm_stage := Boot_Finished, bm_tasks := bm_tasks m \<union> (if runs then {Web_Task} else {}),
                 bm_log := bm_log m @ (if error \<noteq> ESP_OK then [Web_Unavailable error] else [])\<rparr>)
      | _ \<Rightarrow> m)"

subsection \<open>The tasks\<close>

text \<open>The writer's phases, a rename over HTTP, the second half of an enqueue.\<close>

fun performs :: "task \<Rightarrow> log_event \<Rightarrow> bool" where
  "performs t (Late_Send s) \<longleftrightarrow> t = Can_Dispatch \<or> t = Gps_Task"
| "performs t (log_event.Rename env a b) \<longleftrightarrow> t = Web_Task"
| "performs t (Enqueue m utc) \<longleftrightarrow> False"
| "performs t Stop \<longleftrightarrow> False"
| "performs t e \<longleftrightarrow> t = Sd_Writer"

text \<open>The callbacks of \<open>main.c\<close>: whether the operation succeeded, its driver calls, the state.\<close>

definition start_logging ::
  "bool \<Rightarrow> ('q, queued_sample) queue_api \<Rightarrow> (nat \<Rightarrow> u32) \<Rightarrow> app_env \<Rightarrow> ('q, 'r) app \<Rightarrow> (bool \<times> tx_action list \<times> ('q, 'r) app) option" where
  "start_logging can_enabled Q pd env a =
     map_option (\<lambda>(r, acts, a). (r = APP_CONTROL_OK, acts, a)) (app_control_start_logging can_enabled Q pd env None a)"

definition stop_logging :: "bool \<Rightarrow> app_env \<Rightarrow> ('q, 'r) app \<Rightarrow> bool \<times> tx_action list \<times> ('q, 'r) app" where
  "stop_logging can_enabled env a =
     (case app_control_stop_logging can_enabled env a of (r, acts, a) \<Rightarrow> (r = APP_CONTROL_OK, acts, a))"

text \<open>\<open>auto_start_task\<close>, the wait first; its result is dropped and the task deletes itself.\<close>

definition auto_start_task ::
  "bool \<Rightarrow> ('q, queued_sample) queue_api \<Rightarrow> (nat \<Rightarrow> u32) \<Rightarrow> app_env \<Rightarrow> ('q, 'r) app \<Rightarrow>
   boot_event \<times> (tx_action list \<times> ('q, 'r) app) option" where
  "auto_start_task can_enabled Q pd env a = (Delay_Ms 5000, map_option snd (start_logging can_enabled Q pd env a))"

text \<open>One turn of \<open>console_task\<close> on a line, with the callbacks of \<open>main.c\<close>.\<close>

definition console_turn ::
  "bool \<Rightarrow> ('q, queued_sample) queue_api \<Rightarrow> (nat \<Rightarrow> u32) \<Rightarrow> app_env \<Rightarrow> bool \<Rightarrow> esp_err \<Rightarrow> u32 \<times> u32 \<Rightarrow> int \<Rightarrow>
   string \<Rightarrow> ('q, 'r) app \<Rightarrow> (tx_action list \<times> ('q, 'r) app) option" where
  "console_turn can_enabled Q pd env handle info counts now_us line a =
     (case console_line line of
        Some Console_Start \<Rightarrow> map_option snd (start_logging can_enabled Q pd env a)
      | Some Console_Stop \<Rightarrow> Some (snd (stop_logging can_enabled env a))
      | Some Console_Status \<Rightarrow> Some ([], snd (app_control_print_status handle info counts now_us a))
      | _ \<Rightarrow> Some ([], a))"

text \<open>
  What a task does to the modules, with its calls of the CAN driver: a line of the console, the
  session \<open>auto_start_task\<close> starts, the HTTP handlers, frames, samples, beacons, the node monitor
  and the writer.
\<close>

inductive task_step ::
  "bool \<Rightarrow> ('q, queued_sample) queue_api \<Rightarrow> (nat \<Rightarrow> u32) \<Rightarrow> task \<Rightarrow> ('q, 'r) app \<Rightarrow> tx_action list \<Rightarrow> ('q, 'r) app \<Rightarrow> bool"
  for can_enabled Q pd where
  console: "console_turn can_enabled Q pd env handle info counts now_us line a = Some (acts, a') \<Longrightarrow>
    task_step can_enabled Q pd Console_Task a acts a'"
| auto: "auto_start_task can_enabled Q pd env a = (wait, Some (acts, a')) \<Longrightarrow> task_step can_enabled Q pd Auto_Start a acts a'"
| start: "app_control_start_logging can_enabled Q pd env filename a = Some (r, acts, a') \<Longrightarrow>
    task_step can_enabled Q pd Web_Task a acts a'"
| stop: "app_control_stop_logging can_enabled env a = (r, acts, a') \<Longrightarrow> task_step can_enabled Q pd Web_Task a acts a'"
| status: "app_control_get_status handle info counts now_us a = (st, a') \<Longrightarrow> task_step can_enabled Q pd Web_Task a [] a'"
| view: "app_control_start_live_data token_given lifecycle now_us rnd a = (r, a') \<Longrightarrow>
    task_step can_enabled Q pd Web_Task a [] a'"
| snapshot: "task_step can_enabled Q pd Web_Task a [] (a\<lparr>live_of := snd (live_data_snapshot token n now_us (live_of a))\<rparr>)"
| view_stop: "task_step can_enabled Q pd Web_Task a [] (a\<lparr>live_of := snd (live_data_stop token now_us (live_of a))\<rparr>)"
| frame: "can_enabled \<Longrightarrow>
    task_step can_enabled Q pd Can_Dispatch a [] (handle_can_message Q sample_utc now now_us m a)"
| receive: "task_step can_enabled Q pd Can_Dispatch a [] (a\<lparr>rx_of := rx\<rparr>)"
| gps: "task_step can_enabled Q pd Gps_Task a [] (handle_gps_sample Q sample_utc now_us m a)"
| monitor: "task_step can_enabled Q pd Node_Monitor a [] (a\<lparr>registry_of := monitor_poll pd now (registry_of a)\<rparr>)"
| beacon: "can_enabled \<Longrightarrow> beacon_round pd now_us now env (beacon_recording a) (tx_of a) bc = (logs, acts, tx, bc') \<Longrightarrow>
    task_step can_enabled Q pd Time_Beacon a acts (a\<lparr>tx_of := tx\<rparr>)"
| logger: "performs t e \<Longrightarrow> task_step can_enabled Q pd t a [] (a\<lparr>logger_of := log_step Q pd e (logger_of a)\<rparr>)"
| idle: "task_step can_enabled Q pd Sd_Writer a [] (a\<lparr>logger_of := writer_idle now (logger_of a)\<rparr>)"

text \<open>\<open>auto_start_task\<close> deletes itself after its start.\<close>

definition remaining_tasks :: "task \<Rightarrow> task set \<Rightarrow> task set" where
  "remaining_tasks t ts = (if t = Auto_Start then ts - {Auto_Start} else ts)"

fun boot_ended :: "boot_stage \<Rightarrow> bool" where
  "boot_ended Boot_Finished = True" | "boot_ended (Boot_Aborted e) = True" | "boot_ended _ = False"

fun restarted :: "boot_stage \<Rightarrow> bool" where
  "restarted (Boot_Aborted e) = True" | "restarted _ = False"

inductive master_step ::
  "bool \<Rightarrow> ('q, queued_sample) queue_api \<Rightarrow> (nat \<Rightarrow> u32) \<Rightarrow> ('q, 'r, 'p) boot_env \<Rightarrow>
   ('q, 'r) master \<Rightarrow> ('q, 'r) master \<Rightarrow> bool"
  for can_enabled Q pd env where
  main: "\<not> boot_ended (bm_stage m) \<Longrightarrow> master_step can_enabled Q pd env m (main_step can_enabled env m)"
| task: "\<not> restarted (bm_stage m) \<Longrightarrow> t \<in> bm_tasks m \<Longrightarrow> task_step can_enabled Q pd t (bm_app m) acts a' \<Longrightarrow>
    master_step can_enabled Q pd env m
      (m\<lparr>bm_app := a', bm_bus := bm_bus m @ acts, bm_tasks := remaining_tasks t (bm_tasks m)\<rparr>)"

inductive master_reach ::
  "bool \<Rightarrow> ('q, queued_sample) queue_api \<Rightarrow> (nat \<Rightarrow> u32) \<Rightarrow> ('q, 'r, 'p) boot_env \<Rightarrow>
   ('q, 'r) master \<Rightarrow> ('q, 'r) master \<Rightarrow> bool"
  for can_enabled Q pd env m0 where
  boot: "master_reach can_enabled Q pd env m0 m0"
| step: "master_reach can_enabled Q pd env m0 m \<Longrightarrow> master_step can_enabled Q pd env m m' \<Longrightarrow>
    master_reach can_enabled Q pd env m0 m'"

inductive_cases task_stepE: "task_step can_enabled Q pd t a acts a'"

lemma task_is_app_step: "task_step can_enabled Q pd t a acts a' \<Longrightarrow> (app_step can_enabled Q pd)\<^sup>=\<^sup>= a a'"
proof (induction rule: task_step.induct)
  case (console env handle info counts now_us line a acts a')
  obtain r acts1 a1 where stop: "app_control_stop_logging can_enabled env a = (r, acts1, a1)" by (metis prod_cases3)
  obtain st a2 where status: "app_control_get_status handle info counts now_us a = (st, a2)" by fastforce
  show ?case
    using console app_step.start [of can_enabled Q pd env None a] app_step.stop [OF stop] app_step.status [OF status]
    by (auto simp: console_turn_def start_logging_def stop_logging_def app_control_print_status_def stop status
        split: option.splits console_command.splits)
next
  case (auto env a wait acts a')
  then obtain r where "app_control_start_logging can_enabled Q pd env None a = Some (r, acts, a')"
    by (auto simp: auto_start_task_def start_logging_def)
  then show ?case by (auto intro: app_step.start)
next
  case (logger t e a)
  then have "background e" by (cases e) auto
  then show ?case by (auto intro: app_step.writer)
qed (rule sup2I1, rule app_step.intros; assumption)+

subsection \<open>Well-formed states\<close>

text \<open>Every array of the modules keeps its length, and the block has room for the next sample.\<close>

definition app_wf :: "('q, 'r) app \<Rightarrow> bool" where
  "app_wf a \<longleftrightarrow> reg_wf (registry_of a) \<and> live_inv (live_of a) \<and> length (block (logger_of a)) < LOG_RECORDS_PER_BLOCK"

lemma block_background:
  assumes "length (block lg) < LOG_RECORDS_PER_BLOCK"
  shows "length (block (log_step Q pd e lg)) < LOG_RECORDS_PER_BLOCK"
proof (cases e)
  case (Receive env)
  then show ?thesis
    using assms by (auto simp: writer_receive_def Let_def LOG_RECORDS_PER_BLOCK_def split: option.split prod.split)
next
  case (Checkpoint now env cenv)
  then show ?thesis using assms by (auto simp: writer_checkpoint_def Let_def split_beta)
next
  case (Finish env closing)
  then show ?thesis using assms by (auto simp: writer_finish_def Let_def split_beta)
next
  case (Enqueue m utc)
  then show ?thesis using assms
    by (simp add: data_logger_enqueue_def enqueue_send_def split: option.split)
next
  case (Late_Send s)
  then show ?thesis using assms by (simp add: enqueue_send_def split: option.split)
next
  case Stop
  then show ?thesis using assms by (simp add: data_logger_stop_def)
qed (use assms in \<open>auto simp: data_logger_rename_def Let_def\<close>)

lemma block_start:
  assumes "data_logger_start Q pd t rs env filename lg = Some (r, lg')"
  shows "block lg' = block lg"
proof -
  have "block (snd (start_at Q env path lg)) = block lg" for path
    by (simp add: start_at_def Let_def split_beta)
  then show ?thesis
    using assms by (auto simp: data_logger_start_def split: if_splits option.splits) (metis snd_conv)+
qed

lemma wf_fields [simp]:
  "app_wf (a\<lparr>lifecycle_ready := b\<rparr>) = app_wf a" "app_wf (a\<lparr>beacon_recording := b\<rparr>) = app_wf a"
  "app_wf (a\<lparr>tx_of := tx\<rparr>) = app_wf a" "app_wf (a\<lparr>rx_of := rx\<rparr>) = app_wf a"
  by (simp_all add: app_wf_def)

lemma wf_start:
  assumes "app_control_start_logging can_enabled Q pd env filename a = Some (r, acts, a')" and "app_wf a"
  shows "app_wf a'"
  using assms
  by (auto simp: app_control_start_logging_def app_wf_def time_beacon_set_recording_def Let_def split_beta
      dest!: block_start intro: inv_intros split: if_splits option.splits)

lemma wf_stop:
  assumes "app_control_stop_logging can_enabled env a = (r, acts, a')" and "app_wf a"
  shows "app_wf a'"
  using assms
  by (auto simp: app_control_stop_logging_def app_wf_def time_beacon_set_recording_def data_logger_stop_def
      live_data_force_stop_def Let_def split_beta intro: inv_intros split: if_splits)

lemma wf_app_step:
  assumes "app_step can_enabled Q pd a a'" and "app_wf a"
  shows "app_wf a'"
  using assms
proof (induction rule: app_step.induct)
  case (start env filename app r acts app')
  then show ?case by (rule wf_start)
next
  case (stop env app r acts app')
  then show ?case by (rule wf_stop)
next
  case (view token_given lifecycle now_us rnd app r app')
  then show ?case
    by (auto simp: app_control_start_live_data_def app_wf_def split_beta intro: inv_intros split: if_splits)
next
  case (status handle info counts now_us app st app')
  then show ?case by (auto simp: app_control_get_status_def app_wf_def Let_def split_beta intro: inv_intros)
next
  case (frame app sample_utc now now_us m)
  then show ?case
    using block_background [of "logger_of app" Q pd "Enqueue m _"]
    by (auto simp: handle_can_message_def app_wf_def data_logger_enqueue_def enqueue_send_def
        intro: inv_intros split: option.split)
next
  case (gps app sample_utc now_us m)
  then show ?case
    by (auto simp: handle_gps_sample_def app_wf_def data_logger_enqueue_def enqueue_send_def
        intro: inv_intros split: option.split)
next
  case (writer e app)
  then show ?case by (simp add: app_wf_def block_background)
qed (auto simp: app_wf_def writer_idle_def intro: inv_intros)

subsection \<open>What the bus carries during the boot\<close>

lemma stop_burst_frames:
  "set (accepted_frames buf (fst (snd (can_master_stop_nodes env tx)))) \<subseteq> {(CAN_ID_STOP, [])}"
  "fst (can_master_stop_nodes env tx) = ESP_OK \<Longrightarrow>
   accepted_frames buf (fst (snd (can_master_stop_nodes env tx))) = replicate CAN_COMMAND_REPEAT_COUNT (CAN_ID_STOP, [])"
proof -
  show "set (accepted_frames buf (fst (snd (can_master_stop_nodes env tx)))) \<subseteq> {(CAN_ID_STOP, [])}"
    unfolding can_master_stop_nodes_def send_command_burst_def by (rule burst_commands)
  assume "fst (can_master_stop_nodes env tx) = ESP_OK"
  then obtain acts tx' where b: "burst_attempts (map env [0..<CAN_COMMAND_REPEAT_COUNT]) CAN_ID_STOP ESP_OK tx = (ESP_OK, acts, tx')"
    unfolding can_master_stop_nodes_def send_command_burst_def by (metis prod.collapse)
  show "accepted_frames buf (fst (snd (can_master_stop_nodes env tx))) = replicate CAN_COMMAND_REPEAT_COUNT (CAN_ID_STOP, [])"
    using burst_frames [OF b, of buf] unfolding can_master_stop_nodes_def send_command_burst_def b by simp
qed

lemma idle_background:
  "background e \<Longrightarrow> lg_state lg = LOGGER_IDLE \<Longrightarrow> lg_state (log_step Q pd e lg) = LOGGER_IDLE"
proof (cases e)
  case (Receive env)
  then show "lg_state lg = LOGGER_IDLE \<Longrightarrow> ?thesis" by (simp add: writer_receive_def Let_def split: option.split prod.split)
next
  case (Checkpoint now env cenv)
  then show "lg_state lg = LOGGER_IDLE \<Longrightarrow> ?thesis" by (simp add: writer_checkpoint_def)
next
  case (Finish env closing)
  then show "lg_state lg = LOGGER_IDLE \<Longrightarrow> ?thesis" by (simp add: writer_finish_def)
qed auto

definition commanding :: "task set" where
  "commanding = {Console_Task, Web_Task, Auto_Start, Time_Beacon}"

lemma other_tasks_silent:
  assumes "task_step can_enabled Q pd t a acts a'" and "t \<notin> commanding" and "lg_state (logger_of a) = LOGGER_IDLE"
  shows "acts = [] \<and> lg_state (logger_of a') = LOGGER_IDLE"
  using assms
proof (induction rule: task_step.induct)
  case (logger t e a)
  then have "background e" by (cases e) auto
  then show ?case using logger by (simp add: idle_background)
qed (auto simp: commanding_def handle_can_message_def handle_gps_sample_def writer_idle_def)

subsection \<open>Nodes are stopped before anything can start them\<close>

definition stop_results :: "boot_event list \<Rightarrow> esp_err list" where
  "stop_results evs = concat (map (\<lambda>e. case e of Stop_Burst error \<Rightarrow> [error] | _ \<Rightarrow> []) evs)"

lemma stop_results_simps [simp]:
  "stop_results [] = []" "stop_results (a @ b) = stop_results a @ stop_results b"
  "stop_results (Stop_Burst e # es) = e # stop_results es" "stop_results (Delay_Ms n # es) = stop_results es"
  "stop_results (Web_Unavailable e # es) = stop_results es"
  by (simp_all add: stop_results_def)

abbreviation sent_frames :: "('q, 'r) master \<Rightarrow> (u32 \<times> u8 list) list" where
  "sent_frames m \<equiv> accepted_frames None (bm_bus m)"

text \<open>The bursts made and whether the console exists when the main task stands at a stage.\<close>

fun bursts_at :: "bool \<Rightarrow> boot_stage \<Rightarrow> nat" where
  "bursts_at can_enabled (At_Stop i) = i"
| "bursts_at can_enabled st =
     (if can_enabled \<and> st \<in> {At_Console, At_Beacon, At_Auto, At_Web, Boot_Finished} then STOP_BURSTS else 0)"

definition console_at :: "boot_stage \<Rightarrow> bool" where
  "console_at st \<longleftrightarrow> st \<in> {At_Beacon, At_Auto, At_Web, Boot_Finished}"

definition stage_ok :: "bool \<Rightarrow> ('q, 'r) master \<Rightarrow> bool" where
  "stage_ok can_enabled m \<longleftrightarrow>
     (if restarted (bm_stage m)
      then Console_Task \<in> bm_tasks m \<longrightarrow> length (stop_results (bm_log m)) = (if can_enabled then STOP_BURSTS else 0)
      else (Console_Task \<in> bm_tasks m \<longleftrightarrow> console_at (bm_stage m)) \<and>
        length (stop_results (bm_log m)) = bursts_at can_enabled (bm_stage m) \<and>
        (\<forall>i. bm_stage m = At_Stop i \<longrightarrow> can_enabled \<and> i < STOP_BURSTS))"

definition quiet :: "('q, 'r) master \<Rightarrow> bool" where
  "quiet m \<longleftrightarrow> bm_tasks m \<inter> commanding = {} \<and> lg_state (logger_of (bm_app m)) = LOGGER_IDLE \<and>
     set (sent_frames m) \<subseteq> {(CAN_ID_STOP, [])}"

definition stops_first :: "('q, 'r) master \<Rightarrow> bool" where
  "stops_first m \<longleftrightarrow> ((\<forall>e \<in> set (stop_results (bm_log m)). e = ESP_OK) \<longrightarrow>
     prefix (replicate (CAN_COMMAND_REPEAT_COUNT * length (stop_results (bm_log m))) (CAN_ID_STOP, [])) (sent_frames m) \<and>
     (Console_Task \<notin> bm_tasks m \<longrightarrow>
        sent_frames m = replicate (CAN_COMMAND_REPEAT_COUNT * length (stop_results (bm_log m))) (CAN_ID_STOP, [])))"

definition master_inv :: "bool \<Rightarrow> ('q, 'r) master \<Rightarrow> bool" where
  "master_inv can_enabled m \<longleftrightarrow> app_ok can_enabled (bm_app m) \<and> app_wf (bm_app m) \<and> stage_ok can_enabled m \<and>
     (Console_Task \<notin> bm_tasks m \<longrightarrow> quiet m) \<and> stops_first m"

lemma master_inv_static: "master_inv can_enabled (master_static q0 r0 fs)"
proof -
  have "live_inv (live_of (bm_app (master_static q0 r0 fs)))"
    by (simp add: master_static_def live_inv_def cleared_latest_def)
  then show ?thesis
    by (simp add: master_inv_def master_static_def app_ok_def app_wf_def logger_boot_def registry_boot_def reg_wf_def
        stage_ok_def console_at_def quiet_def stops_first_def LOG_RECORDS_PER_BLOCK_def)
qed

lemma sent_frames_append:
  "\<exists>fs. accepted_frames None (bus @ acts) = accepted_frames None bus @ fs"
  by (simp add: accepted_frames_append)

lemma inv_task:
  assumes "task_step can_enabled Q pd t (bm_app m) acts a'" and "t \<in> bm_tasks m" and "master_inv can_enabled m"
  shows "master_inv can_enabled
    (m\<lparr>bm_app := a', bm_bus := bm_bus m @ acts, bm_tasks := remaining_tasks t (bm_tasks m)\<rparr>)"
    (is "master_inv _ ?m")
proof -
  have ts: "Console_Task \<in> remaining_tasks t (bm_tasks m) \<longleftrightarrow> Console_Task \<in> bm_tasks m"
    "remaining_tasks t (bm_tasks m) \<subseteq> bm_tasks m" by (auto simp: remaining_tasks_def)
  have "app_ok can_enabled a'" "app_wf a'"
    using task_is_app_step [OF assms(1)] assms(3) by (auto simp: master_inv_def dest: app_ok_step wf_app_step)
  moreover have "stage_ok can_enabled ?m" using assms(3) by (simp add: master_inv_def stage_ok_def ts(1))
  moreover have silent: "acts = [] \<and> lg_state (logger_of a') = LOGGER_IDLE" if "Console_Task \<notin> bm_tasks m"
    using that assms by (intro other_tasks_silent [OF assms(1)]) (auto simp: master_inv_def quiet_def)
  then have "Console_Task \<notin> bm_tasks ?m \<longrightarrow> quiet ?m" using assms(3) ts by (auto simp: master_inv_def quiet_def)
  moreover have "stops_first ?m"
  proof -
    obtain fs where "accepted_frames None (bm_bus m @ acts) = sent_frames m @ fs" using sent_frames_append by blast
    then show ?thesis using assms(3) silent ts(1) by (auto simp: master_inv_def stops_first_def)
  qed
  ultimately show ?thesis by (simp add: master_inv_def)
qed

lemma bursts_console: "console_at st \<Longrightarrow> bursts_at can_enabled st = (if can_enabled then STOP_BURSTS else 0)"
  by (auto simp: console_at_def)

text \<open>What a call that sends nothing and starts no session leaves of a state.\<close>

definition same_traffic :: "('q, 'r) master \<Rightarrow> ('q, 'r) master \<Rightarrow> bool" where
  "same_traffic m m' \<longleftrightarrow> bm_bus m' = bm_bus m \<and> stop_results (bm_log m') = stop_results (bm_log m) \<and>
     lg_state (logger_of (bm_app m')) = lg_state (logger_of (bm_app m))"

lemma inv_abort:
  assumes "master_inv can_enabled m" and "\<not> restarted (bm_stage m)" and "same_traffic m m'"
    and "app_ok can_enabled (bm_app m')" and "app_wf (bm_app m')"
    and "restarted (bm_stage m')" and "bm_tasks m' = bm_tasks m"
  shows "master_inv can_enabled m'"
proof -
  have "stage_ok can_enabled m'"
    using assms bursts_console [of "bm_stage m" can_enabled]
    by (simp add: master_inv_def stage_ok_def same_traffic_def)
  moreover have "Console_Task \<notin> bm_tasks m' \<longrightarrow> quiet m'" "stops_first m'"
    using assms(1,3,7) by (simp_all add: master_inv_def quiet_def stops_first_def same_traffic_def)
  ultimately show ?thesis using assms(4,5) by (simp add: master_inv_def)
qed

lemma inv_advance:
  assumes "master_inv can_enabled m" and "\<not> restarted (bm_stage m)" and "same_traffic m m'"
    and "app_ok can_enabled (bm_app m')" and "app_wf (bm_app m')"
    and "\<not> restarted (bm_stage m')" and "bm_tasks m' = bm_tasks m \<union> created"
    and "bursts_at can_enabled (bm_stage m') = bursts_at can_enabled (bm_stage m)"
    and "\<forall>i. bm_stage m' = At_Stop i \<longrightarrow> can_enabled \<and> i < STOP_BURSTS"
    and "console_at (bm_stage m') \<longleftrightarrow> console_at (bm_stage m) \<or> Console_Task \<in> created"
    and "Console_Task \<in> created \<or> console_at (bm_stage m) \<or> created \<inter> commanding = {}"
  shows "master_inv can_enabled m'"
proof -
  have st: "stage_ok can_enabled m" using assms(1) by (simp add: master_inv_def)
  then have "stage_ok can_enabled m'"
    using assms(2,3,6-10) by (simp add: stage_ok_def same_traffic_def)
  moreover have "quiet m'" if "Console_Task \<notin> bm_tasks m'"
  proof -
    have "quiet m" using that assms(1,7) by (simp add: master_inv_def)
    moreover have "created \<inter> commanding = {}" using that st assms(2,7,11) by (auto simp: stage_ok_def)
    ultimately show ?thesis using assms(3,7) by (auto simp: quiet_def same_traffic_def)
  qed
  moreover have "stops_first m'"
    using assms(1,3,7) by (auto simp: master_inv_def stops_first_def same_traffic_def)
  ultimately show ?thesis using assms(4,5) by (simp add: master_inv_def)
qed

lemma inv_checked:
  assumes "master_inv can_enabled m" and "\<not> restarted (bm_stage m)" and "same_traffic m m0"
    and "app_ok can_enabled (bm_app m0)" and "app_wf (bm_app m0)" and "bm_tasks m0 = bm_tasks m"
    and "\<not> restarted st"
    and "bursts_at can_enabled st = bursts_at can_enabled (bm_stage m)"
    and "\<forall>i. st = At_Stop i \<longrightarrow> can_enabled \<and> i < STOP_BURSTS"
    and "console_at st \<longleftrightarrow> console_at (bm_stage m) \<or> Console_Task \<in> created"
    and "Console_Task \<in> created \<or> console_at (bm_stage m) \<or> created \<inter> commanding = {}"
  shows "master_inv can_enabled (checked e created st m0)"
proof (cases "e = ESP_OK")
  case True
  show ?thesis
    by (rule inv_advance [OF assms(1,2), where created = created])
      (use assms(3-11) True in \<open>simp_all add: checked_def same_traffic_def\<close>)
next
  case False
  show ?thesis
    by (rule inv_abort [OF assms(1,2)])
      (use assms(3-6) False in \<open>simp_all add: checked_def same_traffic_def\<close>)
qed

lemma inv_stop_burst:
  assumes "master_inv can_enabled m" and "bm_stage m = At_Stop i"
  shows "master_inv can_enabled (stop_burst_step env i m)" (is "master_inv _ ?m")
proof -
  obtain e acts tx where b: "can_master_stop_nodes (env i) (tx_of (bm_app m)) = (e, acts, tx)" by (metis prod_cases3)
  note frames = stop_burst_frames [where env = "env i" and tx = "tx_of (bm_app m)", unfolded b fst_conv snd_conv]
  have st: "Console_Task \<notin> bm_tasks m" "length (stop_results (bm_log m)) = i" "can_enabled" "i < STOP_BURSTS"
    using assms by (auto simp: master_inv_def stage_ok_def console_at_def)
  have m: "bm_app ?m = (bm_app m)\<lparr>tx_of := tx\<rparr>" "bm_tasks ?m = bm_tasks m" "bm_bus ?m = bm_bus m @ acts"
    "stop_results (bm_log ?m) = stop_results (bm_log m) @ [e]"
    "bm_stage ?m = (if Suc i < STOP_BURSTS then At_Stop (Suc i) else At_Console)"
    by (simp_all add: stop_burst_step_def b)
  have "app_ok can_enabled (bm_app ?m)" "app_wf (bm_app ?m)"
    using assms(1) by (simp_all add: master_inv_def m app_ok_def)
  moreover have "stage_ok can_enabled ?m" using st by (auto simp: stage_ok_def m console_at_def)
  moreover have "quiet ?m"
    using assms(1) st(1) frames(1) by (auto simp: master_inv_def quiet_def m accepted_frames_append)
  moreover have "stops_first ?m"
    using assms(1) st(1,2) frames(2)
    by (auto simp: master_inv_def stops_first_def m accepted_frames_append replicate_add [symmetric] add.commute)
  ultimately show ?thesis by (simp add: master_inv_def)
qed

lemma live_data_init_off: "\<not> ld_enabled (live_data_init l) \<and> live_inv (live_data_init l)"
  using live_inv_clear [of l] by (simp add: live_data_init_def clear_locked_def)

lemma inv_main:
  assumes "master_inv can_enabled m" and "\<not> boot_ended (bm_stage m)"
  shows "master_inv can_enabled (main_step can_enabled env m)"
proof -
  let ?a = "bm_app m"
  have r: "\<not> restarted (bm_stage m)" using assms(2) by (cases "bm_stage m") auto
  have ok: "app_ok can_enabled ?a" "app_wf ?a" using assms(1) by (simp_all add: master_inv_def)
  note go = inv_checked [OF assms(1) r] and ahead = inv_advance [OF assms(1) r, where created = "{}"]
  note facts = Let_def same_traffic_def console_at_def commanding_def STOP_BURSTS_def ok
  show ?thesis
  proof (cases "bm_stage m")
    case At_Mount
    then show ?thesis by (auto simp: main_step_def facts intro!: go)
  next
    case At_Logger
    obtain e lg where i: "data_logger_init (bt_log_queue env) (bt_file_mutex env) (bt_writer env) (logger_of ?a) = (e, lg)"
      by fastforce
    then have "lg_state lg = lg_state (logger_of ?a)" "block lg = block (logger_of ?a)"
      by (auto simp: data_logger_init_def Let_def split: if_splits option.splits)
    then have "app_ok can_enabled (?a\<lparr>logger_of := lg\<rparr>)" "app_wf (?a\<lparr>logger_of := lg\<rparr>)"
        "lg_state lg = lg_state (logger_of ?a)"
      using ok by (simp_all add: app_ok_def app_wf_def)
    then show ?thesis using At_Logger by (auto simp: main_step_def i facts intro!: go)
  next
    case At_Live
    have "app_ok can_enabled (?a\<lparr>live_of := live_data_init (live_of ?a)\<rparr>)"
      "app_wf (?a\<lparr>live_of := live_data_init (live_of ?a)\<rparr>)"
      using ok live_data_init_off [of "live_of ?a"] by (auto simp: app_ok_def app_wf_def)
    then show ?thesis using At_Live by (auto simp: main_step_def facts intro!: go)
  next
    case At_Registry
    then show ?thesis by (auto simp: main_step_def facts intro!: go)
  next
    case At_Can
    have "app_ok can_enabled (?a\<lparr>rx_of := rx\<rparr>)" for rx using ok by (simp add: app_ok_def)
    then have on: "master_inv can_enabled (checked e {Can_Dispatch} At_Gps m')"
      if "m' = m \<or> m' = m\<lparr>bm_app := ?a\<lparr>rx_of := rx\<rparr>\<rparr>" for e m' rx
      using that At_Can by (intro go) (auto simp: facts)
    have off: "master_inv can_enabled (m\<lparr>bm_stage := At_Gps\<rparr>)"
      by (rule ahead) (use At_Can in \<open>simp_all add: facts\<close>)
    have on1: "master_inv can_enabled (checked e {Can_Dispatch} At_Gps (m\<lparr>bm_app := ?a\<lparr>rx_of := rx\<rparr>\<rparr>))"
        and on2: "master_inv can_enabled (checked e {Can_Dispatch} At_Gps m)" for e rx
      using on by blast+
    show ?thesis using on1 on2 off At_Can by (cases can_enabled) (simp_all add: main_step_def Let_def)
  next
    case At_Gps
    then show ?thesis by (auto simp: main_step_def facts split_beta intro!: go)
  next
    case At_Control
    have "app_ok can_enabled (?a\<lparr>lifecycle_ready := b\<rparr>)" for b using ok by (simp add: app_ok_def)
    then have "master_inv can_enabled
        (checked e {} (if can_enabled then At_Stop 0 else At_Console) (m\<lparr>bm_app := ?a\<lparr>lifecycle_ready := b\<rparr>\<rparr>))" for e b
      by (intro go) (use At_Control in \<open>auto simp: facts\<close>)
    then show ?thesis using At_Control by (simp add: main_step_def Let_def app_control_init_def)
  next
    case (At_Stop i)
    then show ?thesis using inv_stop_burst [OF assms(1)] by (simp add: main_step_def)
  next
    case At_Console
    then show ?thesis by (auto simp: main_step_def facts intro!: go)
  next
    case At_Beacon
    have on: "master_inv can_enabled (checked e {Time_Beacon} At_Auto m)" for e
      by (rule go) (use At_Beacon in \<open>simp_all add: facts\<close>)
    have off: "master_inv can_enabled (m\<lparr>bm_stage := At_Auto\<rparr>)"
      by (rule ahead) (use At_Beacon in \<open>simp_all add: facts\<close>)
    show ?thesis using on off At_Beacon by (cases can_enabled) (simp_all add: main_step_def Let_def)
  next
    case At_Auto
    then show ?thesis by (auto simp: main_step_def facts intro!: go)
  next
    case At_Web
    obtain e runs where w: "web_server_start (bt_net env) = (e, runs)" by fastforce
    have "bm_tasks (main_step can_enabled env m) = bm_tasks m \<union> (if runs then {Web_Task} else {})"
      using At_Web by (simp add: main_step_def w)
    then show ?thesis
      using At_Web by (intro inv_advance [OF assms(1) r]) (auto simp: main_step_def w facts)
  qed (use assms(2) in simp_all)
qed

lemma master_inv_reach: "master_reach can_enabled Q pd env m0 m \<Longrightarrow> master_inv can_enabled m0 \<Longrightarrow> master_inv can_enabled m"
proof (induction rule: master_reach.induct)
  case (step m m')
  from step.hyps(2) show ?case
  proof cases
    case main
    then show ?thesis using step.IH step.prems by (simp add: inv_main)
  next
    case (task t acts a')
    then show ?thesis using step.IH step.prems by (simp add: inv_task)
  qed
qed

subsection \<open>The boot ends\<close>

fun stages_left :: "boot_stage \<Rightarrow> nat" where
  "stages_left At_Mount = 19" | "stages_left At_Logger = 18" | "stages_left At_Live = 17"
| "stages_left At_Registry = 16" | "stages_left At_Can = 15" | "stages_left At_Gps = 14"
| "stages_left At_Control = 13" | "stages_left (At_Stop i) = 12 - min i 3" | "stages_left At_Console = 8"
| "stages_left At_Beacon = 7" | "stages_left At_Auto = 6" | "stages_left At_Web = 5"
| "stages_left Boot_Finished = 0" | "stages_left (Boot_Aborted e) = 0"

text \<open>Every call of the boot succeeds, the web server perhaps excepted, and the bus takes the STOP bursts.\<close>

definition boot_works :: "('q, 'r, 'p) boot_env \<Rightarrow> bool" where
  "boot_works env \<longleftrightarrow> sd_card_mount (bt_sd env) = ESP_OK \<and> bt_log_queue env \<noteq> None \<and> bt_file_mutex env \<and> bt_writer env
     \<and> bt_monitor env \<and> can_master_init True (bt_can env) = ESP_OK
     \<and> gps_receiver_start (bt_uart env) True \<lparr>gps_task_handle = False, gps_handler = False\<rparr>
         = (ESP_OK, False, \<lparr>gps_task_handle = True, gps_handler = True\<rparr>)
     \<and> bt_lifecycle_mutex env \<and> bt_console env \<and> bt_beacon env \<and> bt_auto env"

definition bus_works :: "('q, 'r, 'p) boot_env \<Rightarrow> bool" where
  "bus_works env \<longleftrightarrow> bt_stop_env env =
     (\<lambda>i j. \<lparr>mutex_taken = True, drain_result = ESP_OK, transmit_result = ESP_OK, done_result = ESP_OK\<rparr>)"

lemma send_works:
  assumes "mutex_taken env" and "drain_result env = ESP_OK" and "transmit_result env = ESP_OK" and "done_result env = ESP_OK"
  shows "fst (can_master_send env i None 0 tx) = ESP_OK"
proof -
  have "fst (send_locked env i [] 0 tx') = ESP_OK" for tx' using assms(3,4) by (simp add: send_locked_def Let_def)
  then show ?thesis using assms(1,2) by (simp add: can_master_send_def split_beta)
qed

lemma stop_burst_works:
  "fst (can_master_stop_nodes (\<lambda>j. \<lparr>mutex_taken = True, drain_result = ESP_OK, transmit_result = ESP_OK, done_result = ESP_OK\<rparr>) tx)
     = ESP_OK"
proof -
  have "\<forall>e \<in> set (attempt_errors (map (\<lambda>j. \<lparr>mutex_taken = True, drain_result = ESP_OK, transmit_result = ESP_OK,
      done_result = ESP_OK\<rparr>) js) i tx). e = ESP_OK" for js :: "nat list" and i
    by (induction js arbitrary: tx) (simp_all add: send_works split_beta)
  then show ?thesis
    by (simp add: can_master_stop_nodes_def send_command_burst_def burst_result first_failure_ok)
qed

text \<open>No restart, the receiver not started before its call, no burst with an error.\<close>

definition on_course :: "('q, 'r) master \<Rightarrow> bool" where
  "on_course m \<longleftrightarrow> \<not> restarted (bm_stage m) \<and>
     (stages_left (bm_stage m) \<ge> 14 \<longrightarrow> bm_gps m = \<lparr>gps_task_handle = False, gps_handler = False\<rparr>) \<and>
     (\<forall>e \<in> set (stop_results (bm_log m)). e = ESP_OK)"

text \<open>The main task always reaches the end of \<open>app_main\<close> or a restart.\<close>

lemma main_step_progress:
  assumes "\<not> boot_ended (bm_stage m)" and "stage_ok can_enabled m"
  shows "stages_left (bm_stage (main_step can_enabled env m)) < stages_left (bm_stage m)"
proof (cases "bm_stage m")
  case (At_Stop i)
  then have "i < 3" using assms(2) by (simp add: stage_ok_def STOP_BURSTS_def)
  then show ?thesis using At_Stop by (auto simp: main_step_def stop_burst_step_def STOP_BURSTS_def split_beta)
qed (use assms(1) in \<open>auto simp: main_step_def checked_def Let_def split_beta\<close>)

lemma main_step_works:
  assumes "boot_works env" and "bus_works env" and "on_course m"
  shows "on_course (main_step can_enabled env m)"
proof (cases "bm_stage m")
  case (At_Stop i)
  then show ?thesis
    using assms(2,3) stop_burst_works
    by (simp add: on_course_def main_step_def stop_burst_step_def bus_works_def split_beta)
next
  case At_Web
  then show ?thesis using assms(3) by (auto simp: on_course_def main_step_def Let_def split_beta)
next
  case At_Logger
  then show ?thesis
    using assms(1,3) by (auto simp: on_course_def main_step_def checked_def Let_def boot_works_def data_logger_init_def)
qed (use assms(1,3) in \<open>simp_all add: on_course_def main_step_def checked_def Let_def boot_works_def
  node_registry_init_def app_control_init_def serial_console_start_def time_beacon_start_def\<close>)

lemma main_task_ends:
  assumes "master_reach can_enabled Q pd env m0 m" and "master_inv can_enabled m"
  shows "\<exists>m'. master_reach can_enabled Q pd env m0 m' \<and> boot_ended (bm_stage m') \<and>
    (boot_works env \<and> bus_works env \<and> on_course m \<longrightarrow> on_course m')"
  using assms
proof (induction "stages_left (bm_stage m)" arbitrary: m rule: less_induct)
  case less
  show ?case
  proof (cases "boot_ended (bm_stage m)")
    case True
    then show ?thesis using less.prems(1) by blast
  next
    case False
    let ?m = "main_step can_enabled env m"
    have "stage_ok can_enabled m" using less.prems(2) by (simp add: master_inv_def)
    then have "stages_left (bm_stage ?m) < stages_left (bm_stage m)" by (rule main_step_progress [OF False])
    moreover have "master_reach can_enabled Q pd env m0 ?m"
      by (rule master_reach.step [OF less.prems(1) master_step.main [OF False]])
    moreover have "master_inv can_enabled ?m" by (rule inv_main [OF less.prems(2) False])
    ultimately have "\<exists>m'. master_reach can_enabled Q pd env m0 m' \<and> boot_ended (bm_stage m') \<and>
        (boot_works env \<and> bus_works env \<and> on_course ?m \<longrightarrow> on_course m')"
      by (rule less.hyps)
    then show ?thesis using main_step_works [of env m can_enabled] by blast
  qed
qed

lemma boot_finishes:
  assumes "boot_works env" and "bus_works env"
  shows "\<exists>m. master_reach can_enabled Q pd env (master_static q0 r0 fs) m \<and> bm_stage m = Boot_Finished \<and>
    Console_Task \<in> bm_tasks m \<and> (\<forall>e \<in> set (stop_results (bm_log m)). e = ESP_OK)"
proof -
  let ?m0 = "master_static q0 r0 fs"
  have "on_course ?m0" by (simp add: on_course_def master_static_def)
  then obtain m where m: "master_reach can_enabled Q pd env ?m0 m" "boot_ended (bm_stage m)" "on_course m"
    using main_task_ends [OF master_reach.boot master_inv_static, of can_enabled Q pd env q0 r0 fs] assms by blast
  then have fin: "bm_stage m = Boot_Finished" by (cases "bm_stage m") (auto simp: on_course_def)
  have "Console_Task \<in> bm_tasks m"
    using master_inv_reach [OF m(1) master_inv_static] fin by (simp add: master_inv_def stage_ok_def console_at_def)
  then show ?thesis using m fin by (auto simp: on_course_def)
qed

definition smooth_boot :: "(queued_sample list, can_message list, unit) boot_env" where
  "smooth_boot = \<lparr>
     bt_sd = \<lparr>sd_format = False, sd_power = Some (\<lambda>channel. (ESP_OK, ())),
       sd_host_default = \<lparr>host_slot = 1, pwr_ctrl_handle = None\<rparr>,
       sd_slot_default = \<lparr>slot_width = 0, slot_clk = 0, slot_cmd = 0, slot_d0 = 0, slot_d1 = 0, slot_d2 = 0, slot_d3 = 0,
         slot_cd = 0, slot_wp = 0, slot_flags = 0\<rparr>,
       sd_slot_0 = 0, sd_no_cd = -1, sd_no_wp = -1, sd_internal_pullup = 1,
       sd_fat_mount = (\<lambda>path host slot mount. if slot_width slot = 4 \<and> host_slot host = 0 then ESP_OK else ESP_FAIL)\<rparr>,
     bt_log_queue = Some [], bt_file_mutex = True, bt_writer = True, bt_monitor = True,
     bt_can = \<lparr>queue_created = True, mutex_created = True, new_node_result = ESP_OK, register_result = ESP_OK,
       enable_result = ESP_OK, recovery_task_created = True, dispatch_task_created = True\<rparr>,
     bt_rx_queue = [],
     bt_uart = \<lparr>uart_install = ESP_OK, uart_config_result = ESP_OK, uart_pin_result = ESP_OK, uart_threshold = ESP_OK,
       gps_task_created = True\<rparr>,
     bt_lifecycle_mutex = True,
     bt_stop_env = (\<lambda>i j. \<lparr>mutex_taken = True, drain_result = ESP_OK, transmit_result = ESP_OK, done_result = ESP_OK\<rparr>),
     bt_console = True, bt_beacon = True, bt_auto = True,
     bt_net = \<lparr>web_mutex_created = False, hosted_init = ESP_FAIL, nvs_init = ESP_FAIL, nvs_curable = (\<lambda>e. False),
       nvs_init_again = ESP_FAIL, netif_init = ESP_FAIL, event_loop = ESP_FAIL, ap_created = False, dhcps_stop = ESP_FAIL,
       dhcps_already_stopped = ESP_FAIL, set_ip_info = ESP_FAIL, dhcps_start = ESP_FAIL, wifi_results = [],
       httpd_start = ESP_FAIL, httpd_register = (\<lambda>i. ESP_FAIL)\<rparr>\<rparr>"

lemma smooth_boot_works: "boot_works smooth_boot" "bus_works smooth_boot"
  by (simp_all add: smooth_boot_def boot_works_def bus_works_def sd_card_mount_def can_master_init_ok
      gps_receiver_start_def Let_def)

subsection \<open>The properties of the boot\<close>

text \<open>
  C8: the nodes are idle before anything can start them.  From the reset of the master on, whatever
  its tasks do between the calls of \<open>app_main\<close> and whatever those calls return: until the console
  task exists no session has been started, no beacon announces recording and the only frames the
  driver has accepted are STOP commands; and when the console exists (with CAN enabled) three STOP
  bursts have been made, and if they reported no error the first frames on the bus are fifteen
  STOP commands.
\<close>
theorem boot_stops_nodes_first:
  assumes "master_reach can_enabled Q pd env (master_static q0 r0 fs) m"
  shows "(Console_Task \<notin> bm_tasks m \<longrightarrow>
        lg_state (logger_of (bm_app m)) = LOGGER_IDLE \<and> \<not> beacon_recording (bm_app m) \<and>
        set (accepted_frames None (bm_bus m)) \<subseteq> {(CAN_ID_STOP, [])})
    \<and> (Console_Task \<in> bm_tasks m \<and> can_enabled \<longrightarrow>
        length (stop_results (bm_log m)) = 3 \<and>
        ((\<forall>e \<in> set (stop_results (bm_log m)). e = ESP_OK) \<longrightarrow>
           prefix (replicate 15 (CAN_ID_STOP, [])) (accepted_frames None (bm_bus m))))"
proof -
  have inv: "master_inv can_enabled m" by (rule master_inv_reach [OF assms master_inv_static])
  have "length (stop_results (bm_log m)) = 3" if "Console_Task \<in> bm_tasks m" "can_enabled"
    using inv that bursts_console [of "bm_stage m" can_enabled]
    by (auto simp: master_inv_def stage_ok_def STOP_BURSTS_def split: if_splits)
  then show ?thesis
    using inv by (auto simp: master_inv_def quiet_def stops_first_def app_ok_def CAN_COMMAND_REPEAT_COUNT_def)
qed

theorem boot_stops_nodes_first_witness:
  "\<exists>m. master_reach True (list_queue LOG_QUEUE_LENGTH) (\<lambda>ms. word_of_nat ms) smooth_boot (master_static [] [] Map.empty) m
     \<and> bm_stage m = Boot_Finished \<and> prefix (replicate 15 (CAN_ID_STOP, [])) (accepted_frames None (bm_bus m))"
proof -
  obtain m where m: "master_reach True (list_queue LOG_QUEUE_LENGTH) (\<lambda>ms. word_of_nat ms) smooth_boot (master_static [] [] Map.empty) m"
      "bm_stage m = Boot_Finished" "Console_Task \<in> bm_tasks m" "\<forall>e \<in> set (stop_results (bm_log m)). e = ESP_OK"
    using boot_finishes [OF smooth_boot_works] by blast
  then show ?thesis using boot_stops_nodes_first [OF m(1)] by blast
qed

text \<open>
  C10: the master's state stays well formed.  In every state it reaches from reset the registry has
  one slot per node number, the live cache one sample per signal, each valid one of its own signal
  and of 32 bits, an enabled view exactly when there is an owner, and the writer's block of 100
  records has room for the next sample; and the modules agree about recording.
\<close>
theorem master_well_formed:
  assumes "master_reach can_enabled Q pd env (master_static q0 r0 fs) m"
  shows "length (reg_nodes (registry_of (bm_app m))) = unat CAN_NODE_SLOT_COUNT
    \<and> live_inv (live_of (bm_app m))
    \<and> length (block (logger_of (bm_app m))) < LOG_RECORDS_PER_BLOCK
    \<and> app_ok can_enabled (bm_app m)"
  using master_inv_reach [OF assms master_inv_static]
  by (simp add: master_inv_def app_wf_def reg_wf_def)

theorem master_well_formed_witness:
  "\<exists>m. master_reach True (list_queue LOG_QUEUE_LENGTH) (\<lambda>ms. word_of_nat ms) smooth_boot (master_static [] [] Map.empty) m
     \<and> bm_stage m = Boot_Finished \<and> length (reg_nodes (registry_of (bm_app m))) = 7"
proof -
  obtain m where m: "master_reach True (list_queue LOG_QUEUE_LENGTH) (\<lambda>ms. word_of_nat ms) smooth_boot (master_static [] [] Map.empty) m"
      "bm_stage m = Boot_Finished"
    using boot_finishes [OF smooth_boot_works] by blast
  then show ?thesis using master_well_formed [OF m(1)] by auto
qed

end
