(* ===== verification/Sampler.thy ===== *)
theory Sampler
  imports Can_Payload App_Protocol Rtos_Queue
begin

text \<open>
  The sampling pipeline of a sensor node: \<open>time/time_sync.c\<close> (the offset to the master's clock),
  \<open>sampler/sampler.c\<close> (the schedule, the queue that prefers the newest samples, the events of
  the engine node, the sender) and \<open>sensors/sensor_registry.c\<close>.  A sensor's \<open>read\<close> callback is
  an argument: what it returned and stored.  Times are microseconds of the local timer.
\<close>

definition SAMPLE_QUEUE_LENGTH :: nat where "SAMPLE_QUEUE_LENGTH = 64"

subsection \<open>The master's clock\<close>

definition time_sync_update :: "u64 \<Rightarrow> int \<Rightarrow> int" where
  "time_sync_update master_time_us local_us = sint master_time_us - local_us"

text \<open>\<open>(int32_t)((local_us + offset) / 1000)\<close>.\<close>

definition time_sync_timestamp_ms_at :: "int \<Rightarrow> int \<Rightarrow> int" where
  "time_sync_timestamp_ms_at master_offset_us local_us =
     sint (word_of_int (c_div (local_us + master_offset_us) 1000) :: u32)"

lemma in_i32_timestamp [simp]: "in_i32 (time_sync_timestamp_ms_at off l)"
  by (simp add: time_sync_timestamp_ms_at_def)

lemma timestamp_on_the_wire:
  "word_of_int (time_sync_timestamp_ms_at off l) = (word_of_int (c_div (l + off) 1000) :: u32)"
  by (simp add: time_sync_timestamp_ms_at_def)

subsection \<open>Samples and the queue\<close>

record sample =
  sa_sensor_name :: string
  sa_can_id :: u32
  sa_timestamp_ms :: int
  sa_value :: int

text \<open>\<open>sensor_t\<close>, with flags for the optional callbacks.\<close>

record sensor =
  sn_name :: string
  sn_can_id :: u32
  sn_period_us :: u32
  sn_next_sample_us :: int
  sn_has_init :: bool
  sn_has_start :: bool

record 'q sampler =
  sample_queue :: 'q
  sensors :: "sensor list"
  active :: bool

definition arm_schedule :: "int \<Rightarrow> 'q sampler \<Rightarrow> 'q sampler" where
  "arm_schedule now s = s\<lparr>sensors := map (\<lambda>x. x\<lparr>sn_next_sample_us := now\<rparr>) (sensors s)\<rparr>"

text \<open>
  \<open>sampler_start\<close>.  \<open>start i\<close> is the \<open>start\<close> callback of sensor \<open>i\<close> on the state \<open>'d\<close> of the
  drivers, called for the sensors that have one.
\<close>

definition start_sensors :: "(nat \<Rightarrow> 'd \<Rightarrow> 'd) \<Rightarrow> sensor list \<Rightarrow> 'd \<Rightarrow> 'd" where
  "start_sensors start xs d =
     fold (\<lambda>i d. if sn_has_start (xs ! i) then start i d else d) [0..<length xs] d"

definition sampler_start ::
  "('q, sample) queue_api \<Rightarrow> (nat \<Rightarrow> 'd \<Rightarrow> 'd) \<Rightarrow> int \<Rightarrow> 'q sampler \<Rightarrow> 'd \<Rightarrow> 'q sampler \<times> 'd" where
  "sampler_start Q start now s d =
     (if active s then (s, d)
      else
        let s = s\<lparr>sample_queue := xQueueReset Q (sample_queue s)\<rparr>;
            d = start_sensors start (sensors s) d;
            s = arm_schedule now s
        in (s\<lparr>active := True\<rparr>, d))"

definition sampler_stop :: "('q, sample) queue_api \<Rightarrow> 'q sampler \<Rightarrow> 'q sampler" where
  "sampler_stop Q s =
     (if \<not> active s then s
      else let s = s\<lparr>active := False\<rparr>
           in s\<lparr>sample_queue := xQueueReset Q (sample_queue s)\<rparr>)"

text \<open>
  \<open>discard\<close> is \<open>engine_rpm_discard_pending\<close> in the engine build and the identity in the others.
\<close>

definition sampler_discard_pending ::
  "('q, sample) queue_api \<Rightarrow> ('d \<Rightarrow> 'd) \<Rightarrow> 'q sampler \<Rightarrow> 'd \<Rightarrow> 'q sampler \<times> 'd" where
  "sampler_discard_pending Q discard s d =
     (s\<lparr>sample_queue := xQueueReset Q (sample_queue s)\<rparr>, discard d)"

definition enqueue_latest :: "('q, sample) queue_api \<Rightarrow> sample \<Rightarrow> 'q \<Rightarrow> 'q" where
  "enqueue_latest Q sample q =
     (case xQueueSend Q q sample of
        Some q' \<Rightarrow> q'
      | None \<Rightarrow>
          (let q = (case xQueueReceive Q q of Some (discarded, q') \<Rightarrow> q' | None \<Rightarrow> q)
           in (case xQueueSend Q q sample of Some q' \<Rightarrow> q' | None \<Rightarrow> q)))"

text \<open>The event of \<open>engine_rpm_next_event\<close>.\<close>

record engine_event =
  ev_timestamp_us :: int
  ev_engine_rpm :: int
  ev_spark :: bool

text \<open>\<open>send_unless_full\<close> is the send whose result the code discards.\<close>

definition send_unless_full :: "('q, sample) queue_api \<Rightarrow> sample \<Rightarrow> 'q \<Rightarrow> 'q" where
  "send_unless_full Q sample q = (case xQueueSend Q q sample of Some q' \<Rightarrow> q' | None \<Rightarrow> q)"

definition rpm_sample :: "int \<Rightarrow> engine_event \<Rightarrow> sample" where
  "rpm_sample off event = \<lparr>sa_sensor_name = ''engine_rpm'', sa_can_id = CAN_ID_ENGINE_RPM,
     sa_timestamp_ms = time_sync_timestamp_ms_at off (ev_timestamp_us event), sa_value = ev_engine_rpm event\<rparr>"

definition spark_sample :: "int \<Rightarrow> engine_event \<Rightarrow> sample" where
  "spark_sample off event = \<lparr>sa_sensor_name = ''engine_spark'', sa_can_id = CAN_ID_ENGINE_SPARK,
     sa_timestamp_ms = sa_timestamp_ms (rpm_sample off event), sa_value = 1\<rparr>"

text \<open>\<open>enqueue_engine_event\<close>; \<open>serial_test\<close> is the build option \<open>SENSOR_SERIAL_TEST\<close>.\<close>

definition enqueue_engine_event ::
  "bool \<Rightarrow> ('q, sample) queue_api \<Rightarrow> int \<Rightarrow> engine_event \<Rightarrow> 'q \<Rightarrow> 'q" where
  "enqueue_engine_event serial_test Q off event q =
     (let has_rpm = (\<not> ev_spark event \<or> ev_engine_rpm event > 0)
      in if serial_test
         then (if has_rpm then enqueue_latest Q (rpm_sample off event) q else q)
         else
           let count = (if ev_spark event then 1 else 0) + (if has_rpm then 1 else 0)
           in if uxQueueSpacesAvailable Q q < count then q
              else
                let q = (if ev_spark event then send_unless_full Q (spark_sample off event) q else q)
                in if has_rpm then send_unless_full Q (rpm_sample off event) q else q)"

subsection \<open>The schedule\<close>

text \<open>
  \<open>while (next_sample_us <= now) next_sample_us += period_us\<close>, which does not end for a period of
  zero.
\<close>

partial_function (option) advance :: "int \<Rightarrow> int \<Rightarrow> int \<Rightarrow> int option" where
  "advance period now next =
     (if next \<le> now then advance period now (next + period) else Some next)"

text \<open>
  The \<open>read\<close> callbacks of a build: sensor \<open>i\<close> reads and updates the driver state \<open>'d\<close>; the value
  is \<open>None\<close> where the callback did not write it (the field then keeps its initial zero).
\<close>

type_synonym 'd driver = "nat \<Rightarrow> 'd \<Rightarrow> (esp_err \<times> int option) \<times> 'd"

definition take_sample :: "'d driver \<Rightarrow> (nat \<Rightarrow> int) \<Rightarrow> nat \<Rightarrow> sensor \<Rightarrow> 'd \<Rightarrow> (esp_err \<times> sample) \<times> 'd" where
  "take_sample read stamp i x d =
     (let ((error, written), d) = read i d
      in ((error, \<lparr>sa_sensor_name = sn_name x, sa_can_id = sn_can_id x, sa_timestamp_ms = stamp i,
             sa_value = (case written of Some v \<Rightarrow> v | None \<Rightarrow> 0)\<rparr>), d))"

text \<open>
  The loop over the sensors in one round of \<open>sample_task\<close>.  \<open>stamp\<close> gives the time stamp taken
  before the read of sensor \<open>i\<close>.
\<close>

fun sample_sensors ::
  "('q, sample) queue_api \<Rightarrow> int \<Rightarrow> (nat \<Rightarrow> int) \<Rightarrow> 'd driver \<Rightarrow> nat \<Rightarrow> sensor list \<Rightarrow>
   int \<Rightarrow> 'q \<Rightarrow> 'd \<Rightarrow> (int \<times> sensor list \<times> 'q \<times> 'd) option" where
  "sample_sensors Q now stamp read i [] next_due q d = Some (next_due, [], q, d)"
| "sample_sensors Q now stamp read i (x # xs) next_due q d =
     (case (if now \<ge> sn_next_sample_us x
            then
              (let ((error, sample), d) = take_sample read stamp i x d
               in (case advance (uint (sn_period_us x)) now (sn_next_sample_us x) of
                     None \<Rightarrow> None
                   | Some next \<Rightarrow>
                       Some (x\<lparr>sn_next_sample_us := next\<rparr>,
                             if error = ESP_OK then enqueue_latest Q sample q else q, d)))
            else Some (x, q, d)) of
        None \<Rightarrow> None
      | Some (x, q, d) \<Rightarrow>
          (case sample_sensors Q now stamp read (Suc i) xs
                  (if sn_next_sample_us x < next_due then sn_next_sample_us x else next_due) q d of
             None \<Rightarrow> None
           | Some (next_due, xs, q, d) \<Rightarrow> Some (next_due, x # xs, q, d)))"

text \<open>One round of \<open>sample_task\<close> while active, and the ticks it sleeps (\<open>later\<close> is the time after).\<close>

definition sample_round ::
  "('q, sample) queue_api \<Rightarrow> int \<Rightarrow> (nat \<Rightarrow> int) \<Rightarrow> 'd driver \<Rightarrow> 'q sampler \<Rightarrow> 'd \<Rightarrow>
   (int \<times> 'q sampler \<times> 'd) option" where
  "sample_round Q now stamp read s d =
     (case sample_sensors Q now stamp read 0 (sensors s) (now + 1000000) (sample_queue s) d of
        None \<Rightarrow> None
      | Some (next_due, xs, q, d) \<Rightarrow> Some (next_due, s\<lparr>sensors := xs, sample_queue := q\<rparr>, d))"

definition sleep_ticks :: "(nat \<Rightarrow> u32) \<Rightarrow> int \<Rightarrow> int \<Rightarrow> u32" where
  "sleep_ticks pd next_due later =
     (let sleep_us = next_due - later;
          ticks = (if sleep_us > 0 then pd (unat (word_of_int (c_div sleep_us 1000) :: u32)) else 0)
      in if ticks > 0 then ticks else 1)"

subsection \<open>The sender\<close>

text \<open>
  One round of \<open>send_task\<close>: the frame it sends, if any.  The eight payload bytes are the packed
  sample in the memory order of the little-endian processor.
\<close>

definition send_sample ::
  "('q, sample) queue_api \<Rightarrow> 'q sampler \<Rightarrow> (u32 \<times> u8 list) option \<times> 'q sampler" where
  "send_sample Q s =
     (case xQueueReceive Q (sample_queue s) of
        None \<Rightarrow> (None, s)
      | Some (sample, q) \<Rightarrow>
          let s = s\<lparr>sample_queue := q\<rparr>
          in if \<not> active s then (None, s)
             else (Some (sa_can_id sample,
                     payload_bytes (pack_sample (sa_value sample) (word_of_int (sa_timestamp_ms sample)))), s))"

subsection \<open>The queue keeps the newest samples\<close>

context rtos_queue
begin

lemma send_or_keep:
  "items (case xQueueSend Q q x of Some q' \<Rightarrow> q' | None \<Rightarrow> q)
     = (if length (items q) < cap then items q @ [x] else items q)"
  by (rule send_cases [of q x]) simp_all

lemma send_dropping_oldest:
  assumes "0 < cap"
  shows "items (case xQueueSend Q q x of Some q' \<Rightarrow> q' | None \<Rightarrow>
      (let q = (case xQueueReceive Q q of Some (discarded, q') \<Rightarrow> q' | None \<Rightarrow> q)
       in (case xQueueSend Q q x of Some q' \<Rightarrow> q' | None \<Rightarrow> q)))
     = drop (length (items q @ [x]) - cap) (items q @ [x])"
proof (cases rule: send_cases [of q x])
  case (sent q')
  then show ?thesis by simp
next
  case full
  with assms obtain y ys where ys: "items q = y # ys" by (cases "items q") auto
  then obtain q' where q': "xQueueReceive Q q = Some (y, q')" "items q' = ys"
    using receive_some by blast
  then have "length (items q') < cap" using full ys by simp
  then obtain q'' where "xQueueSend Q q' x = Some q''" "items q'' = ys @ [x]"
    using send_room [of q' x] q'(2) by auto
  then show ?thesis using full ys q' by simp
qed

end

lemma drop_drop_newest:
  "drop (length (drop (length xs - n) xs @ ys) - n) (drop (length xs - n) xs @ ys)
     = drop (length (xs @ ys) - n) (xs @ ys)"
  by (cases "length xs \<le> n") (simp_all add: add.commute)

lemma enqueue_latest_items:
  assumes "rtos_queue Q cap items" and "0 < cap"
  shows "items (enqueue_latest Q x q) = drop (length (items q @ [x]) - cap) (items q @ [x])"
  unfolding enqueue_latest_def by (rule rtos_queue.send_dropping_oldest [OF assms])

lemma send_unless_full_items:
  assumes "rtos_queue Q cap items"
  shows "items (send_unless_full Q x q) = (if length (items q) < cap then items q @ [x] else items q)"
  unfolding send_unless_full_def by (rule rtos_queue.send_or_keep [OF assms])

text \<open>
  Filling the queue.  \<open>enqueue_latest\<close> prefers current measurements: whatever was queued and however many
  samples follow, the queue afterwards holds exactly the newest 64 of them, in order.
\<close>
lemma queue_keeps_newest:
  assumes Q: "rtos_queue Q SAMPLE_QUEUE_LENGTH items"
  shows "items (fold (enqueue_latest Q) samples q)
           = drop (length (items q @ samples) - SAMPLE_QUEUE_LENGTH) (items q @ samples)"
proof (induction samples rule: rev_induct)
  case Nil
  then show ?case using rtos_queue.bounded [OF Q, of q] by simp
next
  case (snoc x xs)
  have "0 < SAMPLE_QUEUE_LENGTH" by (simp add: SAMPLE_QUEUE_LENGTH_def)
  then show ?case
    using drop_drop_newest [of "items q @ xs" SAMPLE_QUEUE_LENGTH "[x]"]
    by (simp add: enqueue_latest_items [OF Q] snoc.IH)
qed

subsection \<open>Engine events are queued whole\<close>

text \<open>The samples one engine event stands for: the spark, then the RPM unless it is unknown.\<close>

definition event_samples :: "int \<Rightarrow> engine_event \<Rightarrow> sample list" where
  "event_samples off event =
     (if ev_spark event then [spark_sample off event] else [])
     @ (if \<not> ev_spark event \<or> ev_engine_rpm event > 0 then [rpm_sample off event] else [])"

text \<open>
  An event of the engine node is queued whole or not at all: the spark and its RPM
  measurement enter the queue next to each other with one time stamp, after everything queued
  before, and the event is lost only when the queue has no room for all of it.
\<close>
lemma engine_event_queued_whole:
  assumes Q: "rtos_queue Q SAMPLE_QUEUE_LENGTH items"
  shows "items (enqueue_engine_event False Q off event q)
           = (if length (items q) + length (event_samples off event) \<le> SAMPLE_QUEUE_LENGTH
              then items q @ event_samples off event else items q)
         \<and> (\<forall>x\<in>set (event_samples off event).
              sa_timestamp_ms x = time_sync_timestamp_ms_at off (ev_timestamp_us event))"
proof
  have "uxQueueSpacesAvailable Q q = SAMPLE_QUEUE_LENGTH - length (items q)"
    by (rule rtos_queue.spaces [OF Q])
  then show "items (enqueue_engine_event False Q off event q)
           = (if length (items q) + length (event_samples off event) \<le> SAMPLE_QUEUE_LENGTH
              then items q @ event_samples off event else items q)"
    using rtos_queue.bounded [OF Q, of q]
    by (auto simp: enqueue_engine_event_def event_samples_def Let_def send_unless_full_items [OF Q])
  show "\<forall>x\<in>set (event_samples off event).
      sa_timestamp_ms x = time_sync_timestamp_ms_at off (ev_timestamp_us event)"
    by (auto simp: event_samples_def spark_sample_def rpm_sample_def)
qed

subsection \<open>The schedule does not drift\<close>

text \<open>Reference: the first point after \<open>now\<close> on the grid of a sensor, without a loop.\<close>

definition next_slot :: "int \<Rightarrow> int \<Rightarrow> int \<Rightarrow> int" where
  "next_slot period now next =
     (if next \<le> now then next + period * ((now - next) div period + 1) else next)"

lemma uint_pos: "w \<noteq> 0 \<Longrightarrow> 0 < uint (w :: u32)"
  using word_gt_0 [of w] by (simp add: word_less_def)

lemma next_slot_after:
  assumes "0 < period"
  shows "now < next_slot period now next" and "next \<le> now \<Longrightarrow> next_slot period now next \<le> now + period"
proof -
  have m: "(now - next) div period * period \<le> now - next"
      "now - next < (now - next) div period * period + period"
    using div_mult_mod_eq [of "now - next" period] pos_mod_bound [OF assms, of "now - next"]
      pos_mod_sign [OF assms, of "now - next"] by linarith+
  show "now < next_slot period now next"
    using m(2) by (auto simp: next_slot_def algebra_simps)
  show "next \<le> now \<Longrightarrow> next_slot period now next \<le> now + period"
    using m(1) by (auto simp: next_slot_def algebra_simps)
qed

lemma next_slot_grid: "next_slot period now next mod period = next mod period"
  by (simp add: next_slot_def)

lemma advance_eq_next_slot:
  assumes "0 < period"
  shows "advance period now start = Some (next_slot period now start)"
proof (induction "nat (now - start + 1)" arbitrary: start rule: less_induct)
  case less
  show ?case
  proof (cases "start \<le> now")
    case True
    then have "nat (now - (start + period) + 1) < nat (now - start + 1)" using assms by simp
    then have "advance period now start = Some (next_slot period now (start + period))"
      using less True by (subst advance.simps) simp
    also have "next_slot period now (start + period) = next_slot period now start"
    proof (cases "start + period \<le> now")
      case True
      have "(now - start) div period = (now - (start + period)) div period + 1"
        using assms div_add_self2 [of period "now - (start + period)"] by simp
      then show ?thesis using True assms by (simp add: next_slot_def algebra_simps)
    next
      case False
      then have "(now - start) div period = 0" using \<open>start \<le> now\<close> by simp
      then show ?thesis using False \<open>start \<le> now\<close> by (simp add: next_slot_def)
    qed
    finally show ?thesis .
  next
    case False
    then show ?thesis by (subst advance.simps) (simp add: next_slot_def)
  qed
qed

definition schedule_next :: "int \<Rightarrow> sensor \<Rightarrow> sensor" where
  "schedule_next now x =
     x\<lparr>sn_next_sample_us := next_slot (uint (sn_period_us x)) now (sn_next_sample_us x)\<rparr>"

text \<open>Reference: the samples of the due sensors whose read succeeded, and the driver state.\<close>

fun due_samples :: "int \<Rightarrow> (nat \<Rightarrow> int) \<Rightarrow> 'd driver \<Rightarrow> nat \<Rightarrow> sensor list \<Rightarrow> 'd \<Rightarrow> sample list \<times> 'd" where
  "due_samples now stamp read i [] d = ([], d)"
| "due_samples now stamp read i (x # xs) d =
     (if sn_next_sample_us x \<le> now
      then
        let ((error, sample), d) = take_sample read stamp i x d;
            (samples, d) = due_samples now stamp read (Suc i) xs d
        in (if error = ESP_OK then sample # samples else samples, d)
      else due_samples now stamp read (Suc i) xs d)"

definition soonest :: "int \<Rightarrow> int list \<Rightarrow> int" where
  "soonest limit dues = fold (\<lambda>t due. if t < due then t else due) dues limit"

lemma soonest_le: "soonest limit dues \<le> limit \<and> (\<forall>t\<in>set dues. soonest limit dues \<le> t)"
  unfolding soonest_def
proof (induction dues arbitrary: limit)
  case (Cons t ts)
  let ?l = "if t < limit then t else limit"
  have "?l \<le> limit" "?l \<le> t" by auto
  with Cons.IH [of ?l] show ?case by (auto intro: order_trans split del: if_split)
qed simp

lemma schedule_next_simps [simp]:
  "sn_name (schedule_next now x) = sn_name x" "sn_can_id (schedule_next now x) = sn_can_id x"
  "sn_period_us (schedule_next now x) = sn_period_us x"
  by (simp_all add: schedule_next_def)

lemma schedule_next_not_due: "now < sn_next_sample_us x \<Longrightarrow> schedule_next now x = x"
  by (simp add: schedule_next_def next_slot_def)

lemma sample_sensors_spec:
  assumes "\<forall>x\<in>set xs. sn_period_us x \<noteq> 0"
  shows "sample_sensors Q now stamp read i xs due q d =
     Some (soonest due (map (\<lambda>x. sn_next_sample_us (schedule_next now x)) xs), map (schedule_next now) xs,
       fold (enqueue_latest Q) (fst (due_samples now stamp read i xs d)) q,
       snd (due_samples now stamp read i xs d))"
  using assms
proof (induction xs arbitrary: i due q d)
  case Nil
  then show ?case by (simp add: soonest_def)
next
  case (Cons x xs)
  have "0 < uint (sn_period_us x)" using Cons.prems by (simp add: uint_pos)
  note adv = advance_eq_next_slot [OF this]
  have IH: "sample_sensors Q now stamp read (Suc i) xs due q d =
     Some (soonest due (map (\<lambda>x. sn_next_sample_us (schedule_next now x)) xs), map (schedule_next now) xs,
       fold (enqueue_latest Q) (fst (due_samples now stamp read (Suc i) xs d)) q,
       snd (due_samples now stamp read (Suc i) xs d))" for due q d
    using Cons.IH Cons.prems by simp
  show ?case
  proof (cases "sn_next_sample_us x \<le> now")
    case True
    obtain e sa d' where t: "take_sample read stamp i x d = ((e, sa), d')" by (metis surj_pair)
    show ?thesis
      using True by (simp add: t adv IH soonest_def schedule_next_def case_prod_unfold Let_def)
  next
    case False
    then show ?thesis by (simp add: IH soonest_def schedule_next_not_due)
  qed
qed

lemma schedule_next_grid:
  "(sn_next_sample_us (schedule_next now x) - t) mod uint (sn_period_us x)
     = (sn_next_sample_us x - t) mod uint (sn_period_us x)"
  using next_slot_grid [of "uint (sn_period_us x)" now "sn_next_sample_us x"]
  by (metis mod_diff_left_eq schedule_next_def sensor.select_convs(4) sensor.surjective sensor.update_convs(4))

lemma schedule_next_after: "sn_period_us x \<noteq> 0 \<Longrightarrow> now < sn_next_sample_us (schedule_next now x)"
  using next_slot_after(1) by (simp add: schedule_next_def uint_pos)

lemma sample_round_spec:
  assumes "\<forall>x\<in>set (sensors s). sn_period_us x \<noteq> 0"
  shows "\<exists>next_due s' d'. sample_round Q now stamp read s d = Some (next_due, s', d')
    \<and> sensors s' = map (schedule_next now) (sensors s)"
  by (simp add: sample_round_def sample_sensors_spec [OF assms])

text \<open>
  One round of the sampling task ends and does what the schedule says: exactly the due
  sensors are read, each once, the samples of the successful reads (and no others) are queued
  in registry order, every due sensor is moved to the first point of its own grid after \<open>now\<close>,
  the round's next due time is not after any sensor's, and the task then sleeps at least a tick.
\<close>
lemma sample_round_meets_schedule:
  assumes "\<forall>x\<in>set (sensors s). sn_period_us x \<noteq> 0"
  shows "\<exists>next_due s' d'. sample_round Q now stamp read s d = Some (next_due, s', d')
    \<and> (let (fresh, d'') = due_samples now stamp read 0 (sensors s) d
       in d' = d'' \<and> sample_queue s' = fold (enqueue_latest Q) fresh (sample_queue s))
    \<and> sensors s' = map (schedule_next now) (sensors s) \<and> active s' = active s
    \<and> (\<forall>x\<in>set (sensors s'). now < sn_next_sample_us x \<and> next_due \<le> sn_next_sample_us x)
    \<and> next_due \<le> now + 1000000 \<and> 1 \<le> unat (sleep_ticks pd next_due later)"
proof -
  let ?due = "soonest (now + 1000000) (map (\<lambda>x. sn_next_sample_us (schedule_next now x)) (sensors s))"
  have "sleep_ticks pd ?due later \<noteq> 0" by (simp add: sleep_ticks_def Let_def word_gt_0)
  then have ticks: "1 \<le> unat (sleep_ticks pd ?due later)" by (simp add: unat_gt_0 Suc_leI)
  have near: "?due \<le> now + 1000000 \<and> (\<forall>x\<in>set (sensors s). ?due \<le> sn_next_sample_us (schedule_next now x))"
    using soonest_le [of "now + 1000000" "map (\<lambda>x. sn_next_sample_us (schedule_next now x)) (sensors s)"] by simp
  show ?thesis
    by (intro exI conjI, simp only: sample_round_def sample_sensors_spec [OF assms] option.case prod.case)
      (use near ticks assms in \<open>auto simp: case_prod_unfold schedule_next_after\<close>)
qed

definition one_sensor :: "sample list sampler" where
  "one_sensor = \<lparr>sample_queue = [],
     sensors = [\<lparr>sn_name = ''adc'', sn_can_id = 0x0C0, sn_period_us = 10000, sn_next_sample_us = 500,
                  sn_has_init = False, sn_has_start = False\<rparr>],
     active = False\<rparr>"

text \<open>Any number of rounds of the sampling task at the times given with them.\<close>

fun sample_rounds ::
  "('q, sample) queue_api \<Rightarrow> (int \<times> (nat \<Rightarrow> int) \<times> 'd driver) list \<Rightarrow> 'q sampler \<Rightarrow> 'd \<Rightarrow>
   ('q sampler \<times> 'd) option" where
  "sample_rounds Q [] s d = Some (s, d)"
| "sample_rounds Q ((now, stamp, read) # rounds) s d =
     (case sample_round Q now stamp read s d of
        None \<Rightarrow> None
      | Some (next_due, s, d) \<Rightarrow> sample_rounds Q rounds s d)"

lemma sample_rounds_schedule:
  assumes "\<forall>x\<in>set (sensors s). sn_period_us x \<noteq> 0"
  shows "\<exists>s' d'. sample_rounds Q rounds s d = Some (s', d')
    \<and> sensors s' = fold (\<lambda>(now, _). map (schedule_next now)) rounds (sensors s)"
  using assms
proof (induction rounds arbitrary: s d)
  case (Cons r rounds)
  obtain now stamp read where r: "r = (now, stamp, read)" by (metis surj_pair)
  obtain nd s1 d1 where 1: "sample_round Q now stamp read s d = Some (nd, s1, d1)"
      "sensors s1 = map (schedule_next now) (sensors s)"
    using sample_round_spec [OF Cons.prems] by metis
  have "\<forall>x\<in>set (sensors s1). sn_period_us x \<noteq> 0" using Cons.prems 1(2) by auto
  from Cons.IH [OF this, of d1] 1 show ?case by (auto simp: r)
qed simp

text \<open>
  C25: from the start of a session on, every round of the sampling task ends and every sensor
  stays on the grid fixed at the start: however late the rounds run, its next sample is a whole
  number of its periods after the start and after the last round.
\<close>
theorem schedule_never_drifts:
  assumes "\<not> active s" and "\<forall>x\<in>set (sensors s). sn_period_us x \<noteq> 0"
    and "sampler_start Q start t0 s d0 = (s1, d)"
  shows "\<exists>s' d'. sample_rounds Q rounds s1 d = Some (s', d')
    \<and> map sn_can_id (sensors s') = map sn_can_id (sensors s)
    \<and> (\<forall>x\<in>set (sensors s'). (sn_next_sample_us x - t0) mod uint (sn_period_us x) = 0
         \<and> (rounds \<noteq> [] \<longrightarrow> fst (last rounds) < sn_next_sample_us x))"
proof -
  have s1: "sensors s1 = map (\<lambda>x. x\<lparr>sn_next_sample_us := t0\<rparr>) (sensors s)"
    using assms(1,3) by (auto simp: sampler_start_def arm_schedule_def Let_def)
  then have pos: "\<forall>x\<in>set (sensors s1). sn_period_us x \<noteq> 0" using assms(2) by auto
  obtain s' d' where run: "sample_rounds Q rounds s1 d = Some (s', d')"
      "sensors s' = fold (\<lambda>(now, _). map (schedule_next now)) rounds (sensors s1)"
    using sample_rounds_schedule [OF pos] by metis
  have "map sn_can_id (sensors s') = map sn_can_id (sensors s)
      \<and> (\<forall>x\<in>set (sensors s'). sn_period_us x \<noteq> 0)
      \<and> (\<forall>x\<in>set (sensors s'). (sn_next_sample_us x - t0) mod uint (sn_period_us x) = 0)
      \<and> (rounds \<noteq> [] \<longrightarrow> (\<forall>x\<in>set (sensors s'). fst (last rounds) < sn_next_sample_us x))"
    unfolding run(2)
  proof (induction rounds rule: rev_induct)
    case Nil
    then show ?case using pos by (auto simp: s1)
  next
    case (snoc r rounds)
    obtain now stamp read where r: "r = (now, stamp, read)" by (metis surj_pair)
    show ?case
      using snoc by (auto simp: r o_def schedule_next_grid schedule_next_after)
  qed
  then show ?thesis using run(1) by auto
qed

theorem schedule_never_drifts_witness:
  "\<exists>s' d'. sample_rounds (list_queue 64) [(25000, \<lambda>i. 0, \<lambda>i d. ((ESP_FAIL, None), d))]
       (fst (sampler_start (list_queue 64) (\<lambda>i d. d) 1000 one_sensor ())) () = Some (s', d')
     \<and> (\<forall>x\<in>set (sensors s'). (sn_next_sample_us x - 1000) mod uint (sn_period_us x) = 0)"
proof -
  have "\<not> active one_sensor" "\<forall>x\<in>set (sensors one_sensor). sn_period_us x \<noteq> 0"
    by (simp_all add: one_sensor_def)
  from schedule_never_drifts [OF this, of "list_queue 64" "\<lambda>i d. d" 1000 "()"
      "fst (sampler_start (list_queue 64) (\<lambda>i d. d) 1000 one_sensor ())" "()"
      "[(25000, \<lambda>i. 0, \<lambda>i d. ((ESP_FAIL, None), d))]"]
  show ?thesis by (auto simp: prod_eq_iff)
qed

subsection \<open>The sender\<close>

text \<open>Any number of rounds of \<open>send_task\<close>: the frames it sends.\<close>

fun send_rounds ::
  "('q, sample) queue_api \<Rightarrow> nat \<Rightarrow> 'q sampler \<Rightarrow> (u32 \<times> u8 list) list \<times> 'q sampler" where
  "send_rounds Q 0 s = ([], s)"
| "send_rounds Q (Suc n) s =
     (let (frame, s) = send_sample Q s; (frames, s) = send_rounds Q n s
      in ((case frame of Some f \<Rightarrow> [f] | None \<Rightarrow> []) @ frames, s))"

definition sample_frame :: "sample \<Rightarrow> u32 \<times> u8 list" where
  "sample_frame x =
     (sa_can_id x, payload_bytes (pack_sample (sa_value x) (word_of_int (sa_timestamp_ms x))))"

lemma send_sample_cases:
  assumes "rtos_queue Q cap items"
  shows "fst (send_sample Q s)
           = (case items (sample_queue s) of [] \<Rightarrow> None
              | x # xs \<Rightarrow> if active s then Some (sample_frame x) else None)"
    and "items (sample_queue (snd (send_sample Q s))) = drop 1 (items (sample_queue s))"
    and "active (snd (send_sample Q s)) = active s"
    and "sensors (snd (send_sample Q s)) = sensors s"
proof -
  have "fst (send_sample Q s) = (case items (sample_queue s) of [] \<Rightarrow> None
      | x # xs \<Rightarrow> if active s then Some (sample_frame x) else None)
    \<and> items (sample_queue (snd (send_sample Q s))) = drop 1 (items (sample_queue s))
    \<and> active (snd (send_sample Q s)) = active s \<and> sensors (snd (send_sample Q s)) = sensors s"
    by (cases rule: rtos_queue.receive_cases [OF assms, of "sample_queue s", case_names got none])
      (simp_all add: send_sample_def sample_frame_def Let_def)
  then show "fst (send_sample Q s)
           = (case items (sample_queue s) of [] \<Rightarrow> None
              | x # xs \<Rightarrow> if active s then Some (sample_frame x) else None)"
    and "items (sample_queue (snd (send_sample Q s))) = drop 1 (items (sample_queue s))"
    and "active (snd (send_sample Q s)) = active s"
    and "sensors (snd (send_sample Q s)) = sensors s" by simp_all
qed

text \<open>
  While the sampler is active the sender puts the queued samples on the bus oldest first,
  each as one eight-byte frame under its sensor's identifier, and drops nothing; while it is
  inactive the sender empties the queue without sending.
\<close>
lemma sender_drains_in_order:
  assumes Q: "rtos_queue Q cap items"
  shows "fst (send_rounds Q n s)
           = (if active s then map sample_frame (take n (items (sample_queue s))) else [])
         \<and> items (sample_queue (snd (send_rounds Q n s))) = drop n (items (sample_queue s))"
proof (induction n arbitrary: s)
  case (Suc n)
  note step = send_sample_cases [OF Q, of s]
  show ?case
    using Suc.IH [of "snd (send_sample Q s)"] step
    by (cases "items (sample_queue s)") (auto simp: case_prod_unfold Let_def drop_Suc)
qed simp

subsection \<open>Time stamps\<close>

text \<open>
  Sample times of every node lie on the master's clock.  When a beacon stamped \<open>M\<close> reaches
  a node whose timer is \<open>off\<close> behind the master's, at most \<open>delay\<close> late, a sample the node
  takes when the master's clock shows \<open>m\<close> is stamped with a millisecond between the one
  containing \<open>m - delay\<close> and the one containing \<open>m\<close>.
\<close>
lemma node_time_follows_master:
  assumes "0 \<le> (received + off) - sint M" and "(received + off) - sint M \<le> delay"
    and "m = taken + off" and "delay \<le> m" and "m < 2 ^ 31 * 1000"
  shows "(m - delay) div 1000 \<le> time_sync_timestamp_ms_at (time_sync_update M received) taken
       \<and> time_sync_timestamp_ms_at (time_sync_update M received) taken \<le> m div 1000"
proof -
  let ?t = "taken + time_sync_update M received"
  have t: "m - delay \<le> ?t" "?t \<le> m" using assms by (simp_all add: time_sync_update_def)
  then have "0 \<le> ?t" "?t div 1000 < 2 ^ 31" using assms(4,5) by auto
  then have "time_sync_timestamp_ms_at (time_sync_update M received) taken = ?t div 1000"
    unfolding time_sync_timestamp_ms_at_def
    by (subst sint_word_of_int_i32) (auto simp: c_div_nonneg in_i32_def intro: order_trans [of _ 0])
  then show ?thesis using t by (simp add: zdiv_mono1)
qed

end
