(* ===== verification/Can_Node.thy ===== *)
theory Can_Node
  imports Can_Master Sampler
begin

text \<open>
  The CAN side of a sensor node, \<open>sensor-node/src/can/can_node.c\<close>, with the callbacks that
  \<open>sensor-node/src/main.c\<close> connects to it: the sampler's start, stop and discard and the clock
  offset.  \<open>me\<close> is \<open>NODE_ID\<close>; \<open>'d\<close> is the state of the build's sensor drivers.
\<close>

definition NODE_RX_QUEUE_LENGTH :: nat where "NODE_RX_QUEUE_LENGTH = 16"
definition CAN_ERROR_LOG_MS :: nat where "CAN_ERROR_LOG_MS = 1000"

subsection \<open>State\<close>

record ('q, 'd) node =
  current_state :: node_state
  reset_reason :: u8
  node_tx :: can_tx
  node_sampler :: "'q sampler"
  node_driver :: 'd
  master_offset_us :: int

text \<open>
  The callbacks of a build with what they need from outside: the start callbacks of its sensors
  and the discard of its driver.
\<close>

record 'd build =
  driver_start :: "nat \<Rightarrow> 'd \<Rightarrow> 'd"
  driver_discard :: "'d \<Rightarrow> 'd"

text \<open>What handling one message meets: the local time in its callbacks and the bus.\<close>

record node_env =
  beacon_local_us :: int
  start_local_us :: int
  report_env :: tx_env

subsection \<open>Transmission\<close>

definition can_node_send ::
  "tx_env \<Rightarrow> u32 \<Rightarrow> u8 list option \<Rightarrow> u8 \<Rightarrow> can_tx \<Rightarrow> esp_err \<times> tx_action list \<times> can_tx" where
  "can_node_send env can_id payload len tx =
     (if len > 8 \<or> (len > 0 \<and> payload = None) then (ESP_ERR_INVALID_ARG, [], tx)
      else if \<not> mutex_taken env then (ESP_ERR_TIMEOUT, [], tx)
      else let bytes = (case payload of None \<Rightarrow> [] | Some bytes \<Rightarrow> bytes)
           in if tx_pending tx
              then if drain_result env \<noteq> ESP_OK
                   then (drain_result env, [Wait_All_Done (drain_result env)], tx)
                   else (case send_locked env can_id bytes len (tx\<lparr>tx_pending := False\<rparr>) of
                           (error, acts, tx') \<Rightarrow> (error, Wait_All_Done (drain_result env) # acts, tx'))
              else send_locked env can_id bytes len tx)"

lemma can_node_send_eq: "can_node_send = can_master_send"
  by (intro ext) (simp only: can_node_send_def can_master_send_def)

interpretation node_port: retained_frame_port can_node_send
  unfolding can_node_send_eq by (rule master_port.retained_frame_port_axioms)

text \<open>\<open>can_node_report_state\<close>: the driver calls it makes, and the node.\<close>

definition report_payload :: "node_state \<Rightarrow> node_state_reason \<Rightarrow> ('q, 'd) node \<Rightarrow> u8 list" where
  "report_payload state reason n =
     [node_state_code state, node_state_reason_code reason,
      if reason = NODE_STATE_REASON_BOOT then reset_reason n else 0]"

definition can_node_report_state ::
  "u8 \<Rightarrow> tx_env \<Rightarrow> node_state \<Rightarrow> node_state_reason \<Rightarrow> ('q, 'd) node \<Rightarrow> tx_action list \<times> ('q, 'd) node" where
  "can_node_report_state me env state reason n =
     (let n = n\<lparr>current_state := state\<rparr>;
          (error, acts, tx) = can_node_send env (CAN_ID_NODE_STATE_BASE + ucast me)
             (Some (report_payload state reason n)) (of_nat CAN_NODE_STATE_LENGTH) (node_tx n)
      in (acts, n\<lparr>node_tx := tx\<rparr>))"

subsection \<open>Reception and dispatch\<close>

definition node_receive_callback ::
  "('q, can_message) queue_api \<Rightarrow> (u32 \<times> u16 \<times> u8 list) option \<Rightarrow> 'q \<Rightarrow> 'q" where
  "node_receive_callback Q frame q =
     (case frame of
        None \<Rightarrow> q
      | Some (frame_id, frame_dlc, bytes) \<Rightarrow>
          (case xQueueSend Q q (received_message frame_id frame_dlc bytes) of None \<Rightarrow> q | Some q \<Rightarrow> q))"

text \<open>\<open>state_change_callback\<close> of the node; the counter starts at zero.\<close>

definition node_state_change_callback :: "twai_error_state \<Rightarrow> u32 \<Rightarrow> u32" where
  "node_state_change_callback new_sta bus_off_generation =
     (if new_sta = TWAI_ERROR_BUS_OFF then bus_off_generation + 1 else bus_off_generation)"

definition targets_this_node :: "u8 \<Rightarrow> can_message \<Rightarrow> bool" where
  "targets_this_node me m =
     (if msg_dlc m = 0 then True
      else let target = (ucast (msg_data m) :: u8) in target = me \<or> target = 0xFF)"

text \<open>The callbacks of \<open>main.c\<close>.\<close>

definition handle_start ::
  "('q, sample) queue_api \<Rightarrow> 'd build \<Rightarrow> int \<Rightarrow> ('q, 'd) node \<Rightarrow> ('q, 'd) node" where
  "handle_start Q b now n =
     (let (s, d) = sampler_start Q (driver_start b) now (node_sampler n) (node_driver n)
      in n\<lparr>node_sampler := s, node_driver := d\<rparr>)"

definition handle_stop :: "('q, sample) queue_api \<Rightarrow> ('q, 'd) node \<Rightarrow> ('q, 'd) node" where
  "handle_stop Q n = n\<lparr>node_sampler := sampler_stop Q (node_sampler n)\<rparr>"

definition handle_bus_off ::
  "('q, sample) queue_api \<Rightarrow> 'd build \<Rightarrow> ('q, 'd) node \<Rightarrow> ('q, 'd) node" where
  "handle_bus_off Q b n =
     (let (s, d) = sampler_discard_pending Q (driver_discard b) (node_sampler n) (node_driver n)
      in n\<lparr>node_sampler := s, node_driver := d\<rparr>)"

text \<open>One round of \<open>dispatch_task\<close>: the driver calls it makes, and the node.\<close>

definition dispatch ::
  "u8 \<Rightarrow> ('q, sample) queue_api \<Rightarrow> 'd build \<Rightarrow> node_env \<Rightarrow> can_message \<Rightarrow> ('q, 'd) node \<Rightarrow>
   tx_action list \<times> ('q, 'd) node" where
  "dispatch me Q b env m n =
     (if msg_id m = CAN_ID_MASTER_TIME \<and> msg_dlc m = 8
      then
        let n = n\<lparr>master_offset_us :=
                    time_sync_update (msg_data m AND CAN_MASTER_TIME_VALUE_MASK) (beacon_local_us env)\<rparr>;
            master_state = (if msg_data m AND CAN_MASTER_TIME_RECORDING_FLAG \<noteq> 0
                            then NODE_STATE_ACTIVE else NODE_STATE_IDLE)
        in if master_state \<noteq> current_state n
           then let n = (if master_state = NODE_STATE_ACTIVE
                         then handle_start Q b (start_local_us env) n else handle_stop Q n)
                in can_node_report_state me (report_env env) master_state NODE_STATE_REASON_BEACON_SYNC n
           else ([], n)
      else if msg_id m = CAN_ID_START \<and> targets_this_node me m
      then
        let n = (if current_state n \<noteq> NODE_STATE_ACTIVE
                 then handle_start Q b (start_local_us env) n else n)
        in can_node_report_state me (report_env env) NODE_STATE_ACTIVE NODE_STATE_REASON_START n
      else if msg_id m = CAN_ID_STOP \<and> targets_this_node me m
      then
        let n = (if current_state n \<noteq> NODE_STATE_IDLE then handle_stop Q n else n)
        in can_node_report_state me (report_env env) NODE_STATE_IDLE NODE_STATE_REASON_STOP n
      else ([], n))"

lemma report_frame [frame_simps]:
  "current_state (snd (can_node_report_state me env st why n)) = st"
  "node_sampler (snd (can_node_report_state me env st why n)) = node_sampler n"
  "node_driver (snd (can_node_report_state me env st why n)) = node_driver n"
  "master_offset_us (snd (can_node_report_state me env st why n)) = master_offset_us n"
  "reset_reason (snd (can_node_report_state me env st why n)) = reset_reason n"
  by (simp_all add: can_node_report_state_def Let_def case_prod_unfold)

lemma active_start [simp]: "active (node_sampler (handle_start Q b now n))"
  by (simp add: handle_start_def sampler_start_def Let_def case_prod_unfold)

lemma active_stop [simp]: "\<not> active (node_sampler (handle_stop Q n))"
  by (simp add: handle_stop_def sampler_stop_def Let_def)

lemma current_start_stop [frame_simps]:
  "current_state (handle_start Q b now n) = current_state n" "current_state (handle_stop Q n) = current_state n"
  "master_offset_us (handle_start Q b now n) = master_offset_us n"
  "master_offset_us (handle_stop Q n) = master_offset_us n"
  "node_tx (handle_start Q b now n) = node_tx n" "node_tx (handle_stop Q n) = node_tx n"
  "reset_reason (handle_start Q b now n) = reset_reason n" "reset_reason (handle_stop Q n) = reset_reason n"
  by (simp_all add: handle_start_def handle_stop_def case_prod_unfold Let_def)

lemma handle_offset [frame_simps]:
  "handle_start Q b now (n\<lparr>master_offset_us := x\<rparr>) = (handle_start Q b now n)\<lparr>master_offset_us := x\<rparr>"
  "handle_stop Q (n\<lparr>master_offset_us := x\<rparr>) = (handle_stop Q n)\<lparr>master_offset_us := x\<rparr>"
  by (simp_all add: handle_start_def handle_stop_def case_prod_unfold Let_def)

subsection \<open>The node follows the master\<close>

text \<open>The specification: what a message demands of node \<open>me\<close>, if anything.\<close>

definition is_beacon :: "can_message \<Rightarrow> bool" where
  "is_beacon m \<longleftrightarrow> msg_id m = CAN_ID_MASTER_TIME \<and> msg_dlc m = 8"

definition demanded_state :: "u8 \<Rightarrow> can_message \<Rightarrow> node_state option" where
  "demanded_state me m =
     (if is_beacon m then Some (if bit (msg_data m) 63 then NODE_STATE_ACTIVE else NODE_STATE_IDLE)
      else if msg_id m = CAN_ID_START \<and> targets_this_node me m then Some NODE_STATE_ACTIVE
      else if msg_id m = CAN_ID_STOP \<and> targets_this_node me m then Some NODE_STATE_IDLE
      else None)"

text \<open>The state a node reports is the state its sampler is in.\<close>

definition node_consistent :: "('q, 'd) node \<Rightarrow> bool" where
  "node_consistent n \<longleftrightarrow> (active (node_sampler n) \<longleftrightarrow> current_state n = NODE_STATE_ACTIVE)"

lemma message_cases:
  obtains (beacon) "is_beacon m"
    and "demanded_state me m = Some (if bit (msg_data m) 63 then NODE_STATE_ACTIVE else NODE_STATE_IDLE)"
  | (start) "\<not> is_beacon m" "msg_id m = CAN_ID_START" "targets_this_node me m" "demanded_state me m = Some NODE_STATE_ACTIVE"
  | (stop) "\<not> is_beacon m" "msg_id m = CAN_ID_STOP" "targets_this_node me m" "demanded_state me m = Some NODE_STATE_IDLE"
  | (other) "\<not> is_beacon m" "\<not> (msg_id m = CAN_ID_START \<and> targets_this_node me m)"
      "\<not> (msg_id m = CAN_ID_STOP \<and> targets_this_node me m)" "demanded_state me m = None"
proof (cases "is_beacon m")
  case True
  then show ?thesis by (intro beacon) (simp_all add: demanded_state_def)
next
  case nb: False
  have ids: "CAN_ID_STOP \<noteq> CAN_ID_START" by (simp add: command_id_defs)
  consider "msg_id m = CAN_ID_START \<and> targets_this_node me m"
    | "msg_id m = CAN_ID_STOP \<and> targets_this_node me m"
    | "\<not> (msg_id m = CAN_ID_START \<and> targets_this_node me m)"
      "\<not> (msg_id m = CAN_ID_STOP \<and> targets_this_node me m)" by blast
  then show ?thesis
    by cases (use nb ids in \<open>simp_all add: demanded_state_def start stop other\<close>)
qed

text \<open>What \<open>dispatch\<close> does with each kind of message.\<close>

lemma dispatch_beacon:
  assumes "is_beacon m" and "demanded_state me m = Some st"
  shows "dispatch me Q b env m n =
    (let n = n\<lparr>master_offset_us :=
           time_sync_update (msg_data m AND CAN_MASTER_TIME_VALUE_MASK) (beacon_local_us env)\<rparr>
     in if st = current_state n then ([], n)
        else can_node_report_state me (report_env env) st NODE_STATE_REASON_BEACON_SYNC
          (if st = NODE_STATE_ACTIVE then handle_start Q b (start_local_us env) n else handle_stop Q n))"
proof -
  have m: "msg_id m = CAN_ID_MASTER_TIME \<and> msg_dlc m = 8" using assms(1) by (simp add: is_beacon_def)
  have "st = (if msg_data m AND CAN_MASTER_TIME_RECORDING_FLAG \<noteq> 0 then NODE_STATE_ACTIVE else NODE_STATE_IDLE)"
    using assms by (auto simp: demanded_state_def and_recording_flag_zero split: if_splits)
  then show ?thesis using m unfolding dispatch_def by (simp add: Let_def)
qed

lemma dispatch_start:
  assumes "\<not> is_beacon m" and "msg_id m = CAN_ID_START" and "targets_this_node me m"
  shows "dispatch me Q b env m n =
    can_node_report_state me (report_env env) NODE_STATE_ACTIVE NODE_STATE_REASON_START
      (if current_state n \<noteq> NODE_STATE_ACTIVE then handle_start Q b (start_local_us env) n else n)"
  unfolding dispatch_def if_not_P [OF assms(1) [unfolded is_beacon_def]]
  using assms(2,3) by simp

lemma dispatch_stop:
  assumes "\<not> is_beacon m" and "msg_id m = CAN_ID_STOP" and "targets_this_node me m"
  shows "dispatch me Q b env m n =
    can_node_report_state me (report_env env) NODE_STATE_IDLE NODE_STATE_REASON_STOP
      (if current_state n \<noteq> NODE_STATE_IDLE then handle_stop Q n else n)"
proof -
  have "CAN_ID_STOP \<noteq> CAN_ID_START" by (simp add: command_id_defs)
  then show ?thesis
    unfolding dispatch_def if_not_P [OF assms(1) [unfolded is_beacon_def]] using assms(2,3) by simp
qed

lemma dispatch_other:
  assumes "\<not> is_beacon m" and "\<not> (msg_id m = CAN_ID_START \<and> targets_this_node me m)"
    and "\<not> (msg_id m = CAN_ID_STOP \<and> targets_this_node me m)"
  shows "dispatch me Q b env m n = ([], n)"
  unfolding dispatch_def if_not_P [OF assms(1) [unfolded is_beacon_def]]
    if_not_P [OF assms(2)] if_not_P [OF assms(3)] ..

lemma dispatch_state:
  "current_state (snd (dispatch me Q b env m n))
     = (case demanded_state me m of None \<Rightarrow> current_state n | Some st \<Rightarrow> st)"
  by (cases rule: message_cases [of m me, case_names beacon start stop other]; cases "current_state n")
    (simp_all add: dispatch_beacon dispatch_start dispatch_stop dispatch_other frame_simps Let_def)

lemma dispatch_sampler:
  "node_sampler (snd (dispatch me Q b env m n))
     = (case demanded_state me m of
          None \<Rightarrow> node_sampler n
        | Some st \<Rightarrow>
            if st = current_state n then node_sampler n
            else if st = NODE_STATE_ACTIVE then node_sampler (handle_start Q b (start_local_us env) n)
            else node_sampler (handle_stop Q n))"
  by (cases rule: message_cases [of m me, case_names beacon start stop other]; cases "current_state n")
    (simp_all add: dispatch_beacon dispatch_start dispatch_stop dispatch_other frame_simps Let_def)

lemma dispatch_consistent [inv_intros]:
  "node_consistent n \<Longrightarrow> node_consistent (snd (dispatch me Q b env m n))"
  unfolding node_consistent_def dispatch_state dispatch_sampler
  by (cases "current_state n"; cases "demanded_state me m") auto

fun dispatch_run ::
  "u8 \<Rightarrow> ('q, sample) queue_api \<Rightarrow> 'd build \<Rightarrow> (node_env \<times> can_message) list \<Rightarrow> ('q, 'd) node \<Rightarrow>
   tx_action list \<times> ('q, 'd) node" where
  "dispatch_run me Q b [] n = ([], n)"
| "dispatch_run me Q b ((env, m) # ms) n =
     (let (acts, n) = dispatch me Q b env m n; (acts', n) = dispatch_run me Q b ms n in (acts @ acts', n))"

lemma dispatch_run_follows:
  assumes "node_consistent n" and "dispatch_run me Q b ms n = (acts, n')"
  shows "current_state n' =
           fold (\<lambda>(env, m) st. case demanded_state me m of None \<Rightarrow> st | Some st' \<Rightarrow> st') ms (current_state n)
       \<and> (active (node_sampler n') \<longleftrightarrow> current_state n' = NODE_STATE_ACTIVE)"
  using assms
proof (induction ms arbitrary: n acts)
  case Nil
  then show ?case by (simp add: node_consistent_def)
next
  case (Cons em ms)
  obtain env m where em: "em = (env, m)" by fastforce
  obtain acts' where "dispatch_run me Q b ms (snd (dispatch me Q b env m n)) = (acts', n')"
    using Cons.prems(2) by (auto simp: em case_prod_unfold Let_def prod_eq_iff)
  from Cons.IH [OF dispatch_consistent [OF Cons.prems(1)] this] show ?case
    by (simp add: em dispatch_state)
qed

text \<open>Messages that demand no other state than the node's own leave its sampler and its state alone.\<close>

lemma undemanded_run:
  assumes "\<forall>(env, m)\<in>set ms. demanded_state me m = None \<or> demanded_state me m = Some (current_state n)"
    and "dispatch_run me Q b ms n = (calls, n')"
  shows "current_state n' = current_state n \<and> node_sampler n' = node_sampler n"
  using assms
proof (induction ms arbitrary: n calls)
  case (Cons em ms)
  obtain env m where em: "em = (env, m)" by fastforce
  have same: "current_state (snd (dispatch me Q b env m n)) = current_state n"
    "node_sampler (snd (dispatch me Q b env m n)) = node_sampler n"
    using Cons.prems(1) by (auto simp: em dispatch_state dispatch_sampler)
  obtain calls' where "dispatch_run me Q b ms (snd (dispatch me Q b env m n)) = (calls', n')"
    using Cons.prems(2) by (auto simp: em case_prod_unfold Let_def prod_eq_iff)
  then show ?case using Cons.IH [of "snd (dispatch me Q b env m n)"] Cons.prems(1) same by simp
qed simp

text \<open>
  C7: the node follows the master.  From a node whose sampler runs exactly when it reports
  ACTIVE, after any messages in any order the node is in the state the last message with a
  demand for it asked for (commands for it, broadcasts and the recording flag of beacons;
  commands for other nodes and all other frames ask for nothing), and its sampler runs exactly
  when that state is ACTIVE.
\<close>
theorem node_follows_master:
  assumes "node_consistent n" and "dispatch_run me Q b ms n = (acts, n')"
  shows "current_state n' =
           fold (\<lambda>(env, m) st. case demanded_state me m of None \<Rightarrow> st | Some st' \<Rightarrow> st') ms (current_state n)
       \<and> (active (node_sampler n') \<longleftrightarrow> current_state n' = NODE_STATE_ACTIVE)"
  by (rule dispatch_run_follows [OF assms])

definition fresh_node :: "(sample list, unit) node" where
  "fresh_node = \<lparr>current_state = NODE_STATE_IDLE, reset_reason = 1, node_tx = can_tx_boot,
     node_sampler = one_sensor, node_driver = (), master_offset_us = 0\<rparr>"

definition good_bus :: tx_env where
  "good_bus = \<lparr>mutex_taken = True, drain_result = ESP_OK, transmit_result = ESP_OK, done_result = ESP_OK\<rparr>"

definition plain_build :: "'d build" where
  "plain_build = \<lparr>driver_start = (\<lambda>i d. d), driver_discard = (\<lambda>d. d)\<rparr>"

theorem node_follows_master_witness:
  "current_state (snd (dispatch_run 6 (list_queue 64) plain_build
     [(\<lparr>beacon_local_us = 0, start_local_us = 5, report_env = good_bus\<rparr>,
       \<lparr>msg_id = CAN_ID_START, msg_dlc = 1, msg_data = 6\<rparr>),
      (\<lparr>beacon_local_us = 0, start_local_us = 5, report_env = good_bus\<rparr>,
       \<lparr>msg_id = CAN_ID_STOP, msg_dlc = 1, msg_data = 3\<rparr>)] fresh_node)) = NODE_STATE_ACTIVE"
proof -
  have "node_consistent fresh_node" by (simp add: node_consistent_def fresh_node_def one_sensor_def)
  from node_follows_master [OF this surjective_pairing [of "dispatch_run 6 (list_queue 64) plain_build
     [(\<lparr>beacon_local_us = 0, start_local_us = 5, report_env = good_bus\<rparr>,
       \<lparr>msg_id = CAN_ID_START, msg_dlc = 1, msg_data = 6\<rparr>),
      (\<lparr>beacon_local_us = 0, start_local_us = 5, report_env = good_bus\<rparr>,
       \<lparr>msg_id = CAN_ID_STOP, msg_dlc = 1, msg_data = 3\<rparr>)] fresh_node"], THEN conjunct1]
  show ?thesis
    by (simp del: dispatch_run.simps add: demanded_state_def is_beacon_def targets_this_node_def command_id_defs)
qed

subsection \<open>Acknowledgements\<close>

text \<open>The bus takes and acknowledges a frame, and releases one left from before.\<close>

definition bus_up :: "tx_env \<Rightarrow> bool" where
  "bus_up env \<longleftrightarrow> mutex_taken env \<and> drain_result env = ESP_OK \<and> transmit_result env = ESP_OK
     \<and> done_result env = ESP_OK"

definition state_frame :: "u8 \<Rightarrow> node_state \<Rightarrow> node_state_reason \<Rightarrow> u8 \<Rightarrow> u32 \<times> u8 list" where
  "state_frame me state reason extra =
     (CAN_ID_NODE_STATE_BASE + ucast me, [node_state_code state, node_state_reason_code reason, extra])"

lemma can_node_send_up:
  assumes "bus_up env" and "len \<le> 8" and "unat len \<le> length bytes"
  shows "\<exists>acts tx'. can_node_send env i (Some bytes) len tx = (ESP_OK, acts, tx')
    \<and> accepted_frames buf acts = [(i, take (unat len) bytes)] \<and> \<not> tx_pending tx'"
proof -
  obtain e acts tx' where s: "can_node_send env i (Some bytes) len tx = (e, acts, tx')" by (metis prod_cases3)
  have "e = ESP_OK \<and> \<not> tx_pending tx'"
    using s assms(1,2) unfolding can_node_send_def bus_up_def
    by (auto simp: send_locked_def Let_def not_le split: if_splits prod.splits)
  with s node_port.send_accepts [of env i "Some bytes" len tx acts tx' buf] assms(3) show ?thesis by simp
qed

lemma report_accepted:
  assumes "bus_up env"
  shows "accepted_frames buf (fst (can_node_report_state me env st why n))
    = [state_frame me st why (if why = NODE_STATE_REASON_BOOT then reset_reason n else 0)]"
proof -
  have "3 = unat (of_nat CAN_NODE_STATE_LENGTH :: u8)" "(of_nat CAN_NODE_STATE_LENGTH :: u8) \<le> 8"
    by (simp_all add: CAN_NODE_STATE_LENGTH_def)
  moreover have "length (report_payload st why n') = 3" for n' :: "('q, 'd) node"
    by (simp add: report_payload_def)
  ultimately show ?thesis
    using can_node_send_up [OF assms, of "of_nat CAN_NODE_STATE_LENGTH"
        "report_payload st why (n\<lparr>current_state := st\<rparr>)" "CAN_ID_NODE_STATE_BASE + ucast me" "node_tx n" buf]
    by (auto simp: can_node_report_state_def Let_def state_frame_def report_payload_def)
qed

definition acknowledgement :: "u8 \<Rightarrow> can_message \<Rightarrow> node_state \<Rightarrow> (u32 \<times> u8 list) list" where
  "acknowledgement me m current =
     (if is_beacon m
      then let st = (if bit (msg_data m) 63 then NODE_STATE_ACTIVE else NODE_STATE_IDLE)
           in if st = current then [] else [state_frame me st NODE_STATE_REASON_BEACON_SYNC 0]
      else if msg_id m = CAN_ID_START \<and> targets_this_node me m
      then [state_frame me NODE_STATE_ACTIVE NODE_STATE_REASON_START 0]
      else if msg_id m = CAN_ID_STOP \<and> targets_this_node me m
      then [state_frame me NODE_STATE_IDLE NODE_STATE_REASON_STOP 0]
      else [])"

text \<open>
  While the bus is up, every START and STOP for the node is answered by exactly one
  three-byte state frame under the node's own identifier, a repetition of the burst too, a
  beacon is answered exactly when it changes the state, and no other frame is answered.
\<close>
lemma commands_acknowledged:
  assumes "bus_up (report_env env)"
  shows "accepted_frames None (fst (dispatch me Q b env m n)) = acknowledgement me m (current_state n)"
proof -
  have ids: "CAN_ID_STOP \<noteq> CAN_ID_START" by (simp add: command_id_defs)
  show ?thesis
  proof (cases rule: message_cases [of m me, case_names beacon start stop other])
    case beacon
    then show ?thesis
      by (simp add: dispatch_beacon acknowledgement_def report_accepted [OF assms] Let_def)
  next
    case start
    then show ?thesis
      by (simp add: dispatch_start acknowledgement_def report_accepted [OF assms])
  next
    case stop
    then show ?thesis
      using ids by (simp add: dispatch_stop acknowledgement_def report_accepted [OF assms])
  next
    case other
    then show ?thesis by (simp only: dispatch_other acknowledgement_def if_False simp_thms fst_conv) simp
  qed
qed

subsection \<open>Bus-off recovery\<close>

text \<open>What one poll meets beyond \<open>poll_env\<close>; the tick counter is read again after a recovery call.\<close>

record node_poll_env = poll_env +
  tx_error_count :: u16
  rx_error_count :: u16
  bus_err_num :: u32
  recover_ticks :: u32

text \<open>The local variables of \<open>recovery_task\<close>.\<close>

record node_recovery =
  nr_recovering :: bool
  nr_generation :: u32
  nr_warning_at :: u32
  nr_previous :: twai_error_state
  nr_tx_errors :: u16
  nr_rx_errors :: u16
  nr_bus_errors :: u32
  nr_last_error_log :: u32

definition node_recovery_boot :: node_recovery where
  "node_recovery_boot = \<lparr>nr_recovering = False, nr_generation = 0, nr_warning_at = 0,
     nr_previous = TWAI_ERROR_ACTIVE, nr_tx_errors = 0, nr_rx_errors = 0, nr_bus_errors = 0,
     nr_last_error_log = 0\<rparr>"

text \<open>What a poll does besides: log lines, the bus-off callback, the report of the recovery.\<close>

datatype node_recovery_act =
    Log_State twai_error_state twai_error_state
  | Log_Errors u16 u16 u32
  | Discard_Pending
  | Log_Recovery esp_err
  | Report_Recovery
  | Log_Waiting
  | Log_Status_Failed esp_err

definition node_error_log ::
  "(nat \<Rightarrow> u32) \<Rightarrow> node_poll_env \<Rightarrow> node_recovery \<Rightarrow> node_recovery_act list \<times> node_recovery" where
  "node_error_log pd env r =
     (let changed = (if info_state env \<noteq> nr_previous r then [Log_State (nr_previous r) (info_state env)] else []);
          r = r\<lparr>nr_previous := info_state env\<rparr>;
          errors_changed = (tx_error_count env \<noteq> nr_tx_errors r \<or> rx_error_count env \<noteq> nr_rx_errors r
            \<or> bus_err_num env \<noteq> nr_bus_errors r);
          due = (errors_changed \<and> poll_ticks env - nr_last_error_log r \<ge> pd CAN_ERROR_LOG_MS);
          r = (if due then r\<lparr>nr_last_error_log := poll_ticks env\<rparr> else r);
          r = r\<lparr>nr_tx_errors := tx_error_count env, nr_rx_errors := rx_error_count env,
                nr_bus_errors := bus_err_num env\<rparr>
      in (changed @ (if due then [Log_Errors (tx_error_count env) (rx_error_count env) (bus_err_num env)] else []), r))"

text \<open>One round of \<open>recovery_task\<close>: whether \<open>twai_node_recover\<close> was called, the acts, the state.\<close>

definition node_recovery_poll ::
  "(nat \<Rightarrow> u32) \<Rightarrow> node_poll_env \<Rightarrow> node_recovery \<Rightarrow> bool \<times> node_recovery_act list \<times> node_recovery" where
  "node_recovery_poll pd env r =
     (if info_result env \<noteq> ESP_OK then (False, [Log_Status_Failed (info_result env)], r)
      else
        let (logs, r) = node_error_log pd env r
        in if info_state env = TWAI_ERROR_BUS_OFF
              \<and> (\<not> nr_recovering r \<or> poll_generation env \<noteq> nr_generation r)
           then if recover_result env = ESP_OK
                then (True, logs @ [Discard_Pending, Log_Recovery ESP_OK],
                      r\<lparr>nr_recovering := True, nr_generation := poll_generation env,
                        nr_warning_at := recover_ticks env\<rparr>)
                else (True, logs @ [Discard_Pending, Log_Recovery (recover_result env)],
                      r\<lparr>nr_recovering := False\<rparr>)
           else if nr_recovering r \<and> info_state env \<noteq> TWAI_ERROR_BUS_OFF
           then (False, logs @ [Report_Recovery], r\<lparr>nr_recovering := False\<rparr>)
           else if nr_recovering r \<and> poll_ticks env - nr_warning_at r \<ge> pd CAN_RECOVERY_WARN_MS
           then (False, logs @ [Log_Waiting], r\<lparr>nr_warning_at := poll_ticks env\<rparr>)
           else (False, logs, r))"

lemma node_error_log_frame [frame_simps]:
  "nr_recovering (snd (node_error_log pd env r)) = nr_recovering r"
  "nr_generation (snd (node_error_log pd env r)) = nr_generation r"
  by (simp_all add: node_error_log_def Let_def)

interpretation node_recovery: bus_off_recovery node_recovery_poll nr_recovering nr_generation
  by unfold_locales
    (auto simp: node_recovery_poll_def case_prod_unfold Let_def frame_simps prod_eq_iff split: if_splits)

text \<open>The acts on the node, in one piece with the task's use of \<open>current_state\<close>.\<close>

definition recovery_act ::
  "u8 \<Rightarrow> ('q, sample) queue_api \<Rightarrow> 'd build \<Rightarrow> tx_env \<Rightarrow> node_recovery_act \<Rightarrow>
   ('q, 'd) node \<Rightarrow> tx_action list \<times> ('q, 'd) node" where
  "recovery_act me Q b env act n =
     (case act of
        Discard_Pending \<Rightarrow> ([], handle_bus_off Q b n)
      | Report_Recovery \<Rightarrow> can_node_report_state me env (current_state n) NODE_STATE_REASON_RECOVERY n
      | _ \<Rightarrow> ([], n))"

fun recovery_acts ::
  "u8 \<Rightarrow> ('q, sample) queue_api \<Rightarrow> 'd build \<Rightarrow> tx_env \<Rightarrow> node_recovery_act list \<Rightarrow>
   ('q, 'd) node \<Rightarrow> tx_action list \<times> ('q, 'd) node" where
  "recovery_acts me Q b env [] n = ([], n)"
| "recovery_acts me Q b env (act # acts) n =
     (let (calls, n) = recovery_act me Q b env act n; (calls', n) = recovery_acts me Q b env acts n
      in (calls @ calls', n))"

definition node_recovery_round ::
  "u8 \<Rightarrow> ('q, sample) queue_api \<Rightarrow> 'd build \<Rightarrow> (nat \<Rightarrow> u32) \<Rightarrow> node_poll_env \<Rightarrow> tx_env \<Rightarrow>
   node_recovery \<times> ('q, 'd) node \<Rightarrow> tx_action list \<times> node_recovery \<times> ('q, 'd) node" where
  "node_recovery_round me Q b pd env tx_env rn =
     (let (r, n) = rn; (called, acts, r) = node_recovery_poll pd env r;
          (calls, n) = recovery_acts me Q b tx_env acts n
      in (calls, r, n))"

lemma bus_off_frame [frame_simps]:
  "current_state (handle_bus_off Q b n) = current_state n"
  "active (node_sampler (handle_bus_off Q b n)) = active (node_sampler n)"
  "sensors (node_sampler (handle_bus_off Q b n)) = sensors (node_sampler n)"
  "master_offset_us (handle_bus_off Q b n) = master_offset_us n"
  by (simp_all add: handle_bus_off_def sampler_discard_pending_def)

lemma recovery_act_frame [frame_simps]:
  "current_state (snd (recovery_act me Q b env act n)) = current_state n"
  "active (node_sampler (snd (recovery_act me Q b env act n))) = active (node_sampler n)"
  "sensors (node_sampler (snd (recovery_act me Q b env act n))) = sensors (node_sampler n)"
  "master_offset_us (snd (recovery_act me Q b env act n)) = master_offset_us n"
  by (cases act; simp add: recovery_act_def frame_simps)+

lemma recovery_acts_frame [frame_simps]:
  "current_state (snd (recovery_acts me Q b env acts n)) = current_state n"
  "active (node_sampler (snd (recovery_acts me Q b env acts n))) = active (node_sampler n)"
  "sensors (node_sampler (snd (recovery_acts me Q b env acts n))) = sensors (node_sampler n)"
  "master_offset_us (snd (recovery_acts me Q b env acts n)) = master_offset_us n"
  by (induction acts arbitrary: n) (simp_all add: frame_simps case_prod_unfold Let_def)

lemma recovery_acts_append:
  "recovery_acts me Q b env (a1 @ a2) n =
     (let (c1, n) = recovery_acts me Q b env a1 n; (c2, n) = recovery_acts me Q b env a2 n in (c1 @ c2, n))"
  by (induction a1 arbitrary: n) (simp_all add: case_prod_unfold Let_def)

lemma error_log_only_logs [simp]:
  "recovery_acts me Q b env (fst (node_error_log pd penv r)) n = ([], n)"
  by (simp add: node_error_log_def Let_def recovery_act_def)

lemma error_log_only_logsD:
  "node_error_log pd penv r = (acts, r') \<Longrightarrow> recovery_acts me Q b env acts n = ([], n)"
  using error_log_only_logs [of me Q b env pd penv r n] by simp

lemma recovery_acts_poll:
  assumes "node_recovery_poll pd penv r = (called, acts, r')"
  shows "recovery_acts me Q b env acts n =
    (if called then ([], handle_bus_off Q b n)
     else if info_result penv = ESP_OK \<and> nr_recovering r \<and> info_state penv \<noteq> TWAI_ERROR_BUS_OFF
     then can_node_report_state me env (current_state n) NODE_STATE_REASON_RECOVERY n
     else ([], n))"
  using assms unfolding node_recovery_poll_def case_prod_unfold Let_def
  by (auto simp: recovery_acts_append recovery_act_def frame_simps Let_def
      split: if_splits dest: error_log_only_logsD)

text \<open>
  C27: bus-off recovery discards only unsent samples.  Whatever a poll meets, the state the node
  reports, whether it samples, the schedule and the clock offset stay; the queued samples are
  discarded exactly when the driver is asked to recover; and once the node is found off bus-off
  after a recovery, the kept state is reported with the reason RECOVERY.
\<close>
theorem recovery_preserves_sampling:
  assumes Q: "rtos_queue Q cap items"
    and "node_recovery_poll pd penv r = (called, acts, r1)"
    and "node_recovery_round me Q b pd penv env (r, n) = (calls, r', n')"
  shows "r' = r1 \<and> current_state n' = current_state n
    \<and> active (node_sampler n') = active (node_sampler n)
    \<and> sensors (node_sampler n') = sensors (node_sampler n) \<and> master_offset_us n' = master_offset_us n
    \<and> (if called then items (sample_queue (node_sampler n')) = [] else node_sampler n' = node_sampler n)
    \<and> (bus_up env \<longrightarrow> accepted_frames None calls =
         (if \<not> called \<and> info_result penv = ESP_OK \<and> nr_recovering r \<and> info_state penv \<noteq> TWAI_ERROR_BUS_OFF
          then [state_frame me (current_state n) NODE_STATE_REASON_RECOVERY 0] else []))"
proof -
  have n': "(calls, n') = recovery_acts me Q b env acts n" and r': "r' = r1"
    using assms(2,3) by (auto simp: node_recovery_round_def case_prod_unfold Let_def prod_eq_iff)
  have q: "items (sample_queue (node_sampler (handle_bus_off Q b n))) = []"
    using rtos_queue.reset [OF Q] by (simp add: handle_bus_off_def sampler_discard_pending_def)
  have keep: "current_state n' = current_state n" "active (node_sampler n') = active (node_sampler n)"
      "sensors (node_sampler n') = sensors (node_sampler n)" "master_offset_us n' = master_offset_us n"
    using recovery_acts_frame [of me Q b env acts n] n' by (metis snd_conv)+
  have eq: "(calls, n') = (if called then ([], handle_bus_off Q b n)
     else if info_result penv = ESP_OK \<and> nr_recovering r \<and> info_state penv \<noteq> TWAI_ERROR_BUS_OFF
     then can_node_report_state me env (current_state n) NODE_STATE_REASON_RECOVERY n
     else ([], n))"
    unfolding n' by (rule recovery_acts_poll [OF assms(2)])
  have "if called then items (sample_queue (node_sampler n')) = [] else node_sampler n' = node_sampler n"
    using eq q by (auto simp: prod_eq_iff frame_simps split: if_splits)
  moreover have "accepted_frames None calls =
         (if \<not> called \<and> info_result penv = ESP_OK \<and> nr_recovering r \<and> info_state penv \<noteq> TWAI_ERROR_BUS_OFF
          then [state_frame me (current_state n) NODE_STATE_REASON_RECOVERY 0] else [])" if "bus_up env"
    using eq report_accepted [OF that, of None me "current_state n" NODE_STATE_REASON_RECOVERY n]
    by (auto simp: prod_eq_iff split: if_splits)
  ultimately show ?thesis using r' keep by simp
qed

definition poll_after_recovery :: node_poll_env where
  "poll_after_recovery = \<lparr>poll_generation = 1, info_result = ESP_OK, info_state = TWAI_ERROR_ACTIVE,
     recover_result = ESP_OK, poll_ticks = 100, tx_error_count = 0, rx_error_count = 0,
     bus_err_num = 0, recover_ticks = 100\<rparr>"

theorem recovery_preserves_sampling_witness:
  "accepted_frames None (fst (node_recovery_round 6 (list_queue 64) plain_build (\<lambda>ms. word_of_nat ms)
      poll_after_recovery good_bus
      (node_recovery_boot\<lparr>nr_recovering := True, nr_generation := 1\<rparr>, fresh_node))) = [(0x0C6, [0, 4, 0])]"
proof -
  let ?r = "node_recovery_boot\<lparr>nr_recovering := True, nr_generation := 1\<rparr>"
  let ?pd = "\<lambda>ms. word_of_nat ms"
  obtain called acts r1 where p: "node_recovery_poll ?pd poll_after_recovery ?r = (called, acts, r1)"
    by (metis prod_cases3)
  obtain calls r' n' where o: "node_recovery_round 6 (list_queue 64) plain_build ?pd poll_after_recovery
      good_bus (?r, fresh_node) = (calls, r', n')" by (metis prod_cases3)
  have "\<not> called"
    using p by (auto simp: node_recovery_poll_def poll_after_recovery_def node_recovery_boot_def
        case_prod_unfold Let_def split: if_splits)
  then show ?thesis
    using recovery_preserves_sampling [OF listq.rtos_queue_axioms p o] unfolding o
    by (simp add: bus_up_def good_bus_def state_frame_def CAN_ID_NODE_STATE_BASE_def fresh_node_def
        poll_after_recovery_def node_recovery_boot_def)
qed

subsection \<open>A stale recovery report\<close>

text \<open>
  \<open>recovery_task\<close> and \<open>dispatch_task\<close> share \<open>current_state\<close> without a lock.  The recovery task
  reads it as an argument and writes it back inside \<open>can_node_report_state\<close>; a STOP handled in
  between is undone in \<open>current_state\<close>, not in the sampler.  (\<open>main.c\<close> reports the boot state the
  same way while the dispatch task already runs.)
\<close>

text \<open>
  C28: a node whose recovery report was overtaken by a STOP reports ACTIVE while its sampler is
  off, and no START and no recording beacon starts the sampler again; the first message that
  demands IDLE repairs the node.
\<close>
theorem stale_recovery_report:
  assumes "node_consistent n" and "current_state n = NODE_STATE_ACTIVE"
    and "demanded_state me stop = Some NODE_STATE_IDLE"
    and "n1 = snd (can_node_report_state me env (current_state n) NODE_STATE_REASON_RECOVERY
                     (snd (dispatch me Q b denv stop n)))"
    and "\<forall>(env, m)\<in>set ms. demanded_state me m \<noteq> Some NODE_STATE_IDLE"
    and "dispatch_run me Q b ms n1 = (calls, n2)"
    and "demanded_state me idle = Some NODE_STATE_IDLE"
  shows "current_state n2 = NODE_STATE_ACTIVE \<and> \<not> active (node_sampler n2)
    \<and> node_consistent (snd (dispatch me Q b ienv idle n2))"
proof -
  have n1: "current_state n1 = NODE_STATE_ACTIVE \<and> \<not> active (node_sampler n1)"
    using assms(2-4) by (simp add: frame_simps dispatch_sampler)
  have other: "st = None \<or> st = Some NODE_STATE_ACTIVE" if "st \<noteq> Some NODE_STATE_IDLE" for st
    using that by (cases st; cases "the st") auto
  have "\<forall>(env, m)\<in>set ms. demanded_state me m = None \<or> demanded_state me m = Some (current_state n1)"
  proof
    fix em assume "em \<in> set ms"
    then show "case em of (env, m) \<Rightarrow> demanded_state me m = None \<or> demanded_state me m = Some (current_state n1)"
      using assms(5) n1 other [of "demanded_state me (snd em)"] by (cases em) auto
  qed
  then have "current_state n2 = NODE_STATE_ACTIVE \<and> \<not> active (node_sampler n2)"
    using undemanded_run [OF _ assms(6)] n1 by simp
  then show ?thesis
    using assms(7) by (simp add: node_consistent_def dispatch_state dispatch_sampler)
qed

theorem stale_recovery_report_witness:
  "let n = snd (dispatch 6 (list_queue 64) plain_build
           \<lparr>beacon_local_us = 0, start_local_us = 5, report_env = good_bus\<rparr>
           \<lparr>msg_id = CAN_ID_START, msg_dlc = 0, msg_data = 0\<rparr> fresh_node);
       n1 = snd (can_node_report_state 6 good_bus (current_state n) NODE_STATE_REASON_RECOVERY
           (snd (dispatch 6 (list_queue 64) plain_build
              \<lparr>beacon_local_us = 0, start_local_us = 5, report_env = good_bus\<rparr>
              \<lparr>msg_id = CAN_ID_STOP, msg_dlc = 0, msg_data = 0\<rparr> n)))
   in current_state n1 = NODE_STATE_ACTIVE \<and> \<not> active (node_sampler n1)"
proof -
  let ?env = "\<lparr>beacon_local_us = 0, start_local_us = 5, report_env = good_bus\<rparr>"
  let ?n = "snd (dispatch 6 (list_queue 64) plain_build ?env
      \<lparr>msg_id = CAN_ID_START, msg_dlc = 0, msg_data = 0\<rparr> fresh_node)"
  have "node_consistent fresh_node" by (simp add: node_consistent_def fresh_node_def one_sensor_def)
  then have c: "node_consistent ?n" by (rule dispatch_consistent)
  have a: "current_state ?n = NODE_STATE_ACTIVE"
    by (simp add: dispatch_state demanded_state_def is_beacon_def targets_this_node_def command_id_defs)
  have i: "demanded_state 6 \<lparr>msg_id = CAN_ID_STOP, msg_dlc = 0, msg_data = 0\<rparr> = Some NODE_STATE_IDLE"
    by (simp add: demanded_state_def is_beacon_def targets_this_node_def command_id_defs)
  show ?thesis
    using stale_recovery_report [OF c a i refl _ dispatch_run.simps(1) i, of good_bus "list_queue 64" plain_build ?env]
    by (simp add: Let_def)
qed

subsection \<open>Initialisation\<close>

definition can_node_init :: "bool \<Rightarrow> init_env \<Rightarrow> esp_err" where
  "can_node_init callbacks_given env =
     (if \<not> callbacks_given then ESP_ERR_INVALID_ARG
      else if \<not> queue_created env \<or> \<not> mutex_created env then ESP_ERR_NO_MEM
      else if new_node_result env \<noteq> ESP_OK then new_node_result env
      else if register_result env \<noteq> ESP_OK then register_result env
      else if enable_result env \<noteq> ESP_OK then enable_result env
      else if \<not> dispatch_task_created env \<or> \<not> recovery_task_created env then ESP_ERR_NO_MEM
      else ESP_OK)"

text \<open>
  The end of \<open>app_main\<close>: initialisation must succeed (\<open>ESP_ERROR_CHECK\<close> restarts the node
  otherwise), then the boot state is reported.
\<close>

definition app_main_can ::
  "u8 \<Rightarrow> tx_env \<Rightarrow> u8 \<Rightarrow> init_env \<Rightarrow> ('q, 'd) node \<Rightarrow> (tx_action list \<times> ('q, 'd) node) option" where
  "app_main_can me env boot_reset_reason ienv n =
     (if can_node_init True ienv \<noteq> ESP_OK then None
      else Some (can_node_report_state me env NODE_STATE_IDLE NODE_STATE_REASON_BOOT
                   (n\<lparr>reset_reason := boot_reset_reason\<rparr>)))"

lemma boot_report:
  assumes "bus_up env" and "app_main_can me env why ienv n = Some (calls, n')"
  shows "accepted_frames None calls = [state_frame me NODE_STATE_IDLE NODE_STATE_REASON_BOOT why]
    \<and> current_state n' = NODE_STATE_IDLE"
proof -
  have r: "can_node_report_state me env NODE_STATE_IDLE NODE_STATE_REASON_BOOT (n\<lparr>reset_reason := why\<rparr>)
      = (calls, n')"
    using assms(2) by (simp add: app_main_can_def split: if_splits)
  show ?thesis
    using report_accepted [OF assms(1), of None me NODE_STATE_IDLE NODE_STATE_REASON_BOOT "n\<lparr>reset_reason := why\<rparr>"]
      report_frame(1) [of me env NODE_STATE_IDLE NODE_STATE_REASON_BOOT "n\<lparr>reset_reason := why\<rparr>"]
    unfolding r by simp
qed

end
