(* ===== verification/Adc_Drivers.thy ===== *)
theory Adc_Drivers
  imports C_Float Sampler
begin

text \<open>
  The analog inputs: \<open>sensors/adc_input.c\<close> and the drivers on top of it, \<open>front_brake.c\<close>,
  \<open>rear_brake.c\<close> and \<open>generic_adc.c\<close>.  Results of the ADC driver are arguments; the float
  arithmetic of the brakes is that of \<open>C_Float\<close>.
\<close>

subsection \<open>ADC input\<close>

text \<open>\<open>adc_handle\<close>, and for each of the five channels whether it is configured and calibrated.\<close>

record adc =
  adc_handle :: bool
  configured :: "bool list"
  calibration :: "bool list"

definition adc_boot :: adc where
  "adc_boot = \<lparr>adc_handle = False, configured = replicate 5 False, calibration = replicate 5 False\<rparr>"

text \<open>What one read meets; \<open>cali_result\<close> is that of whichever scheme the chip supports.\<close>

record adc_env =
  config_result :: esp_err
  cali_result :: esp_err
  oneshot_result :: esp_err
  raw_value :: int
  voltage_result :: esp_err
  cali_voltage :: int

definition adc_input_init :: "esp_err \<Rightarrow> adc \<Rightarrow> esp_err \<times> adc" where
  "adc_input_init new_unit_result a =
     (if adc_handle a then (ESP_OK, a)
      else (new_unit_result, if new_unit_result = ESP_OK then a\<lparr>adc_handle := True\<rparr> else a))"

definition configure_channel :: "adc_env \<Rightarrow> nat \<Rightarrow> adc \<Rightarrow> esp_err \<times> adc" where
  "configure_channel env channel a =
     (if configured a ! channel then (ESP_OK, a)
      else if config_result env \<noteq> ESP_OK then (config_result env, a)
      else (ESP_OK, a\<lparr>configured := (configured a)[channel := True],
                      calibration := (calibration a)[channel := cali_result env = ESP_OK]\<rparr>))"

text \<open>The result and what it stored through \<open>voltage_mv\<close>.\<close>

definition adc_input_read_mv :: "adc_env \<Rightarrow> u8 \<Rightarrow> adc \<Rightarrow> (esp_err \<times> int option) \<times> adc" where
  "adc_input_read_mv env gpio a =
     (if \<not> adc_handle a \<or> gpio > 4 then ((ESP_ERR_INVALID_ARG, None), a)
      else
        let channel = unat gpio; (error, a) = configure_channel env channel a
        in if error \<noteq> ESP_OK then ((error, None), a)
           else if oneshot_result env \<noteq> ESP_OK then ((oneshot_result env, None), a)
           else if calibration a ! channel
           then ((voltage_result env, if voltage_result env = ESP_OK then Some (cali_voltage env) else None), a)
           else ((ESP_OK, Some (c_div (raw_value env * 2450) 4095)), a))"

lemma adc_written:
  "fst (fst (adc_input_read_mv env gpio a)) = ESP_OK \<longleftrightarrow> snd (fst (adc_input_read_mv env gpio a)) \<noteq> None"
  by (simp add: adc_input_read_mv_def Let_def case_prod_unfold)

text \<open>A channel that was configured once is never configured again, calibrated or not.\<close>

lemma adc_configured_stays:
  assumes "length (configured a) = 5" and "k < 5" and "configured a ! k"
  shows "configured (snd (adc_input_read_mv env gpio a)) ! k
    \<and> calibration (snd (adc_input_read_mv env gpio a)) ! k = calibration a ! k"
  using assms
  by (cases "unat gpio = k")
    (auto simp: adc_input_read_mv_def configure_channel_def Let_def nth_list_update)

subsection \<open>Brake pressure\<close>

definition DIVIDER_SCALE :: rat where "DIVIDER_SCALE = 1 / 2"
definition SENSOR_MIN_MV :: rat where "SENSOR_MIN_MV = 500"
definition SENSOR_MAX_MV :: rat where "SENSOR_MAX_MV = 4500"
definition FRONT_PRESSURE_SPAN_PSI :: rat where "FRONT_PRESSURE_SPAN_PSI = 3000"
definition REAR_PRESSURE_SPAN_PSI :: rat where "REAR_PRESSURE_SPAN_PSI = 1600"

text \<open>
  The conversion of \<open>read_pressure\<close>: every operation is rounded to single precision, the result
  truncated to an integer.
\<close>

definition brake_pressure :: "rat \<Rightarrow> int \<Rightarrow> int" where
  "brake_pressure psi_span voltage_mv =
     (let minimum_mv = f32 (SENSOR_MIN_MV * DIVIDER_SCALE);
          span_mv = f32 (f32 (SENSOR_MAX_MV - SENSOR_MIN_MV) * DIVIDER_SCALE);
          pressure = f32 (f32 (f32 (f32 (of_int voltage_mv) - minimum_mv) / span_mv) * psi_span)
      in if pressure > 0 then \<lfloor>pressure\<rfloor> else 0)"

definition read_pressure :: "rat \<Rightarrow> u8 \<Rightarrow> adc_env \<Rightarrow> adc \<Rightarrow> (esp_err \<times> int option) \<times> adc" where
  "read_pressure psi_span gpio env a =
     (let ((error, voltage), a) = adc_input_read_mv env gpio a
      in if error \<noteq> ESP_OK then ((error, None), a)
         else ((ESP_OK, Some (brake_pressure psi_span (case voltage of Some v \<Rightarrow> v | None \<Rightarrow> 0))), a))"

definition front_brake_read :: "adc_env \<Rightarrow> adc \<Rightarrow> (esp_err \<times> int option) \<times> adc" where
  "front_brake_read = read_pressure FRONT_PRESSURE_SPAN_PSI 0"

definition rear_brake_read :: "adc_env \<Rightarrow> adc \<Rightarrow> (esp_err \<times> int option) \<times> adc" where
  "rear_brake_read = read_pressure REAR_PRESSURE_SPAN_PSI 1"

subsection \<open>Generic input\<close>

definition GENERIC_ADC_GPIO :: u8 where "GENERIC_ADC_GPIO = 1"

definition read_voltage_mv :: "adc_env \<Rightarrow> adc \<Rightarrow> (esp_err \<times> int option) \<times> adc" where
  "read_voltage_mv env a =
     (let ((error, voltage), a) = adc_input_read_mv env GENERIC_ADC_GPIO a
      in ((error, if error = ESP_OK then Some (case voltage of Some v \<Rightarrow> v | None \<Rightarrow> 0) else None), a))"

subsection \<open>Accuracy of the brake pressure\<close>

lemma brake_constants:
  "f32 (SENSOR_MIN_MV * DIVIDER_SCALE) = 250"
  "f32 (f32 (SENSOR_MAX_MV - SENSOR_MIN_MV) * DIVIDER_SCALE) = 2000"
  using f32_of_int_small [of 250] f32_of_int_small [of 4000] f32_of_int_small [of 2000]
  by (simp_all add: SENSOR_MIN_MV_def SENSOR_MAX_MV_def DIVIDER_SCALE_def)

lemma brake_pressure_eq:
  assumes "\<bar>v\<bar> \<le> 5000"
  shows "brake_pressure psi v =
    (let p = f32 (f32 (of_int (v - 250) / 2000) * psi) in if p > 0 then \<lfloor>p\<rfloor> else 0)"
proof -
  have "f32 (of_int v) = of_int v" "f32 (of_int v - 250) = of_int v - 250"
    using assms f32_of_int_small [of v] f32_of_int_small [of "v - 250"] by simp_all
  then show ?thesis by (simp add: brake_pressure_def brake_constants Let_def)
qed

text \<open>Two roundings of a value below 8000 move it by less than one part in 500.\<close>

lemma two_roundings:
  assumes "1 / 4000 \<le> x" and "x \<le> 5 / 2" and "1 \<le> psi" and "psi \<le> 3000"
  shows "\<bar>f32 (f32 x * psi) - x * psi\<bar> < 1 / 500"
proof -
  have pw: "(2 :: rat) powi (-126) \<le> 1 / 5000" "(100000 :: rat) < 2 powi 128"
    by (simp_all add: power_int_def power_divide)
  have 1: "\<bar>f32 x - x\<bar> \<le> x / 2 ^ 24" using f32_error [of x] pw assms by simp
  then have "\<bar>f32 x - x\<bar> \<le> x / 10000" using assms(1) by (simp add: divide_simps)
  then have x': "x * (9999 / 10000) \<le> f32 x" "f32 x \<le> x * (10001 / 10000)" by linarith+
  have lo: "1 / 5000 \<le> f32 x * psi"
  proof -
    have "1 / 5000 \<le> f32 x * 1" using x' assms(1) by linarith
    also have "\<dots> \<le> f32 x * psi" using assms(1,3) x' by (intro mult_left_mono) linarith+
    finally show ?thesis .
  qed
  have hi: "f32 x * psi \<le> 10000"
  proof -
    have "f32 x * psi \<le> 3 * 3000" using x' assms lo by (intro mult_mono) linarith+
    then show ?thesis by simp
  qed
  have 2: "\<bar>f32 (f32 x * psi) - f32 x * psi\<bar> \<le> f32 x * psi / 2 ^ 24"
    using f32_error [of "f32 x * psi"] pw lo hi by simp
  have "\<bar>f32 x * psi - x * psi\<bar> = \<bar>f32 x - x\<bar> * psi"
    using assms(3) by (simp add: abs_mult flip: left_diff_distrib)
  also have "\<dots> \<le> x / 2 ^ 24 * 3000" using 1 assms by (intro mult_mono) auto
  also have "\<dots> \<le> 7500 / 2 ^ 24" using assms(2) by simp
  finally have "\<bar>f32 x * psi - x * psi\<bar> \<le> 7500 / 2 ^ 24" .
  moreover have "\<bar>f32 (f32 x * psi) - f32 x * psi\<bar> \<le> 10000 / 2 ^ 24" using 2 hi by simp
  ultimately have "\<bar>f32 (f32 x * psi) - x * psi\<bar> \<le> 10000 / 2 ^ 24 + 7500 / 2 ^ 24" by linarith
  then show ?thesis by simp
qed

lemma floor_near_split:
  fixes p :: rat and q r k :: int
  assumes "\<bar>p - (of_int q + of_int r / of_int k)\<bar> < 1 / 500" and "0 < k" and "k \<le> 500"
    and "0 \<le> r" and "r < k"
  shows "\<lfloor>p\<rfloor> = q \<or> \<lfloor>p\<rfloor> = q - 1 \<and> r = 0"
proof -
  have k: "(1 :: rat) / 500 \<le> 1 / of_int k" using assms(2,3) by (simp add: frac_le)
  have "(of_int (r + 1) :: rat) \<le> of_int k" using assms(5) by (simp only: of_int_le_iff)
  then have "(of_int r :: rat) + 1 \<le> of_int k" by simp
  then have "((of_int r :: rat) + 1) / of_int k \<le> 1" using assms(2) by simp
  then have hi: "(of_int r :: rat) / of_int k + 1 / of_int k \<le> 1" by (simp add: add_divide_distrib)
  have up: "p < of_int q + 1" using assms(1) hi k by linarith
  show ?thesis
  proof (cases "r = 0")
    case True
    have "\<bar>p - of_int q\<bar> < 1 / 500" using assms(1) True by simp
    then have "of_int q - 1 \<le> p" by linarith
    then show ?thesis using True up by linarith
  next
    case False
    then have "(1 :: rat) \<le> of_int r" using assms(4) by simp
    then have "(1 :: rat) / of_int k \<le> of_int r / of_int k" using assms(2) by (simp add: divide_right_mono)
    then have "of_int q \<le> p" using assms(1) k by linarith
    then show ?thesis using up by linarith
  qed
qed

lemma floor_near:
  fixes p :: rat
  assumes "\<bar>p - of_int n / of_int k\<bar> < 1 / 500" and "0 < k" and "k \<le> 500"
  shows "\<lfloor>p\<rfloor> = n div k \<or> \<lfloor>p\<rfloor> = n div k - 1 \<and> n mod k = 0"
proof (rule floor_near_split [OF _ assms(2,3)])
  have "(of_int n :: rat) = of_int (n div k) * of_int k + of_int (n mod k)"
    by (simp flip: of_int_mult of_int_add)
  then have "(of_int n :: rat) / of_int k = of_int (n div k) + of_int (n mod k) / of_int k"
    using assms(2) by (simp add: add_divide_distrib)
  then show "\<bar>p - (of_int (n div k) + of_int (n mod k) / of_int k)\<bar> < 1 / 500" using assms(1) by simp
qed (use assms(2) in simp_all)

lemma pressure_near:
  assumes "250 < v" and "v \<le> 5000" and "1 \<le> psi" and "psi \<le> 3000"
    and "psi / 2000 = of_int c / of_int k" and "0 < k" and "k \<le> 500" and "0 < c"
  shows "brake_pressure psi v = (v - 250) * c div k
     \<or> brake_pressure psi v = (v - 250) * c div k - 1 \<and> (v - 250) * c mod k = 0 \<and> k dvd (v - 250) * c"
proof -
  let ?x = "(of_int (v - 250) :: rat) / 2000" and ?p = "f32 (f32 (of_int (v - 250) / 2000) * psi)"
  have "(1 :: rat) \<le> of_int (v - 250)" "(of_int (v - 250) :: rat) \<le> 4750" using assms(1,2) by simp_all
  then have x: "1 / 4000 \<le> ?x" "?x \<le> 5 / 2" by simp_all
  have e: "?x * psi = of_int ((v - 250) * c) / of_int k"
  proof -
    have "?x * psi = of_int (v - 250) * (psi / 2000)" by simp
    also have "\<dots> = of_int ((v - 250) * c) / of_int k" unfolding assms(5) by simp
    finally show ?thesis .
  qed
  have near: "\<bar>?p - of_int ((v - 250) * c) / of_int k\<bar> < 1 / 500"
    using two_roundings [OF x assms(3,4)] e by simp
  have "0 \<le> ?p" using x assms(3) by (intro f32_nonneg mult_nonneg_nonneg) auto
  moreover have "brake_pressure psi v = (if ?p > 0 then \<lfloor>?p\<rfloor> else 0)"
    using brake_pressure_eq [of v psi] assms(1,2) by (simp add: Let_def)
  ultimately have "brake_pressure psi v = \<lfloor>?p\<rfloor>" by auto
  then show ?thesis using floor_near [OF near assms(6,7)] by (auto simp: dvd_eq_mod_eq_0)
qed

lemma pressure_at_rest:
  assumes "v \<le> 250" and "- 5000 \<le> v" and "0 \<le> psi"
  shows "brake_pressure psi v = 0"
proof -
  have "f32 (of_int (v - 250) / 2000) * psi \<le> 0"
    using assms by (intro mult_nonpos_nonneg f32_nonpos) simp_all
  then have "f32 (f32 (of_int (v - 250) / 2000) * psi) \<le> 0" by (rule f32_nonpos)
  then show ?thesis using brake_pressure_eq [of v psi] assms by (simp add: Let_def)
qed

lemma front_pressure_268: "brake_pressure FRONT_PRESSURE_SPAN_PSI 268 = 26"
proof -
  have e: "fl_exponent 24 (-149) 104 (9 / 1000) = -30" by (rule fl_exponentI) (simp_all add: power_int_def power_divide)
  have "\<lfloor>(9 / 1000 :: rat) / 2 powi -30\<rfloor> = 9663676" by (simp add: power_int_def power_divide floor_eq_iff)
  then have "round_half_even ((9 / 1000) / 2 powi -30) = 9663676"
    by (simp add: round_half_even_def Let_def power_int_def power_divide)
  then have 1: "f32 (9 / 1000) = 9663676 / 2 ^ 30" by (simp add: f32_def fl_def e Let_def power_int_def power_divide)
  let ?y = "9663676 / 2 ^ 30 * 3000 :: rat"
  have e2: "fl_exponent 24 (-149) 104 ?y = -19" by (rule fl_exponentI) (simp_all add: power_int_def power_divide)
  have "\<lfloor>?y / 2 powi -19\<rfloor> = 14155775" by (simp add: power_int_def power_divide floor_eq_iff)
  then have "round_half_even (?y / 2 powi -19) = 14155775"
    by (simp only: round_half_even_def Let_def) (simp add: power_int_def power_divide)
  then have 2: "f32 ?y = 14155775 / 2 ^ 19" by (simp only: f32_def fl_def e2 Let_def) (simp add: power_int_def power_divide)
  have "brake_pressure FRONT_PRESSURE_SPAN_PSI 268
      = (let p = f32 ?y in if p > 0 then \<lfloor>p\<rfloor> else 0)"
    using brake_pressure_eq [of 268 3000] 1 by (simp add: FRONT_PRESSURE_SPAN_PSI_def)
  then show ?thesis unfolding 2 Let_def by (simp add: floor_eq_iff)
qed

text \<open>
  C36: the brake drivers compute \<open>(mV - 250) * 3000 / 2000\<close> and \<open>(mV - 250) * 1600 / 2000\<close> psi,
  truncated, and zero at or below 250 mV, up to the rounding of the single precision operations:
  where the exact pressure is a whole number the result can be one psi low (front brake at
  268 mV: 26 instead of 27), never more and never high.
\<close>
theorem brake_pressure_accuracy:
  assumes "- 5000 \<le> v" and "v \<le> 5000"
  shows "(v \<le> 250 \<longrightarrow> brake_pressure FRONT_PRESSURE_SPAN_PSI v = 0 \<and> brake_pressure REAR_PRESSURE_SPAN_PSI v = 0)
    \<and> (250 < v \<longrightarrow>
        (let exact = (v - 250) * 3 div 2; p = brake_pressure FRONT_PRESSURE_SPAN_PSI v
         in p = exact \<or> p = exact - 1 \<and> 2 dvd (v - 250) * 3)
      \<and> (let exact = (v - 250) * 4 div 5; p = brake_pressure REAR_PRESSURE_SPAN_PSI v
         in p = exact \<or> p = exact - 1 \<and> 5 dvd (v - 250) * 4))
    \<and> brake_pressure FRONT_PRESSURE_SPAN_PSI 268 = 26"
  using pressure_near [of v 3000 3 2] pressure_near [of v 1600 4 5] pressure_at_rest [of v] assms
    front_pressure_268
  by (auto simp: FRONT_PRESSURE_SPAN_PSI_def REAR_PRESSURE_SPAN_PSI_def Let_def)

theorem brake_pressure_accuracy_witness:
  "brake_pressure FRONT_PRESSURE_SPAN_PSI 1251 = 1501"
  using brake_pressure_accuracy [of 1251] by (simp add: Let_def dvd_eq_mod_eq_0)

end
