(* ===== verification/Bearing_Encoder.thy ===== *)
theory Bearing_Encoder
  imports Sampler
begin

text \<open>
  The quadrature encoder of \<open>sensors/bearing_encoder.c\<close>: the interrupt that counts transitions,
  the window of the last five readings and the conversion to RPM.  Times come from the local
  timer and are arguments; \<open>uint8_t\<close> indices that stay below five are \<open>nat\<close>.
\<close>

definition ENCODER_COUNTS_PER_REVOLUTION :: int where "ENCODER_COUNTS_PER_REVOLUTION = 128"
definition ENCODER_STOP_TIMEOUT_US :: int where "ENCODER_STOP_TIMEOUT_US = 100000"
definition ENCODER_SAMPLE_PERIOD_US :: u32 where "ENCODER_SAMPLE_PERIOD_US = 20000"
definition ENCODER_WINDOW_SAMPLES :: nat where "ENCODER_WINDOW_SAMPLES = 5"
definition ENCODER_DIRECTION_SIGN :: int where "ENCODER_DIRECTION_SIGN = 1"

definition transitions :: "int list" where
  "transitions = [0, -1, 1, 0,  1, 0, 0, -1,  -1, 0, 0, 1,  0, 1, -1, 0]"

definition encoder_transition :: "u8 \<Rightarrow> u8 \<Rightarrow> int" where
  "encoder_transition previous current =
     ENCODER_DIRECTION_SIGN * transitions ! unat (push_bit 2 (previous AND 3) OR (current AND 3))"

definition calculate_rpm :: "int \<Rightarrow> int \<Rightarrow> int" where
  "calculate_rpm counts elapsed_us =
     (if elapsed_us \<le> 0 \<or> counts = 0 then 0
      else
        let numerator = counts * 60000000;
            denominator = ENCODER_COUNTS_PER_REVOLUTION * elapsed_us;
            rounded = (if numerator > 0 then c_div (numerator + c_div denominator 2) denominator
                       else c_div (numerator - c_div denominator 2) denominator)
        in if rounded > 2 ^ 31 - 1 then 2 ^ 31 - 1
           else if rounded < - (2 ^ 31) then - (2 ^ 31) else rounded)"

definition encoder_is_stopped :: "int \<Rightarrow> int \<Rightarrow> bool" where
  "encoder_is_stopped last_edge_us now_us \<longleftrightarrow>
     last_edge_us \<le> 0 \<or> now_us - last_edge_us \<ge> ENCODER_STOP_TIMEOUT_US"

record encoder =
  pending_count :: int
  last_valid_edge_us :: int
  last_state :: u8
  count_window :: "int list"
  time_window_us :: "int list"
  window_index :: nat
  window_size :: nat
  last_read_us :: int

definition encoder_boot :: encoder where
  "encoder_boot = \<lparr>pending_count = 0, last_valid_edge_us = 0, last_state = 0,
     count_window = replicate ENCODER_WINDOW_SAMPLES 0, time_window_us = replicate ENCODER_WINDOW_SAMPLES 0,
     window_index = 0, window_size = 0, last_read_us = 0\<rparr>"

text \<open>The levels of A and B.\<close>

definition read_state :: "bool \<Rightarrow> bool \<Rightarrow> u8" where
  "read_state a b = (if a then 2 else 0) OR (if b then 1 else 0)"

definition encoder_isr :: "u8 \<Rightarrow> int \<Rightarrow> encoder \<Rightarrow> encoder" where
  "encoder_isr state now c =
     (let transition = encoder_transition (last_state c) state;
          c = (if transition \<noteq> 0
               then c\<lparr>pending_count := pending_count c + transition, last_valid_edge_us := now\<rparr> else c)
      in c\<lparr>last_state := state\<rparr>)"

record gpio_env =
  gpio_config_result :: esp_err
  isr_service_result :: esp_err
  handler_a_result :: esp_err
  handler_b_result :: esp_err

definition init_encoder :: "gpio_env \<Rightarrow> u8 \<Rightarrow> encoder \<Rightarrow> esp_err \<times> encoder" where
  "init_encoder env state c =
     (if gpio_config_result env \<noteq> ESP_OK then (gpio_config_result env, c)
      else if isr_service_result env \<noteq> ESP_OK \<and> isr_service_result env \<noteq> ESP_ERR_INVALID_STATE
      then (isr_service_result env, c)
      else
        let c = c\<lparr>last_state := state\<rparr>
        in if handler_a_result env \<noteq> ESP_OK then (handler_a_result env, c)
           else (handler_b_result env, c))"

definition start_encoder :: "int \<Rightarrow> encoder \<Rightarrow> encoder" where
  "start_encoder now c =
     (let c = c\<lparr>pending_count := 0, last_valid_edge_us := 0\<rparr>;
          c = c\<lparr>count_window := map (\<lambda>_. 0) (count_window c), time_window_us := map (\<lambda>_. 0) (time_window_us c)\<rparr>
      in c\<lparr>window_index := 0, window_size := 0, last_read_us := now\<rparr>)"

text \<open>The sums of the final loop run over the slots below \<open>window_size\<close>.\<close>

definition read_rpm :: "int \<Rightarrow> encoder \<Rightarrow> (esp_err \<times> int option) \<times> encoder" where
  "read_rpm now c =
     (let elapsed = now - last_read_us c
      in if elapsed \<le> 0 then ((ESP_OK, Some 0), c)
         else
           let c = c\<lparr>last_read_us := now\<rparr>;
               count = pending_count c;
               c = c\<lparr>pending_count := 0\<rparr>;
               last_edge = last_valid_edge_us c;
               c = c\<lparr>count_window := (count_window c)[window_index c := count],
                     time_window_us := (time_window_us c)[window_index c := elapsed]\<rparr>;
               c = c\<lparr>window_index := (window_index c + 1) mod ENCODER_WINDOW_SAMPLES\<rparr>;
               c = (if window_size c < ENCODER_WINDOW_SAMPLES then c\<lparr>window_size := window_size c + 1\<rparr> else c)
           in if encoder_is_stopped last_edge now then ((ESP_OK, Some 0), c)
              else ((ESP_OK, Some (calculate_rpm (sum_list (take (window_size c) (count_window c)))
                       (sum_list (take (window_size c) (time_window_us c))))), c))"

subsection \<open>Rounding\<close>

lemma c_div_round:
  assumes "0 < d" and "even d"
  shows "\<bar>(if 0 < n then c_div (n + d div 2) d else c_div (n - d div 2) d) * d - n\<bar> * 2 \<le> d"
proof -
  have m: "x div d * d \<le> x" "x < x div d * d + d" for x
    using div_mult_mod_eq [of x d] pos_mod_bound [OF assms(1), of x] pos_mod_sign [OF assms(1), of x]
    by linarith+
  have h: "d div 2 * 2 = d" using assms(2) by simp
  have half: "\<bar>r - n\<bar> * 2 \<le> d" if "r \<le> n + k" "n + k < r + d" "k * 2 = d" for r k :: int
    using that by (auto simp: abs_if)
  show ?thesis
  proof (cases "0 < n")
    case True
    then have "c_div (n + d div 2) d = (n + d div 2) div d" using assms h by (simp add: c_div_nonneg)
    moreover have "\<bar>(n + d div 2) div d * d - n\<bar> * 2 \<le> d" by (rule half [OF m h])
    ultimately show ?thesis using True by (simp only: if_True)
  next
    case False
    then have "n - d div 2 < 0" using assms h by linarith
    then have "c_div (n - d div 2) d = - ((d div 2 - n) div d)" using assms(1) by (simp add: c_div_neg)
    moreover have "\<bar>- ((d div 2 - n) div d) * d - n\<bar> * 2 \<le> d"
    proof -
      have "\<bar>r - n\<bar> * 2 \<le> d" if "- r \<le> k - n" "k - n < - r + d" "k * 2 = d" for r k :: int
        using that by (auto simp: abs_if)
      from this [of "- ((d div 2 - n) div d) * d" "d div 2"] m [of "d div 2 - n"] h
      show ?thesis by simp
    qed
    ultimately show ?thesis using False by (simp only: if_False)
  qed
qed

lemma c_div_half: "0 < d \<Longrightarrow> c_div d 2 = d div 2"
  by (simp add: c_div_nonneg)

lemma calculate_rpm_in_range: "in_i32 (calculate_rpm counts elapsed)"
  by (simp add: calculate_rpm_def in_i32_def Let_def)

text \<open>
  The conversion rounds to the nearest RPM: unless the value has to be clamped to the 32-bit
  range, \<open>counts\<close> quarter pulses in \<open>elapsed\<close> microseconds are reported with an error of at most
  half a revolution per minute, with the sign of the count, and no intermediate value leaves
  64 bits for any window the driver can build.
\<close>
lemma rpm_rounds_to_nearest:
  assumes "0 < elapsed" and "elapsed \<le> 2 ^ 40" and "\<bar>counts\<bar> < 2 ^ 34"
  shows "(\<bar>calculate_rpm counts elapsed * (ENCODER_COUNTS_PER_REVOLUTION * elapsed) - counts * 60000000\<bar> * 2
             \<le> ENCODER_COUNTS_PER_REVOLUTION * elapsed
           \<or> calculate_rpm counts elapsed \<in> {2 ^ 31 - 1, - (2 ^ 31)})
    \<and> (calculate_rpm counts elapsed \<noteq> 0 \<longrightarrow> sgn (calculate_rpm counts elapsed) = sgn counts)
    \<and> in_i64 (counts * 60000000 + ENCODER_COUNTS_PER_REVOLUTION * elapsed)
    \<and> in_i64 (counts * 60000000 - ENCODER_COUNTS_PER_REVOLUTION * elapsed)"
proof -
  let ?d = "128 * elapsed" and ?n = "counts * 60000000"
  let ?r = "if 0 < ?n then c_div (?n + ?d div 2) ?d else c_div (?n - ?d div 2) ?d"
  have d: "0 < ?d" "even ?d" using assms(1) by simp_all
  have near: "\<bar>?r * ?d - ?n\<bar> * 2 \<le> ?d" by (rule c_div_round [OF d])
  have rpm: "calculate_rpm counts elapsed = (if counts = 0 then 0 else if ?r > 2 ^ 31 - 1 then 2 ^ 31 - 1
        else if ?r < - (2 ^ 31) then - (2 ^ 31) else ?r)"
    using assms(1) by (simp add: calculate_rpm_def ENCODER_COUNTS_PER_REVOLUTION_def Let_def c_div_half)
  have "in_i64 (?n + ?d)" "in_i64 (?n - ?d)"
    using assms by (auto simp: in_i64_def abs_less_iff)
  moreover have "?r \<ge> 0" if "0 < counts"
    using that d by (simp add: c_div_nonneg pos_imp_zdiv_nonneg_iff)
  moreover have "?r \<le> 0" if "counts < 0"
    using that d by (simp add: c_div_neg pos_imp_zdiv_nonneg_iff)
  ultimately show ?thesis
    using near unfolding rpm ENCODER_COUNTS_PER_REVOLUTION_def
    by (cases counts "0 :: int" rule: linorder_cases) (auto simp: sgn_if)
qed

subsection \<open>Counting quadrature steps\<close>

text \<open>The level pairs of A and B at the positions of a turning bearing, in the direction counted up.\<close>

definition gray_state :: "int \<Rightarrow> u8" where
  "gray_state position = [0, 2, 3, 1] ! nat (position mod 4)"

text \<open>The transitions counted along a sequence of level pairs.\<close>

fun count_states :: "u8 \<Rightarrow> u8 list \<Rightarrow> int" where
  "count_states previous [] = 0"
| "count_states previous (state # states) = encoder_transition previous state + count_states state states"

lemma mod4_cases: "(p :: int) mod 4 = 0 \<or> p mod 4 = 1 \<or> p mod 4 = 2 \<or> p mod 4 = 3"
  by presburger

lemma gray_step:
  "encoder_transition (gray_state p) (gray_state (p + 1)) = 1"
  "encoder_transition (gray_state (p + 1)) (gray_state p) = - 1"
  "encoder_transition (gray_state p) (gray_state p) = 0"
  "encoder_transition (gray_state p) (gray_state (p + 2)) = 0"
  using mod4_cases [of p]
  by (auto simp: gray_state_def encoder_transition_def ENCODER_DIRECTION_SIGN_def transitions_def
      mod_add_left_eq [of p 4 1, symmetric] mod_add_left_eq [of p 4 2, symmetric])

fun is_walk :: "int \<Rightarrow> int list \<Rightarrow> bool" where
  "is_walk p [] = True"
| "is_walk p (q # qs) = (\<bar>q - p\<bar> \<le> 1 \<and> is_walk q qs)"

lemma count_walk:
  "is_walk p qs \<Longrightarrow> count_states (gray_state p) (map gray_state qs) = last (p # qs) - p"
proof (induction qs arbitrary: p)
  case (Cons q qs)
  then have "q = p \<or> q = p + 1 \<or> p = q + 1" by auto
  then have "encoder_transition (gray_state p) (gray_state q) = q - p"
    by (auto simp: gray_step)
  then show ?case using Cons by simp
qed simp

lemma isr_fold:
  "pending_count (fold (\<lambda>(s, t). encoder_isr s t) edges c)
     = pending_count c + count_states (last_state c) (map fst edges)"
  by (induction edges arbitrary: c) (auto simp: encoder_isr_def Let_def)

text \<open>
  The interrupt counts exactly.  While the bearing moves by at most one quarter pulse between
  two interrupts, forwards and backwards in any mixture, the pending count grows by the net
  displacement; a level pair two steps away, whose direction is unknown, counts nothing.
\<close>
lemma encoder_counts_displacement:
  assumes "is_walk p (map fst path)" and "last_state c = gray_state p"
  shows "pending_count (fold (\<lambda>(position, t). encoder_isr (gray_state position) t) path c)
           = pending_count c + (last (p # map fst path) - p)
       \<and> encoder_transition (gray_state p) (gray_state (p + 2)) = 0"
proof -
  have "fold (\<lambda>(position, t). encoder_isr (gray_state position) t) path c
      = fold (\<lambda>(s, t). encoder_isr s t) (map (\<lambda>(position, t). (gray_state position, t)) path) c"
    by (induction path arbitrary: c) auto
  moreover have "map fst (map (\<lambda>(position, t). (gray_state position, t)) path) = map gray_state (map fst path)"
    by auto
  ultimately show ?thesis
    using count_walk [OF assms(1)] by (simp only: isr_fold assms(2) gray_step simp_thms)
qed

subsection \<open>The reading is the mean speed over the last five periods\<close>

datatype enc_event = Edge u8 int | Read int

text \<open>The driver under any interleaving of interrupts and readings; the values it returns.\<close>

fun encoder_run :: "enc_event list \<Rightarrow> encoder \<Rightarrow> int option list" where
  "encoder_run [] c = []"
| "encoder_run (Edge s t # evs) c = encoder_run evs (encoder_isr s t c)"
| "encoder_run (Read t # evs) c = snd (fst (read_rpm t c)) # encoder_run evs (snd (read_rpm t c))"

text \<open>
  The specification has no window.  It keeps the net count since the start of the session, the
  last edge, and the time and count at the start and at each reading; the value of a reading is
  the rounded mean speed since the fifth-last one before it (or since the start), zero when no
  edge came for a tenth of a second.
\<close>

record odometer =
  od_count :: int
  od_edge :: int
  od_state :: u8
  od_points :: "(int \<times> int) list"

definition odometer_edge :: "u8 \<Rightarrow> int \<Rightarrow> odometer \<Rightarrow> odometer" where
  "odometer_edge s t o1 =
     (let tr = encoder_transition (od_state o1) s
      in o1\<lparr>od_count := od_count o1 + tr, od_edge := (if tr \<noteq> 0 then t else od_edge o1), od_state := s\<rparr>)"

definition odometer_read :: "int \<Rightarrow> odometer \<Rightarrow> int \<times> odometer" where
  "odometer_read t o1 =
     (if t \<le> fst (last (od_points o1)) then (0, o1)
      else
        let points = od_points o1 @ [(t, od_count o1)];
            (t0, count0) = points ! (length points - 1 - min 5 (length points - 1))
        in (if encoder_is_stopped (od_edge o1) t then 0 else calculate_rpm (od_count o1 - count0) (t - t0),
            o1\<lparr>od_points := points\<rparr>))"

fun odometer_run :: "enc_event list \<Rightarrow> odometer \<Rightarrow> int option list" where
  "odometer_run [] o1 = []"
| "odometer_run (Edge s t # evs) o1 = odometer_run evs (odometer_edge s t o1)"
| "odometer_run (Read t # evs) o1 = Some (fst (odometer_read t o1)) # odometer_run evs (snd (odometer_read t o1))"

text \<open>A window slot holds the difference of two neighbouring points.\<close>

definition slots :: "int list \<Rightarrow> int list \<Rightarrow> bool" where
  "slots w pts \<longleftrightarrow> length w = 5 \<and>
     (\<forall>k. k < length pts - 1 \<longrightarrow> length pts - 1 \<le> k + 5 \<longrightarrow> w ! (k mod 5) = pts ! (k + 1) - pts ! k)"

definition encoder_abs :: "encoder \<Rightarrow> odometer \<Rightarrow> bool" where
  "encoder_abs c o1 \<longleftrightarrow> od_points o1 \<noteq> [] \<and> last_read_us c = fst (last (od_points o1))
     \<and> pending_count c = od_count o1 - snd (last (od_points o1))
     \<and> last_valid_edge_us c = od_edge o1 \<and> last_state c = od_state o1
     \<and> slots (count_window c) (map snd (od_points o1)) \<and> slots (time_window_us c) (map fst (od_points o1))
     \<and> window_index c = (length (od_points o1) - 1) mod 5
     \<and> window_size c = min 5 (length (od_points o1) - 1)"

lemma slots_snoc:
  assumes "slots w pts" and "pts \<noteq> []"
  shows "slots (w[(length pts - 1) mod 5 := x - last pts]) (pts @ [x])"
  unfolding slots_def
proof (intro conjI allI impI)
  show "length (w[(length pts - 1) mod 5 := x - last pts]) = 5" using assms(1) by (simp add: slots_def)
  fix k assume k: "k < length (pts @ [x]) - 1" "length (pts @ [x]) - 1 \<le> k + 5"
  show "w[(length pts - 1) mod 5 := x - last pts] ! (k mod 5) = (pts @ [x]) ! (k + 1) - (pts @ [x]) ! k"
  proof (cases "k = length pts - 1")
    case True
    then show ?thesis using assms by (simp add: slots_def last_conv_nth nth_append)
  next
    case False
    then have k': "k < length pts - 1" "length pts - 1 < k + 5" using k by auto
    have "k mod 5 \<noteq> (length pts - 1) mod 5"
    proof
      assume "k mod 5 = (length pts - 1) mod 5"
      then have "5 dvd (length pts - 1 - k)" using k'(1) by (metis mod_eq_dvd_iff_nat less_imp_le)
      moreover have "0 < length pts - 1 - k" "length pts - 1 - k < 5" using k' by auto
      ultimately show False using nat_dvd_not_less by blast
    qed
    moreover have "k + 1 < length pts" "k < length pts" using k' by auto
    ultimately show ?thesis using assms(1) k' by (simp add: slots_def nth_append)
  qed
qed

lemma telescope:
  "n < length pts \<Longrightarrow> (\<Sum>k<n. pts ! (k + 1) - pts ! k) = pts ! n - (pts ! 0 :: int)"
  by (induction n) auto

lemma ring_sum:
  fixes w :: "int list"
  assumes "length w = 5"
  shows "sum_list w = w ! (m mod 5) + w ! ((m + 1) mod 5) + w ! ((m + 2) mod 5) + w ! ((m + 3) mod 5)
    + w ! ((m + 4) mod 5)"
proof -
  have w: "sum_list w = w ! 0 + w ! 1 + w ! 2 + w ! 3 + w ! 4"
    using assms by (simp add: sum_list_sum_nth numeral_eq_Suc)
  have step: "(m + k) mod 5 = (m mod 5 + k) mod 5" for k by (simp add: mod_add_left_eq)
  have "m mod 5 < 5" by simp
  then consider "m mod 5 = 0" | "m mod 5 = 1" | "m mod 5 = 2" | "m mod 5 = 3" | "m mod 5 = 4" by linarith
  then show ?thesis
    unfolding w by cases (simp_all only: step, simp_all add: numeral_2_eq_2)
qed

text \<open>The sum over the filled slots telescopes.\<close>

lemma slots_sum:
  assumes "slots w pts" and "pts \<noteq> []" and "n = length pts - 1"
  shows "sum_list (take (min 5 n) w) = pts ! n - pts ! (n - min 5 n)"
proof (cases "n < 5")
  case True
  have "sum_list (take n w) = (\<Sum>k<n. w ! k)"
    using assms(1) True by (simp add: slots_def sum_list_sum_nth atLeast0LessThan)
  also have "\<dots> = (\<Sum>k<n. pts ! (k + 1) - pts ! k)"
    using assms(1,3) True by (intro sum.cong) (auto simp: slots_def)
  also have "\<dots> = pts ! n - pts ! 0" using assms(2,3) by (intro telescope) (cases pts, auto)
  finally show ?thesis using True by simp
next
  case False
  define m where "m = n - 5"
  have n: "n = m + 5" using False by (simp add: m_def)
  have len: "length w = 5" using assms(1) by (simp add: slots_def)
  have at: "w ! ((m + j) mod 5) = pts ! (m + j + 1) - pts ! (m + j)" if "j < 5" for j
    using assms(1,3) n that by (auto simp: slots_def)
  have a: "m + 2 + 1 = m + 3" "m + 3 + 1 = m + 4" "m + 4 + 1 = m + 5" by simp_all
  have d: "w ! (m mod 5) = pts ! (m + 1) - pts ! m" using at [of 0] by simp
  have d1: "w ! ((m + 1) mod 5) = pts ! (m + 2) - pts ! (m + 1)"
    using at [of 1] by (simp only: add.assoc one_add_one)
  have d2: "w ! ((m + 2) mod 5) = pts ! (m + 3) - pts ! (m + 2)"
    using at [of 2] unfolding a by (simp only: rel_simps simp_thms)
  have d3: "w ! ((m + 3) mod 5) = pts ! (m + 4) - pts ! (m + 3)"
    using at [of 3] unfolding a by (simp only: rel_simps simp_thms)
  have d4: "w ! ((m + 4) mod 5) = pts ! (m + 5) - pts ! (m + 4)"
    using at [of 4] unfolding a by (simp only: rel_simps simp_thms)
  have "sum_list w = pts ! (m + 5) - pts ! m"
    unfolding ring_sum [OF len, of m] d d1 d2 d3 d4 by (simp only: algebra_simps)
  then show ?thesis using n len by simp
qed

lemma encoder_abs_edge:
  assumes "encoder_abs c o1"
  shows "encoder_abs (encoder_isr s t c) (odometer_edge s t o1)"
  using assms by (auto simp: encoder_abs_def encoder_isr_def odometer_edge_def Let_def)

lemma encoder_abs_read:
  assumes abs: "encoder_abs c o1" and late: "fst (last (od_points o1)) < t"
  shows "encoder_abs (snd (read_rpm t c)) (snd (odometer_read t o1))
    \<and> snd (fst (read_rpm t c)) = Some (fst (odometer_read t o1))"
proof -
  let ?pts = "od_points o1 @ [(t, od_count o1)]"
  let ?n = "length ?pts - 1"
  have ne: "od_points o1 \<noteq> []" using abs by (simp add: encoder_abs_def)
  let ?cw = "(count_window c)[window_index c := pending_count c]"
  let ?tw = "(time_window_us c)[window_index c := t - last_read_us c]"
  have sc: "slots ?cw (map snd ?pts)" and st: "slots ?tw (map fst ?pts)"
    using slots_snoc [of "count_window c" "map snd (od_points o1)" "od_count o1"]
      slots_snoc [of "time_window_us c" "map fst (od_points o1)" t] abs ne
    by (simp_all add: encoder_abs_def last_map)
  have size: "(if window_size c < 5 then window_size c + 1 else window_size c) = min 5 ?n"
    using abs ne by (cases "od_points o1") (auto simp: encoder_abs_def)
  have index: "(window_index c + 1) mod 5 = ?n mod 5"
  proof -
    have "length (od_points o1) - 1 + 1 = ?n" using ne by (cases "od_points o1") auto
    then show ?thesis using abs by (simp add: encoder_abs_def mod_Suc_eq)
  qed
  have sums: "sum_list (take (min 5 ?n) ?cw) = od_count o1 - snd (?pts ! (?n - min 5 ?n))"
      "sum_list (take (min 5 ?n) ?tw) = t - fst (?pts ! (?n - min 5 ?n))"
    using slots_sum [OF sc] slots_sum [OF st] ne by (simp_all add: nth_append)
  have read: "read_rpm t c = ((ESP_OK, Some (if encoder_is_stopped (last_valid_edge_us c) t then 0
        else calculate_rpm (sum_list (take (min 5 ?n) ?cw)) (sum_list (take (min 5 ?n) ?tw)))),
      c\<lparr>last_read_us := t, pending_count := 0, count_window := ?cw, time_window_us := ?tw,
        window_index := ?n mod 5, window_size := min 5 ?n\<rparr>)"
  proof -
    have e: "\<not> t - last_read_us c \<le> 0" using late abs by (simp add: encoder_abs_def)
    show ?thesis
    proof (cases "window_size c < 5")
      case True
      then have "window_size c + 1 = min 5 ?n" using size by simp
      then show ?thesis
        using True index by (simp only: read_rpm_def e if_False Let_def ENCODER_WINDOW_SAMPLES_def) simp
    next
      case False
      then have "window_size c = min 5 ?n" using size by simp
      then show ?thesis
        using False index by (simp only: read_rpm_def e if_False Let_def ENCODER_WINDOW_SAMPLES_def) simp
    qed
  qed
  have odo: "odometer_read t o1 = ((if encoder_is_stopped (od_edge o1) t then 0
        else calculate_rpm (od_count o1 - snd (?pts ! (?n - min 5 ?n))) (t - fst (?pts ! (?n - min 5 ?n)))),
      o1\<lparr>od_points := ?pts\<rparr>)"
    using late by (simp add: odometer_read_def case_prod_unfold Let_def)
  show ?thesis
    unfolding read odo sums using abs sc st by (simp add: encoder_abs_def)
qed

text \<open>Readings that are not later than the previous one return zero and change nothing.\<close>

lemma encoder_abs_read_early:
  assumes "encoder_abs c o1" and "\<not> fst (last (od_points o1)) < t"
  shows "read_rpm t c = ((ESP_OK, Some 0), c)" and "odometer_read t o1 = (0, o1)"
  using assms by (simp_all add: encoder_abs_def read_rpm_def odometer_read_def)

text \<open>
  C19: the sliding window of counts and times refines the odometer.  From the start of a session,
  under any interleaving of interrupts and readings, every reading returns the rounded mean speed
  since the fifth-last reading before it (or since the start), and zero when no edge came within
  the last tenth of a second; what was counted before the start has no influence.
\<close>
theorem encoder_refines_odometer:
  assumes "length (count_window c) = 5" and "length (time_window_us c) = 5"
  shows "encoder_run evs (start_encoder t0 c) = odometer_run evs
           \<lparr>od_count = 0, od_edge = 0, od_state = last_state c, od_points = [(t0, 0)]\<rparr>"
proof -
  have run: "encoder_run evs c = odometer_run evs o1" if "encoder_abs c o1" for c o1
    using that
  proof (induction evs c arbitrary: o1 rule: encoder_run.induct)
    case (2 s t evs c)
    then show ?case by (simp add: encoder_abs_edge)
  next
    case (3 t evs c)
    then show ?case
      using encoder_abs_read [of c o1 t] encoder_abs_read_early [of c o1 t]
      by (cases "fst (last (od_points o1)) < t") simp_all
  qed simp
  have "encoder_abs (start_encoder t0 c)
      \<lparr>od_count = 0, od_edge = 0, od_state = last_state c, od_points = [(t0, 0)]\<rparr>"
    using assms by (simp add: encoder_abs_def start_encoder_def slots_def Let_def)
  then show ?thesis by (rule run)
qed

theorem encoder_refines_odometer_witness:
  "encoder_run [Edge 2 1000, Edge 3 2000, Read 20000, Edge 1 30000, Read 40000] (start_encoder 0 encoder_boot)
     = [Some 47, Some 35]"
proof -
  have "length (count_window encoder_boot) = 5" "length (time_window_us encoder_boot) = 5"
    by (simp_all add: encoder_boot_def ENCODER_WINDOW_SAMPLES_def)
  note r = encoder_refines_odometer [OF this]
  show ?thesis
    unfolding r by (simp add: odometer_edge_def odometer_read_def encoder_boot_def encoder_transition_def
        ENCODER_DIRECTION_SIGN_def transitions_def encoder_is_stopped_def ENCODER_STOP_TIMEOUT_US_def
        calculate_rpm_def ENCODER_COUNTS_PER_REVOLUTION_def c_div_def Let_def)
qed

end
