(* ===== verification/Engine_Rpm.thy ===== *)
theory Engine_Rpm
  imports Sampler "HOL-Library.Sublist"
begin

text \<open>
  The spark input of \<open>sensors/engine_rpm.c\<close>: the interrupt that captures spark intervals into a
  queue, and \<open>engine_rpm_next_event\<close>, which turns captures into spark and RPM events and reports
  zero while the engine stands.  Times are microseconds of the local timer.
\<close>

definition MIN_SPARK_INTERVAL_US :: int where "MIN_SPARK_INTERVAL_US = 60000000 * 1 div 6000"
definition MAX_SPARK_INTERVAL_US :: int where "MAX_SPARK_INTERVAL_US = 60000000 * 1 div 1000"
definition ENGINE_STOP_TIMEOUT_US :: int where "ENGINE_STOP_TIMEOUT_US = 100000"
definition ENGINE_QUEUE_LENGTH :: nat where "ENGINE_QUEUE_LENGTH = 256"

record spark_capture =
  cap_timestamp_us :: int
  cap_elapsed_us :: int
  cap_valid :: bool

record 'q engine =
  last_spark_us :: int
  last_zero_us :: int
  dropped :: u32
  events :: 'q

definition capture_at :: "int \<Rightarrow> int \<Rightarrow> spark_capture" where
  "capture_at prev now =
     (let elapsed = now - prev
      in \<lparr>cap_timestamp_us = now, cap_elapsed_us = elapsed,
          cap_valid = (prev \<noteq> 0 \<and> elapsed \<ge> MIN_SPARK_INTERVAL_US \<and> elapsed \<le> MAX_SPARK_INTERVAL_US)\<rparr>)"

definition engine_rpm_isr ::
  "('q, spark_capture) queue_api \<Rightarrow> int \<Rightarrow> 'q engine \<Rightarrow> 'q engine" where
  "engine_rpm_isr Q now c =
     (let capture = capture_at (last_spark_us c) now;
          c = c\<lparr>last_spark_us := now\<rparr>
      in case xQueueSend Q (events c) capture of
           None \<Rightarrow> c\<lparr>dropped := dropped c + 1\<rparr>
         | Some q \<Rightarrow> c\<lparr>events := q\<rparr>)"

definition engine_rpm_discard_pending ::
  "('q, spark_capture) queue_api \<Rightarrow> int \<Rightarrow> 'q engine \<Rightarrow> 'q engine" where
  "engine_rpm_discard_pending Q now c =
     c\<lparr>events := xQueueReset Q (events c), last_spark_us := 0, last_zero_us := now, dropped := 0\<rparr>"

definition start_engine_rpm ::
  "('q, spark_capture) queue_api \<Rightarrow> int \<Rightarrow> 'q engine \<Rightarrow> 'q engine" where
  "start_engine_rpm = engine_rpm_discard_pending"

text \<open>\<open>now\<close> is the time after the queue was found empty for a tick.\<close>

definition engine_rpm_next_event ::
  "('q, spark_capture) queue_api \<Rightarrow> int \<Rightarrow> 'q engine \<Rightarrow> engine_event option \<times> 'q engine" where
  "engine_rpm_next_event Q now c =
     (case xQueueReceive Q (events c) of
        None \<Rightarrow>
          (let stopped = (now - last_spark_us c \<ge> ENGINE_STOP_TIMEOUT_US
                          \<and> now - last_zero_us c \<ge> ENGINE_STOP_TIMEOUT_US);
               c = (if stopped then c\<lparr>last_zero_us := now\<rparr> else c)
           in if \<not> stopped then (None, c)
              else (Some \<lparr>ev_timestamp_us = now, ev_engine_rpm = 0, ev_spark = False\<rparr>, c))
      | Some (capture, q) \<Rightarrow>
          (Some \<lparr>ev_timestamp_us = cap_timestamp_us capture,
                 ev_engine_rpm = (if cap_valid capture then c_div (60000000 * 1) (cap_elapsed_us capture) else 0),
                 ev_spark = True\<rparr>, c\<lparr>events := q\<rparr>))"

definition engine_rpm_dropped_events :: "'q engine \<Rightarrow> u32 \<times> 'q engine" where
  "engine_rpm_dropped_events c = (dropped c, c\<lparr>dropped := 0\<rparr>)"

record engine_init_env =
  events_created :: bool
  reset_pin_result :: esp_err
  pin_config_result :: esp_err
  engine_isr_service_result :: esp_err
  engine_handler_result :: esp_err
  intr_enable_result :: esp_err

definition init_engine_rpm :: "engine_init_env \<Rightarrow> esp_err" where
  "init_engine_rpm env =
     (if \<not> events_created env then ESP_ERR_NO_MEM
      else if reset_pin_result env \<noteq> ESP_OK then reset_pin_result env
      else if pin_config_result env \<noteq> ESP_OK then pin_config_result env
      else if engine_isr_service_result env \<noteq> ESP_OK
           \<and> engine_isr_service_result env \<noteq> ESP_ERR_INVALID_STATE
      then engine_isr_service_result env
      else if engine_handler_result env \<noteq> ESP_OK then engine_handler_result env
      else intr_enable_result env)"

lemma spark_intervals: "MIN_SPARK_INTERVAL_US = 10000" "MAX_SPARK_INTERVAL_US = 60000"
  by (simp_all add: MIN_SPARK_INTERVAL_US_def MAX_SPARK_INTERVAL_US_def)

subsection \<open>Every spark is reported or counted\<close>

datatype engine_input = Spark int | Next_Event int

text \<open>The engine under any interleaving of sparks and calls of \<open>engine_rpm_next_event\<close>.\<close>

fun engine_step ::
  "('q, spark_capture) queue_api \<Rightarrow> engine_input \<Rightarrow> engine_event list \<times> 'q engine \<Rightarrow>
   engine_event list \<times> 'q engine" where
  "engine_step Q (Spark t) (out, c) = (out, engine_rpm_isr Q t c)"
| "engine_step Q (Next_Event t) (out, c) =
     (case engine_rpm_next_event Q t c of
        (None, c) \<Rightarrow> (out, c)
      | (Some e, c) \<Rightarrow> (out @ [e], c))"

definition engine_run ::
  "('q, spark_capture) queue_api \<Rightarrow> engine_input list \<Rightarrow> 'q engine \<Rightarrow> engine_event list \<times> 'q engine" where
  "engine_run Q steps c = fold (engine_step Q) steps ([], c)"

text \<open>The specification: the events of the sparks, from their intervals alone.\<close>

definition spark_event :: "spark_capture \<Rightarrow> engine_event" where
  "spark_event capture = \<lparr>ev_timestamp_us = cap_timestamp_us capture,
     ev_engine_rpm = (if cap_valid capture then 60000000 div cap_elapsed_us capture else 0), ev_spark = True\<rparr>"

fun captures :: "int \<Rightarrow> engine_input list \<Rightarrow> spark_capture list" where
  "captures prev [] = []"
| "captures prev (Spark t # steps) = capture_at prev t # captures t steps"
| "captures prev (Next_Event t # steps) = captures prev steps"

fun last_spark :: "int \<Rightarrow> engine_input list \<Rightarrow> int" where
  "last_spark prev [] = prev"
| "last_spark prev (Spark t # steps) = last_spark t steps"
| "last_spark prev (Next_Event t # steps) = last_spark prev steps"

lemma captures_snoc: "captures l (steps @ [s]) = captures l steps @ captures (last_spark l steps) [s]"
  by (induction l steps rule: captures.induct) simp_all

lemma last_spark_snoc: "last_spark l (steps @ [s]) = last_spark (last_spark l steps) [s]"
  by (induction l steps rule: last_spark.induct) simp_all

lemma valid_interval: "cap_valid (capture_at l t) \<Longrightarrow>
    10000 \<le> cap_elapsed_us (capture_at l t) \<and> cap_elapsed_us (capture_at l t) \<le> 60000"
  by (simp add: capture_at_def Let_def spark_intervals)

definition captured :: "spark_capture \<Rightarrow> bool" where
  "captured capture \<longleftrightarrow> (\<exists>l t. capture = capture_at l t)"

lemma captured_captures: "x \<in> set (captures l steps) \<Longrightarrow> captured x"
  by (induction l steps rule: captures.induct) (auto simp: captured_def)

lemma next_event_spark:
  assumes "xQueueReceive Q (events c) = Some (capture, q)" and "captured capture"
  shows "engine_rpm_next_event Q t c = (Some (spark_event capture), c\<lparr>events := q\<rparr>)"
proof -
  have "c_div 60000000 (cap_elapsed_us capture) = 60000000 div cap_elapsed_us capture" if "cap_valid capture"
    using assms(2) that valid_interval by (fastforce simp: captured_def intro: c_div_nonneg)
  then show ?thesis using assms(1) by (simp add: engine_rpm_next_event_def spark_event_def)
qed

lemma rpm_in_range:
  assumes "captured capture"
  shows "ev_engine_rpm (spark_event capture) = 0
    \<or> 1000 \<le> ev_engine_rpm (spark_event capture) \<and> ev_engine_rpm (spark_event capture) \<le> 6000"
proof (cases "cap_valid capture")
  case True
  then have e: "10000 \<le> cap_elapsed_us capture" "cap_elapsed_us capture \<le> 60000"
    using assms valid_interval by (auto simp: captured_def)
  have "60000000 div 60000 \<le> 60000000 div cap_elapsed_us capture"
    using e by (intro zdiv_mono2) auto
  moreover have "60000000 div cap_elapsed_us capture \<le> 60000000 div 10000"
    using e by (intro zdiv_mono2) auto
  ultimately show ?thesis using True by (simp add: spark_event_def)
qed (simp add: spark_event_def)

lemma standing_engine:
  assumes "rtos_queue Q cap items" and "items (events c) = []"
  shows "engine_rpm_next_event Q t c =
    (if t - last_spark_us c \<ge> ENGINE_STOP_TIMEOUT_US \<and> t - last_zero_us c \<ge> ENGINE_STOP_TIMEOUT_US
     then (Some \<lparr>ev_timestamp_us = t, ev_engine_rpm = 0, ev_spark = False\<rparr>, c\<lparr>last_zero_us := t\<rparr>)
     else (None, c))"
  using rtos_queue.receive_empty [OF assms] by (simp add: engine_rpm_next_event_def Let_def)

definition spark_events :: "engine_event list \<Rightarrow> engine_event list" where
  "spark_events = filter ev_spark"

text \<open>What one step does to the sparks reported or waiting.\<close>

lemma engine_step_log:
  assumes Q: "rtos_queue Q cap items" and "\<forall>x\<in>set (items (events c)). captured x"
    and "engine_step Q s (out, c) = (out', c')"
  shows "last_spark_us c' = last_spark (last_spark_us c) [s] \<and>
    (spark_events out' @ map spark_event (items (events c')) =
       spark_events out @ map spark_event (items (events c)) @ map spark_event (captures (last_spark_us c) [s])
      \<and> dropped c' = dropped c
      \<and> items (events c') = (case s of Spark t \<Rightarrow> items (events c) @ captures (last_spark_us c) [s]
                              | Next_Event t \<Rightarrow> drop 1 (items (events c)))
     \<or> (\<exists>x. captures (last_spark_us c) [s] = [x]) \<and> length (items (events c)) = cap \<and> out' = out
       \<and> events c' = events c \<and> dropped c' = dropped c + 1)"
proof (cases s)
  case (Spark t)
  let ?x = "capture_at (last_spark_us c) t"
  show ?thesis
  proof (cases rule: rtos_queue.send_cases [OF Q, of "events c" ?x, case_names sent full])
    case (sent q')
    then have "out' = out" "c' = c\<lparr>last_spark_us := t, events := q'\<rparr>"
      using assms(3) by (simp_all add: Spark engine_rpm_isr_def Let_def)
    then show ?thesis using sent by (simp add: Spark)
  next
    case full
    then have "out' = out" "c' = c\<lparr>last_spark_us := t, dropped := dropped c + 1\<rparr>"
      using assms(3) by (simp_all add: Spark engine_rpm_isr_def Let_def)
    then show ?thesis using full by (simp add: Spark)
  qed
next
  case (Next_Event t)
  show ?thesis
  proof (cases rule: rtos_queue.receive_cases [OF Q, of "events c", case_names got none])
    case (got x q')
    then have "captured x" using assms(2) by simp
    from next_event_spark [OF got(1) this] have "out' = out @ [spark_event x]" "c' = c\<lparr>events := q'\<rparr>"
      using assms(3) by (simp_all add: Next_Event)
    then show ?thesis using got by (simp add: Next_Event spark_events_def spark_event_def)
  next
    case none
    then show ?thesis
      using assms(3) standing_engine [OF Q none(2), of t]
      by (auto simp: Next_Event spark_events_def split: if_splits)
  qed
qed

lemma engine_run_snoc: "engine_run Q (steps @ [s]) c = engine_step Q s (engine_run Q steps c)"
  by (simp add: engine_run_def)

lemma engine_run_accounts:
  assumes Q: "rtos_queue Q cap items" and "items (events c) = []" and "last_spark_us c = 0" and "dropped c = 0"
    and "engine_run Q steps c = (out, c')"
  shows "subseq (spark_events out @ map spark_event (items (events c'))) (map spark_event (captures 0 steps))
    \<and> dropped c' = word_of_nat (length (captures 0 steps) - (length (spark_events out) + length (items (events c'))))
    \<and> last_spark_us c' = last_spark 0 steps \<and> (\<forall>x\<in>set (items (events c')). captured x)"
  using assms(5)
proof (induction steps arbitrary: out c' rule: rev_induct)
  case Nil
  then show ?case using assms(2-4) by (simp add: engine_run_def spark_events_def)
next
  case (snoc s steps)
  obtain out1 c1 where r: "engine_run Q steps c = (out1, c1)" by fastforce
  note IH = snoc.IH [OF r]
  have st: "engine_step Q s (out1, c1) = (out, c')" using snoc.prems r by (simp add: engine_run_snoc)
  let ?k1 = "spark_events out1 @ map spark_event (items (events c1))"
  let ?k = "spark_events out @ map spark_event (items (events c'))"
  let ?all = "map spark_event (captures 0 steps)"
  let ?new = "map spark_event (captures (last_spark 0 steps) [s])"
  have all: "map spark_event (captures 0 (steps @ [s])) = ?all @ ?new"
    by (simp add: captures_snoc [of 0 steps])
  have le: "length ?k1 \<le> length ?all" using IH list_emb_length by blast
  have last: "last_spark_us c1 = last_spark 0 steps" using IH by blast
  have "\<forall>x\<in>set (items (events c1)). captured x" using IH by blast
  from engine_step_log [OF Q this st, unfolded last]
  have last': "last_spark_us c' = last_spark 0 (steps @ [s])"
    and disj: "(?k = ?k1 @ ?new \<and> dropped c' = dropped c1
        \<and> items (events c') = (case s of Spark t \<Rightarrow> items (events c1) @ captures (last_spark 0 steps) [s]
                              | Next_Event t \<Rightarrow> drop 1 (items (events c1))))
      \<or> ((\<exists>x. captures (last_spark 0 steps) [s] = [x]) \<and> out = out1 \<and> events c' = events c1
        \<and> dropped c' = dropped c1 + 1)"
    unfolding last_spark_snoc [of 0 steps] append_assoc by blast+
  from disj have cap: "\<forall>x\<in>set (items (events c')). captured x"
    using IH captured_captures [of _ "last_spark 0 steps" "[s]"]
    by (auto split: engine_input.splits dest: in_set_dropD)
  have "subseq ?k (?all @ ?new) \<and> dropped c' = word_of_nat (length (?all @ ?new) - length ?k)"
    using disj
  proof
    assume k: "?k = ?k1 @ ?new \<and> dropped c' = dropped c1
        \<and> items (events c') = (case s of Spark t \<Rightarrow> items (events c1) @ captures (last_spark 0 steps) [s]
                              | Next_Event t \<Rightarrow> drop 1 (items (events c1)))"
    then have k': "?k = ?k1 @ ?new" and "dropped c' = dropped c1" by blast+
    have "dropped c1 = word_of_nat (length ?all - length ?k1)" using IH by simp
    moreover have "subseq (?k1 @ ?new) (?all @ ?new)"
      using IH by (intro list_emb_append_mono) auto
    moreover have "length (?all @ ?new) - length (?k1 @ ?new) = length ?all - length ?k1" by simp
    ultimately show ?thesis unfolding k' \<open>dropped c' = dropped c1\<close> by (simp only: simp_thms)
  next
    assume k: "(\<exists>x. captures (last_spark 0 steps) [s] = [x]) \<and> out = out1 \<and> events c' = events c1
        \<and> dropped c' = dropped c1 + 1"
    then obtain x where x: "?new = [spark_event x]" by auto
    have "subseq ?k1 (?all @ ?new)" using IH by (intro list_emb_prefix) auto
    moreover have "length (?all @ ?new) - length ?k1 = Suc (length ?all - length ?k1)" using le x by simp
    moreover have "dropped c1 = word_of_nat (length ?all - length ?k1)" using IH by simp
    ultimately show ?thesis using k by simp
  qed
  then show ?case using last' cap by (simp add: captures_snoc [of 0 steps])
qed

lemma next_event_rpm:
  "fst (engine_rpm_next_event Q t c) = Some e \<Longrightarrow> ev_engine_rpm e \<noteq> 0 \<Longrightarrow> ev_spark e"
  by (auto simp: engine_rpm_next_event_def Let_def split: option.splits if_splits)

lemma engine_run_zero:
  "\<forall>e\<in>set (fst (engine_run Q steps c)). ev_engine_rpm e \<noteq> 0 \<longrightarrow> ev_spark e"
proof (induction steps rule: rev_induct)
  case Nil
  then show ?case by (simp add: engine_run_def)
next
  case (snoc s steps)
  obtain out1 c1 where r: "engine_run Q steps c = (out1, c1)" by fastforce
  show ?case
  proof (cases s)
    case (Spark t)
    then show ?thesis using snoc by (simp add: engine_run_snoc r)
  next
    case (Next_Event t)
    obtain e c2 where n: "engine_rpm_next_event Q t c1 = (e, c2)" by fastforce
    then have "\<forall>x. e = Some x \<longrightarrow> ev_engine_rpm x \<noteq> 0 \<longrightarrow> ev_spark x"
      using next_event_rpm [of Q t c1] by simp
    then show ?thesis using snoc n by (cases e) (simp_all add: engine_run_snoc r Next_Event)
  qed
qed

text \<open>
  C20: no spark is lost silently.  From the start of a session, under any interleaving of spark
  interrupts and calls of the sampling task: the reported sparks, then those still queued, are
  the captured ones in order less those dropped, whose number the drop counter holds (modulo
  \<open>2 ^ 32\<close>); every reported speed is zero or between 1000 and 6000 RPM; and a report without a
  spark says zero.
\<close>
theorem sparks_reported_or_counted:
  assumes Q: "rtos_queue Q ENGINE_QUEUE_LENGTH items"
    and run: "engine_run Q steps (engine_rpm_discard_pending Q t0 c) = (out, c')"
  shows "subseq (spark_events out @ map spark_event (items (events c'))) (map spark_event (captures 0 steps))
    \<and> fst (engine_rpm_dropped_events c') =
        word_of_nat (length (captures 0 steps) - (length (spark_events out) + length (items (events c'))))
    \<and> (\<forall>e\<in>set out. ev_engine_rpm e = 0 \<or> ev_spark e \<and> 1000 \<le> ev_engine_rpm e \<and> ev_engine_rpm e \<le> 6000)"
proof -
  let ?c = "engine_rpm_discard_pending Q t0 c"
  have c: "items (events ?c) = []" "last_spark_us ?c = 0" "dropped ?c = 0"
    using rtos_queue.reset [OF Q] by (simp_all add: engine_rpm_discard_pending_def)
  note accounts = engine_run_accounts [OF Q c run]
  have zero: "\<forall>e\<in>set out. ev_engine_rpm e \<noteq> 0 \<longrightarrow> ev_spark e"
    using engine_run_zero [of Q steps ?c] run by simp
  have rpm: "ev_engine_rpm e = 0 \<or> 1000 \<le> ev_engine_rpm e \<and> ev_engine_rpm e \<le> 6000"
    if "e \<in> set (spark_events out)" for e
  proof -
    have "e \<in> set (spark_events out @ map spark_event (items (events c')))" using that by simp
    from list_emb_set [OF conjunct1 [OF accounts] this]
    obtain x where "e = spark_event x" "x \<in> set (captures 0 steps)" by auto
    then show ?thesis using rpm_in_range [of x] captured_captures by blast
  qed
  have "ev_engine_rpm e = 0 \<or> ev_spark e \<and> 1000 \<le> ev_engine_rpm e \<and> ev_engine_rpm e \<le> 6000"
    if "e \<in> set out" for e
    using that zero rpm [of e] by (cases "ev_engine_rpm e = 0") (simp_all add: spark_events_def)
  then show ?thesis using accounts by (simp add: engine_rpm_dropped_events_def)
qed

theorem sparks_reported_or_counted_witness:
  "\<exists>out c'. engine_run (list_queue ENGINE_QUEUE_LENGTH) [Spark 1000, Spark 21000, Next_Event 21500]
       (engine_rpm_discard_pending (list_queue ENGINE_QUEUE_LENGTH) 500
          \<lparr>last_spark_us = 7, last_zero_us = 0, dropped = 3, events = []\<rparr>) = (out, c')
     \<and> (\<forall>e\<in>set out. ev_engine_rpm e = 0 \<or> ev_spark e \<and> 1000 \<le> ev_engine_rpm e \<and> ev_engine_rpm e \<le> 6000)"
proof -
  obtain out c' where r: "engine_run (list_queue ENGINE_QUEUE_LENGTH) [Spark 1000, Spark 21000, Next_Event 21500]
       (engine_rpm_discard_pending (list_queue ENGINE_QUEUE_LENGTH) 500
          \<lparr>last_spark_us = 7, last_zero_us = 0, dropped = 3, events = []\<rparr>) = (out, c')" by fastforce
  from sparks_reported_or_counted [OF listq.rtos_queue_axioms r] show ?thesis
    using r by blast
qed

end
