(* ===== verification/Mpu6500.thy ===== *)
theory Mpu6500
  imports Sampler
begin

text \<open>
  The inertial sensor of \<open>sensors/mpu6500.c\<close>: six descriptors share one device.  The first one
  reads a burst of fourteen bytes into a snapshot, the others publish from it.  Results of the
  I2C driver and the bytes it delivers are arguments.
\<close>

datatype mpu_channel = MPU_ACCEL_X | MPU_ACCEL_Y | MPU_ACCEL_Z | MPU_GYRO_X | MPU_GYRO_Y | MPU_GYRO_Z

definition MPU_CHANNEL_COUNT :: nat where "MPU_CHANNEL_COUNT = 6"

primrec channel_index :: "mpu_channel \<Rightarrow> nat" where
  "channel_index MPU_ACCEL_X = 0"
| "channel_index MPU_ACCEL_Y = 1"
| "channel_index MPU_ACCEL_Z = 2"
| "channel_index MPU_GYRO_X = 3"
| "channel_index MPU_GYRO_Y = 4"
| "channel_index MPU_GYRO_Z = 5"

record mpu_device =
  mpu_values :: "int list"
  mpu_address :: u8
  initialized :: bool
  sample_status :: esp_err

definition mpu_boot :: mpu_device where
  "mpu_boot = \<lparr>mpu_values = replicate MPU_CHANNEL_COUNT 0, mpu_address = 0, initialized = False,
     sample_status = ESP_OK\<rparr>"

definition signed_be16 :: "u8 list \<Rightarrow> nat \<Rightarrow> int" where
  "signed_be16 bytes i = sint (push_bit 8 (ucast (bytes ! i)) OR ucast (bytes ! (i + 1)) :: u16)"

subsection \<open>Initialisation\<close>

text \<open>Register writes of the configuration sequence, after the reset and its delay.\<close>

definition mpu_config_writes :: "(u8 \<times> u8) list" where
  "mpu_config_writes = [(0x6B, 0x01), (0x1A, 0x03), (0x19, 0x09), (0x1B, 0x18), (0x1C, 0x10), (0x1D, 0x03)]"

record mpu_init_env =
  bus_result :: esp_err
  probe_result :: "u8 \<Rightarrow> esp_err"
  add_device_result :: esp_err
  write_result :: "u8 \<times> u8 \<Rightarrow> esp_err"
  who_am_i_result :: esp_err
  identity :: u8

fun write_registers :: "((u8 \<times> u8) \<Rightarrow> esp_err) \<Rightarrow> (u8 \<times> u8) list \<Rightarrow> esp_err" where
  "write_registers result [] = ESP_OK"
| "write_registers result (w # ws) = (if result w \<noteq> ESP_OK then result w else write_registers result ws)"

definition init_mpu :: "mpu_init_env \<Rightarrow> mpu_device \<Rightarrow> esp_err \<times> mpu_device" where
  "init_mpu env m =
     (if bus_result env \<noteq> ESP_OK then (bus_result env, m)
      else if probe_result env 0x68 \<noteq> ESP_OK \<and> probe_result env 0x69 \<noteq> ESP_OK then (ESP_ERR_NOT_FOUND, m)
      else
        let m = m\<lparr>mpu_address := (if probe_result env 0x68 = ESP_OK then 0x68 else 0x69)\<rparr>
        in if add_device_result env \<noteq> ESP_OK then (add_device_result env, m)
           else if write_result env (0x6B, 0x80) \<noteq> ESP_OK then (write_result env (0x6B, 0x80), m)
           else
             let error = write_registers (write_result env) mpu_config_writes
             in if error \<noteq> ESP_OK then (error, m)
                else if who_am_i_result env \<noteq> ESP_OK then (who_am_i_result env, m)
                else if identity env \<noteq> 0x70 \<and> identity env \<noteq> 0x71 then (ESP_ERR_NOT_FOUND, m)
                else (ESP_OK, m\<lparr>initialized := True\<rparr>))"

lemma init_mpu_ok: "fst (init_mpu env m) = ESP_OK \<Longrightarrow> initialized (snd (init_mpu env m))"
  by (auto simp: init_mpu_def Let_def split: if_splits)

definition start_mpu :: "mpu_device \<Rightarrow> mpu_device" where
  "start_mpu m = m\<lparr>sample_status := ESP_ERR_INVALID_STATE, mpu_values := map (\<lambda>_. 0) (mpu_values m)\<rparr>"

subsection \<open>Reading\<close>

text \<open>The snapshot from the bytes of a successful burst.\<close>

definition snapshot :: "u8 list \<Rightarrow> int list" where
  "snapshot bytes =
     [c_div (signed_be16 bytes 0 * 1000) 4096, c_div (signed_be16 bytes 2 * 1000) 4096,
      c_div (signed_be16 bytes 4 * 1000) 4096, c_div (signed_be16 bytes 8 * 10000) 164,
      c_div (signed_be16 bytes 10 * 10000) 164, c_div (signed_be16 bytes 12 * 10000) 164]"

definition read_mpu_channel ::
  "esp_err \<times> u8 list \<Rightarrow> mpu_channel \<Rightarrow> mpu_device \<Rightarrow> (esp_err \<times> int option) \<times> mpu_device" where
  "read_mpu_channel burst channel m =
     (if \<not> initialized m then ((ESP_ERR_INVALID_STATE, None), m)
      else
        let m = (if channel = MPU_ACCEL_X
                 then let m = m\<lparr>sample_status := fst burst\<rparr>
                      in if fst burst = ESP_OK then m\<lparr>mpu_values := snapshot (snd burst)\<rparr> else m
                 else m)
        in if sample_status m \<noteq> ESP_OK then ((sample_status m, None), m)
           else ((ESP_OK, Some (mpu_values m ! channel_index channel)), m))"

text \<open>The descriptors, in registry order; only the first has \<open>init\<close> and \<open>start\<close>.\<close>

definition mpu_sensor :: "string \<Rightarrow> u32 \<Rightarrow> bool \<Rightarrow> sensor" where
  "mpu_sensor name can_id first = \<lparr>sn_name = name, sn_can_id = can_id, sn_period_us = 10000,
     sn_next_sample_us = 0, sn_has_init = first, sn_has_start = first\<rparr>"

definition mpu_sensors :: "sensor list" where
  "mpu_sensors =
     [mpu_sensor ''mpu_accel_x'' CAN_ID_MPU_ACCEL_X True, mpu_sensor ''mpu_accel_y'' CAN_ID_MPU_ACCEL_Y False,
      mpu_sensor ''mpu_accel_z'' CAN_ID_MPU_ACCEL_Z False, mpu_sensor ''mpu_gyro_x'' CAN_ID_MPU_GYRO_X False,
      mpu_sensor ''mpu_gyro_y'' CAN_ID_MPU_GYRO_Y False, mpu_sensor ''mpu_gyro_z'' CAN_ID_MPU_GYRO_Z False]"

definition mpu_channels :: "mpu_channel list" where
  "mpu_channels = [MPU_ACCEL_X, MPU_ACCEL_Y, MPU_ACCEL_Z, MPU_GYRO_X, MPU_GYRO_Y, MPU_GYRO_Z]"

definition mpu_driver :: "(nat \<Rightarrow> esp_err \<times> u8 list) \<Rightarrow> mpu_device driver" where
  "mpu_driver burst i m = read_mpu_channel (burst i) (mpu_channels ! i) m"

subsection \<open>Scaling\<close>

lemma signed_be16_bounds: "- 32768 \<le> signed_be16 bytes i" "signed_be16 bytes i \<le> 32767"
  using sint_ge [of "push_bit 8 (ucast (bytes ! i)) OR ucast (bytes ! (i + 1)) :: u16"]
    sint_lt [of "push_bit 8 (ucast (bytes ! i)) OR ucast (bytes ! (i + 1)) :: u16"]
  by (simp_all add: signed_be16_def)

lemma signed_be16_bytes:
  "signed_be16 bytes i = sint (bytes ! i) * 256 + uint (bytes ! (i + 1))"
proof -
  have "signed_be16 bytes i = signed_take_bit 15 (uint (push_bit 8 (ucast (bytes ! i)) OR ucast (bytes ! (i + 1)) :: u16))"
    by (simp add: signed_be16_def sint_uint)
  also have "\<dots> = push_bit 8 (sint (bytes ! i)) OR uint (bytes ! (i + 1))"
    by (rule bit_eqI) (auto simp: bit_simps sint_uint min_def not_le bit_uint_iff dest: bit_imp_le_length)
  also have "\<dots> = push_bit 8 (sint (bytes ! i)) + uint (bytes ! (i + 1))"
    by (rule disjunctive_add [symmetric]) (auto simp: bit_simps dest: bit_imp_le_length)
  finally show ?thesis by (simp add: push_bit_eq_mult)
qed

lemma scaled_value:
  assumes "0 < d" and "0 < n" and "lo \<le> 32768 * n div d"
    and "- 32768 \<le> x" and "x \<le> 32767" and "lo = 32768 * n div d"
  shows "\<bar>c_div (x * n) d\<bar> \<le> lo" and "\<bar>c_div (x * n) d * d - x * n\<bar> < d"
proof -
  have "\<bar>x * n\<bar> \<le> 32768 * n" using assms by (simp add: abs_mult)
  then have "\<bar>x * n\<bar> div d \<le> 32768 * n div d" using assms(1) by (intro zdiv_mono1) auto
  then show "\<bar>c_div (x * n) d\<bar> \<le> lo" using c_div_abs_le [OF assms(1), of "x * n"] assms(6) by linarith
  show "\<bar>c_div (x * n) d * d - x * n\<bar> < d" using c_div_bounds [OF assms(1), of "x * n"] by linarith
qed

lemma snapshot_range:
  assumes "k < 6"
  shows "\<bar>snapshot bytes ! k\<bar> \<le> (if k < 3 then 8000 else 1998048)"
proof -
  have a: "\<bar>c_div (signed_be16 bytes i * 1000) 4096\<bar> \<le> 8000"
    and g: "\<bar>c_div (signed_be16 bytes i * 10000) 164\<bar> \<le> 1998048" for i
    by (rule scaled_value; simp add: signed_be16_bounds)+
  have "k \<in> {0, 1, 2, 3, 4, 5}" using assms by auto
  then show ?thesis using a g by (auto simp: snapshot_def)
qed

subsection \<open>One snapshot per round\<close>

text \<open>The six samples of a burst, stamped when their descriptors were visited.\<close>

definition mpu_samples :: "(nat \<Rightarrow> int) \<Rightarrow> u8 list \<Rightarrow> sample list" where
  "mpu_samples stamp bytes =
     map (\<lambda>i. \<lparr>sa_sensor_name = sn_name (mpu_sensors ! i), sa_can_id = sn_can_id (mpu_sensors ! i),
                sa_timestamp_ms = stamp i, sa_value = snapshot bytes ! i\<rparr>) [0..<6]"

lemma lockstep:
  assumes "\<forall>x\<in>set xs. sn_period_us x = p"
  shows "\<exists>T'. fold (\<lambda>(now, _). map (schedule_next now)) rounds (map (\<lambda>x. x\<lparr>sn_next_sample_us := T\<rparr>) xs)
    = map (\<lambda>x. x\<lparr>sn_next_sample_us := T'\<rparr>) xs"
proof (induction rounds arbitrary: T)
  case (Cons r rounds)
  obtain now rest where r: "r = (now, rest)" by fastforce
  have eq: "map (schedule_next now) (map (\<lambda>x. x\<lparr>sn_next_sample_us := T\<rparr>) xs)
      = map (\<lambda>x. x\<lparr>sn_next_sample_us := next_slot (uint p) now T\<rparr>) xs"
    using assms by (simp add: schedule_next_def)
  show ?case
    using Cons.IH [of "next_slot (uint p) now T"] by (simp only: r fold_simps prod.case eq)
qed auto

lemma due_mpu:
  assumes "xs = map (\<lambda>x. x\<lparr>sn_next_sample_us := T\<rparr>) mpu_sensors" and "initialized m"
  shows "fst (due_samples now stamp (mpu_driver burst) 0 xs m)
    = (if now < T then [] else if fst (burst 0) = ESP_OK then mpu_samples stamp (snd (burst 0)) else [])"
  using assms(2)
  by (simp add: assms(1) mpu_sensors_def mpu_sensor_def take_sample_def mpu_driver_def read_mpu_channel_def
      mpu_channels_def mpu_samples_def snapshot_def upt_rec Let_def)


definition mpu_idle :: "sample list sampler" where
  "mpu_idle = \<lparr>sample_queue = [], sensors = mpu_sensors, active = False\<rparr>"


end
