(* ===== verification/Sensor_Registry.thy ===== *)
theory Sensor_Registry
  imports Can_Node Adc_Drivers Bearing_Encoder Engine_Rpm Mpu6500
begin

text \<open>
  The builds of \<open>sensors/sensor_registry.c\<close>: which descriptors a node has, the callbacks behind
  them, and \<open>sampler_init\<close>.  The locale \<open>sensor_driver\<close> is the contract of \<open>sensor.h\<close>, "write
  value only on ESP_OK", with what the sampler makes of it; it is interpreted on the drivers of
  every build with periodic sensors.  The engine build has its own branch of \<open>sample_task\<close>.
\<close>

subsection \<open>Descriptors\<close>

datatype periodic_config = Brake_Config | Encoder_Config | Mpu_Config | Adc_Config
datatype node_config = Periodic periodic_config | Engine_Config

definition front_brake_sensor :: sensor where
  "front_brake_sensor = \<lparr>sn_name = ''front_brake_pressure'', sn_can_id = CAN_ID_FRONT_BRAKE,
     sn_period_us = 10000, sn_next_sample_us = 0, sn_has_init = False, sn_has_start = False\<rparr>"

definition rear_brake_sensor :: sensor where
  "rear_brake_sensor = \<lparr>sn_name = ''rear_brake_pressure'', sn_can_id = CAN_ID_REAR_BRAKE,
     sn_period_us = 10000, sn_next_sample_us = 0, sn_has_init = False, sn_has_start = False\<rparr>"

definition generic_adc_sensor :: sensor where
  "generic_adc_sensor = \<lparr>sn_name = ''generic_adc_voltage'', sn_can_id = CAN_ID_GENERIC_ADC,
     sn_period_us = 10000, sn_next_sample_us = 0, sn_has_init = False, sn_has_start = False\<rparr>"

definition bearing_encoder_sensor :: sensor where
  "bearing_encoder_sensor = \<lparr>sn_name = ''bearing_encoder'', sn_can_id = CAN_ID_BEARING_ENCODER,
     sn_period_us = ENCODER_SAMPLE_PERIOD_US, sn_next_sample_us = 0, sn_has_init = True, sn_has_start = True\<rparr>"

definition engine_rpm_sensor :: sensor where
  "engine_rpm_sensor = \<lparr>sn_name = ''engine_rpm'', sn_can_id = CAN_ID_ENGINE_RPM,
     sn_period_us = 0, sn_next_sample_us = 0, sn_has_init = True, sn_has_start = True\<rparr>"

primrec periodic_registry :: "periodic_config \<Rightarrow> sensor list" where
  "periodic_registry Brake_Config = [front_brake_sensor, rear_brake_sensor]"
| "periodic_registry Encoder_Config = [bearing_encoder_sensor]"
| "periodic_registry Mpu_Config = mpu_sensors"
| "periodic_registry Adc_Config = [generic_adc_sensor]"

primrec sensor_registry :: "node_config \<Rightarrow> sensor list" where
  "sensor_registry (Periodic cfg) = periodic_registry cfg"
| "sensor_registry Engine_Config = [engine_rpm_sensor]"

text \<open>The periods are positive wherever the schedule loop runs.\<close>

lemma periodic_periods: "\<forall>x\<in>set (periodic_registry cfg). sn_period_us x \<noteq> 0"
  by (cases cfg) (simp_all add: front_brake_sensor_def rear_brake_sensor_def generic_adc_sensor_def
      bearing_encoder_sensor_def ENCODER_SAMPLE_PERIOD_US_def mpu_sensors_def mpu_sensor_def)

subsection \<open>Callbacks\<close>

record drivers =
  dv_adc :: adc
  dv_encoder :: encoder
  dv_mpu :: mpu_device

record read_env =
  re_adc :: adc_env
  re_now :: int
  re_burst :: "esp_err \<times> u8 list"

definition sensor_read ::
  "periodic_config \<Rightarrow> read_env \<Rightarrow> nat \<Rightarrow> drivers \<Rightarrow> (esp_err \<times> int option) \<times> drivers" where
  "sensor_read cfg env i d =
     (case cfg of
        Brake_Config \<Rightarrow>
          (let (r, a) = (if i = 0 then front_brake_read (re_adc env) (dv_adc d)
                         else rear_brake_read (re_adc env) (dv_adc d))
           in (r, d\<lparr>dv_adc := a\<rparr>))
      | Encoder_Config \<Rightarrow> (let (r, c) = read_rpm (re_now env) (dv_encoder d) in (r, d\<lparr>dv_encoder := c\<rparr>))
      | Mpu_Config \<Rightarrow>
          (let (r, m) = read_mpu_channel (re_burst env) (mpu_channels ! i) (dv_mpu d)
           in (r, d\<lparr>dv_mpu := m\<rparr>))
      | Adc_Config \<Rightarrow> (let (r, a) = read_voltage_mv (re_adc env) (dv_adc d) in (r, d\<lparr>dv_adc := a\<rparr>)))"

definition sensor_start :: "periodic_config \<Rightarrow> int \<Rightarrow> nat \<Rightarrow> drivers \<Rightarrow> drivers" where
  "sensor_start cfg now i d =
     (case cfg of
        Encoder_Config \<Rightarrow> d\<lparr>dv_encoder := start_encoder now (dv_encoder d)\<rparr>
      | Mpu_Config \<Rightarrow> (if i = 0 then d\<lparr>dv_mpu := start_mpu (dv_mpu d)\<rparr> else d)
      | _ \<Rightarrow> d)"

record init_results =
  adc_unit_result :: esp_err
  encoder_init :: gpio_env
  encoder_levels :: u8
  mpu_init :: mpu_init_env
  sample_queue_created :: bool
  send_task_created :: bool
  sample_task_created :: bool

definition sensor_init :: "periodic_config \<Rightarrow> init_results \<Rightarrow> nat \<Rightarrow> drivers \<Rightarrow> esp_err \<times> drivers" where
  "sensor_init cfg env i d =
     (case cfg of
        Encoder_Config \<Rightarrow>
          (let (e, c) = init_encoder (encoder_init env) (encoder_levels env) (dv_encoder d)
           in (e, d\<lparr>dv_encoder := c\<rparr>))
      | Mpu_Config \<Rightarrow>
          (if i = 0 then (let (e, m) = init_mpu (mpu_init env) (dv_mpu d) in (e, d\<lparr>dv_mpu := m\<rparr>))
           else (ESP_OK, d))
      | _ \<Rightarrow> (ESP_OK, d))"

text \<open>The loop of \<open>sampler_init\<close> over the sensors that have an \<open>init\<close>.\<close>

fun init_sensors :: "periodic_config \<Rightarrow> init_results \<Rightarrow> nat \<Rightarrow> sensor list \<Rightarrow> drivers \<Rightarrow> esp_err \<times> drivers" where
  "init_sensors cfg env i [] d = (ESP_OK, d)"
| "init_sensors cfg env i (x # xs) d =
     (if sn_has_init x
      then (let (e, d) = sensor_init cfg env i d
            in if e \<noteq> ESP_OK then (e, d) else init_sensors cfg env (Suc i) xs d)
      else init_sensors cfg env (Suc i) xs d)"

definition sampler_init :: "periodic_config \<Rightarrow> init_results \<Rightarrow> drivers \<Rightarrow> esp_err \<times> drivers" where
  "sampler_init cfg env d =
     (let (e, a) = (if cfg = Brake_Config \<or> cfg = Adc_Config
                    then adc_input_init (adc_unit_result env) (dv_adc d) else (ESP_OK, dv_adc d));
          d = d\<lparr>dv_adc := a\<rparr>
      in if e \<noteq> ESP_OK then (e, d)
         else
           let (e, d) = init_sensors cfg env 0 (periodic_registry cfg) d
           in if e \<noteq> ESP_OK then (e, d)
              else if \<not> sample_queue_created env then (ESP_ERR_NO_MEM, d)
              else if \<not> send_task_created env \<or> \<not> sample_task_created env then (ESP_ERR_NO_MEM, d)
              else (ESP_OK, d))"

text \<open>The callbacks \<open>main.c\<close> gives to the CAN module, per build.\<close>

definition periodic_build :: "periodic_config \<Rightarrow> int \<Rightarrow> drivers build" where
  "periodic_build cfg now = \<lparr>driver_start = sensor_start cfg now, driver_discard = (\<lambda>d. d)\<rparr>"

definition engine_build :: "('q, spark_capture) queue_api \<Rightarrow> int \<Rightarrow> 'q engine build" where
  "engine_build Q now = \<lparr>driver_start = (\<lambda>i. start_engine_rpm Q now),
     driver_discard = engine_rpm_discard_pending Q now\<rparr>"

text \<open>The engine branch of \<open>sample_task\<close>: the events lost since the last round, and the state.\<close>

definition engine_round ::
  "bool \<Rightarrow> ('q, sample) queue_api \<Rightarrow> ('e, spark_capture) queue_api \<Rightarrow> int \<Rightarrow> int \<Rightarrow>
   'q sampler \<Rightarrow> 'e engine \<Rightarrow> u32 \<times> 'q sampler \<times> 'e engine" where
  "engine_round serial_test Q E off now s c =
     (let (event, c) = engine_rpm_next_event E now c;
          s = (case event of
                 None \<Rightarrow> s
               | Some e \<Rightarrow> if active s
                   then s\<lparr>sample_queue := enqueue_engine_event serial_test Q off e (sample_queue s)\<rparr> else s);
          (dropped, c) = engine_rpm_dropped_events c
      in (dropped, s, c))"

subsection \<open>The driver contract\<close>

text \<open>
  A sample of a round: sensor \<open>i\<close> of the list, whose reads start with index \<open>k\<close>, wrote its value and
  reported success.
\<close>

definition from_driver ::
  "('e \<Rightarrow> nat \<Rightarrow> 'd \<Rightarrow> (esp_err \<times> int option) \<times> 'd) \<Rightarrow> (nat \<Rightarrow> 'e) \<Rightarrow> (nat \<Rightarrow> int) \<Rightarrow> nat \<Rightarrow>
   sensor list \<Rightarrow> sample \<Rightarrow> bool" where
  "from_driver read envs stamp k xs x \<longleftrightarrow> in_i32 (sa_value x) \<and>
     (\<exists>i d. i < length xs \<and> sa_can_id x = sn_can_id (xs ! i)
        \<and> fst (read (envs (k + i)) (k + i) d) = (ESP_OK, Some (sa_value x)) \<and> sa_timestamp_ms x = stamp (k + i))"

lemma from_driver_Suc: "from_driver read envs stamp (Suc k) ys x \<Longrightarrow> from_driver read envs stamp k (y # ys) x"
  unfolding from_driver_def by (metis add_Suc_right add_Suc_shift length_Cons nth_Cons_Suc Suc_less_eq)

locale sensor_driver =
  fixes read :: "'e \<Rightarrow> nat \<Rightarrow> 'd \<Rightarrow> (esp_err \<times> int option) \<times> 'd"
    and plausible :: "'e \<Rightarrow> bool"
    and inv :: "'d \<Rightarrow> bool"
  assumes written: "fst (fst (read env i d)) = ESP_OK \<Longrightarrow> snd (fst (read env i d)) \<noteq> None"
    and fits: "inv d \<Longrightarrow> plausible env \<Longrightarrow> fst (read env i d) = (ESP_OK, Some v) \<Longrightarrow> in_i32 v"
    and keeps: "inv d \<Longrightarrow> plausible env \<Longrightarrow> inv (snd (read env i d))"
begin

text \<open>What the sampler queues is what a driver wrote, and fits the frame.\<close>

lemma samples_written:
  assumes "inv d" and "\<forall>i. plausible (envs i)"
  shows "inv (snd (due_samples now stamp (\<lambda>i. read (envs i) i) k xs d))
    \<and> (\<forall>x\<in>set (fst (due_samples now stamp (\<lambda>i. read (envs i) i) k xs d)). from_driver read envs stamp k xs x)"
  using assms(1)
proof (induction xs arbitrary: k d)
  case (Cons x xs)
  obtain rw d1 where "read (envs k) k d = (rw, d1)" by fastforce
  moreover obtain e w where "rw = (e, w)" by fastforce
  ultimately have r: "read (envs k) k d = ((e, w), d1)" by simp
  have d1: "inv d1" using keeps [OF Cons.prems, of "envs k" k] assms(2) r by simp
  show ?case
  proof (cases "sn_next_sample_us x \<le> now")
    case False
    then show ?thesis using Cons.IH [OF Cons.prems, of "Suc k"] by (auto intro: from_driver_Suc)
  next
    case True
    show ?thesis
    proof (cases "e = ESP_OK")
      case False
      then show ?thesis
        using True Cons.IH [OF d1, of "Suc k"]
        by (auto simp: take_sample_def r case_prod_unfold Let_def intro: from_driver_Suc)
    next
      case ok: True
      then obtain v where w: "w = Some v" using written [of "envs k" k d] r by auto
      then have "in_i32 v" using fits [OF Cons.prems, of "envs k" k v] assms(2) r ok by simp
      then have "from_driver read envs stamp k (x # xs)
          \<lparr>sa_sensor_name = sn_name x, sa_can_id = sn_can_id x, sa_timestamp_ms = stamp k, sa_value = v\<rparr>"
        unfolding from_driver_def using r ok w by (auto intro!: exI [of _ 0] exI [of _ d])
      then show ?thesis
        using True ok w Cons.IH [OF d1, of "Suc k"]
        by (auto simp: take_sample_def r case_prod_unfold Let_def intro: from_driver_Suc)
    qed
  qed
qed simp

end

subsection \<open>Every build keeps the contract\<close>

text \<open>Raw values of the twelve-bit converter, calibrated voltages of at most five volts.\<close>

definition plausible_reading :: "read_env \<Rightarrow> bool" where
  "plausible_reading env \<longleftrightarrow> 0 \<le> raw_value (re_adc env) \<and> raw_value (re_adc env) \<le> 4095
     \<and> \<bar>cali_voltage (re_adc env)\<bar> \<le> 5000"

definition drivers_inv :: "drivers \<Rightarrow> bool" where
  "drivers_inv d \<longleftrightarrow> length (mpu_values (dv_mpu d)) = 6 \<and> (\<forall>v\<in>set (mpu_values (dv_mpu d)). in_i32 v)"

lemma adc_voltage_range:
  assumes "0 \<le> raw_value env" and "raw_value env \<le> 4095" and "\<bar>cali_voltage env\<bar> \<le> 5000"
    and "snd (fst (adc_input_read_mv env gpio a)) = Some v"
  shows "\<bar>v\<bar> \<le> 5000"
proof -
  have "0 \<le> c_div (raw_value env * 2450) 4095 \<and> c_div (raw_value env * 2450) 4095 \<le> 2450"
  proof -
    have "c_div (raw_value env * 2450) 4095 = raw_value env * 2450 div 4095"
      using assms(1) by (simp add: c_div_nonneg)
    moreover have "raw_value env * 2450 div 4095 \<le> 4095 * 2450 div 4095"
      using assms(1,2) by (intro zdiv_mono1) auto
    ultimately show ?thesis using assms(1) by (simp add: pos_imp_zdiv_nonneg_iff)
  qed
  then show ?thesis
    using assms(3,4) by (auto simp: adc_input_read_mv_def case_prod_unfold Let_def split: if_splits)
qed

lemma brake_pressure_in_range:
  assumes "\<bar>v\<bar> \<le> 5000" and "psi = FRONT_PRESSURE_SPAN_PSI \<or> psi = REAR_PRESSURE_SPAN_PSI"
  shows "in_i32 (brake_pressure psi v)"
proof (cases "v \<le> 250")
  case True
  have "0 \<le> psi" using assms(2) by (auto simp: FRONT_PRESSURE_SPAN_PSI_def REAR_PRESSURE_SPAN_PSI_def)
  then show ?thesis using pressure_at_rest [of v psi] True assms(1) by (simp add: in_i32_def)
next
  case False
  have b: "0 \<le> (v - 250) * 3 div 2" "(v - 250) * 3 div 2 \<le> 7125" "0 \<le> (v - 250) * 4 div 5"
      "(v - 250) * 4 div 5 \<le> 3800" using False assms(1) by auto
  show ?thesis
    using assms(2) False assms(1) b pressure_near [of v 3000 3 2] pressure_near [of v 1600 4 5]
    by (auto simp: FRONT_PRESSURE_SPAN_PSI_def REAR_PRESSURE_SPAN_PSI_def in_i32_def)
qed

lemma brake_read_contract:
  assumes "psi = FRONT_PRESSURE_SPAN_PSI \<or> psi = REAR_PRESSURE_SPAN_PSI"
    and "0 \<le> raw_value env" and "raw_value env \<le> 4095" and "\<bar>cali_voltage env\<bar> \<le> 5000"
    and "fst (read_pressure psi gpio env a) = (ESP_OK, Some v)"
  shows "in_i32 v"
proof -
  obtain e w a' where r: "adc_input_read_mv env gpio a = ((e, w), a')" by (metis surj_pair)
  then have "e = ESP_OK" "v = brake_pressure psi (case w of Some v \<Rightarrow> v | None \<Rightarrow> 0)"
    using assms(5) by (auto simp: read_pressure_def split: if_splits)
  moreover have "\<bar>case w of Some v \<Rightarrow> v | None \<Rightarrow> 0\<bar> \<le> 5000"
    using adc_voltage_range [OF assms(2-4), of gpio a] r by (auto split: option.splits)
  ultimately show ?thesis using brake_pressure_in_range assms(1) by blast
qed

lemma sensor_read_written:
  "fst (fst (sensor_read cfg env i d)) = ESP_OK \<Longrightarrow> snd (fst (sensor_read cfg env i d)) \<noteq> None"
  by (cases cfg)
    (auto simp: sensor_read_def front_brake_read_def rear_brake_read_def read_pressure_def read_voltage_mv_def
      read_rpm_def read_mpu_channel_def case_prod_unfold Let_def split: if_splits)

lemma snapshot_i32: "v \<in> set (snapshot bytes) \<Longrightarrow> in_i32 v"
proof -
  assume "v \<in> set (snapshot bytes)"
  moreover have "length (snapshot bytes) = 6" by (simp add: snapshot_def)
  ultimately obtain k where "k < 6" "v = snapshot bytes ! k" unfolding in_set_conv_nth by auto
  then show ?thesis using snapshot_range [of k bytes] by (auto simp: in_i32_def abs_le_iff split: if_splits)
qed

lemma mpu_values_inv:
  assumes "length (mpu_values m) = 6" and "\<forall>v\<in>set (mpu_values m). in_i32 v"
  shows "length (mpu_values (snd (read_mpu_channel burst ch m))) = 6
    \<and> (\<forall>v\<in>set (mpu_values (snd (read_mpu_channel burst ch m))). in_i32 v)"
  using assms snapshot_i32 by (auto simp: read_mpu_channel_def Let_def snapshot_def)

lemma mpu_read_fits:
  assumes "length (mpu_values m) = 6" and "\<forall>v\<in>set (mpu_values m). in_i32 v"
    and "fst (read_mpu_channel burst ch m) = (ESP_OK, Some v)"
  shows "in_i32 v"
proof -
  have "v = mpu_values (snd (read_mpu_channel burst ch m)) ! channel_index ch"
    using assms(3) by (auto simp: read_mpu_channel_def Let_def split: if_splits)
  moreover have "channel_index ch < 6" by (cases ch) simp_all
  ultimately show ?thesis using mpu_values_inv [OF assms(1,2), of burst ch] by (metis nth_mem)
qed

interpretation periodic: sensor_driver "sensor_read cfg" plausible_reading drivers_inv for cfg
proof
  fix env i d
  show "fst (fst (sensor_read cfg env i d)) = ESP_OK \<Longrightarrow> snd (fst (sensor_read cfg env i d)) \<noteq> None"
    by (rule sensor_read_written)
next
  fix d env i v
  assume inv: "drivers_inv d" and env: "plausible_reading env"
    and r: "fst (sensor_read cfg env i d) = (ESP_OK, Some v)"
  note ranges = env [unfolded plausible_reading_def]
  show "in_i32 v"
  proof (cases cfg)
    case Brake_Config
    then show ?thesis
      using r ranges brake_read_contract [of FRONT_PRESSURE_SPAN_PSI "re_adc env" 0 "dv_adc d" v]
        brake_read_contract [of REAR_PRESSURE_SPAN_PSI "re_adc env" 1 "dv_adc d" v]
      by (auto simp: sensor_read_def front_brake_read_def rear_brake_read_def case_prod_unfold Let_def
          split: if_splits)
  next
    case Encoder_Config
    then show ?thesis
      using r calculate_rpm_in_range
      by (auto simp: sensor_read_def read_rpm_def case_prod_unfold Let_def in_i32_def split: if_splits)
  next
    case Mpu_Config
    then show ?thesis
      using r mpu_read_fits [of "dv_mpu d"] inv
      by (auto simp: sensor_read_def drivers_inv_def case_prod_unfold Let_def)
  next
    case Adc_Config
    then have "snd (fst (adc_input_read_mv (re_adc env) GENERIC_ADC_GPIO (dv_adc d))) = Some v"
      using r adc_written [of "re_adc env" GENERIC_ADC_GPIO "dv_adc d"]
      by (auto simp: sensor_read_def read_voltage_mv_def case_prod_unfold Let_def split: if_splits option.splits)
    then have "\<bar>v\<bar> \<le> 5000" using adc_voltage_range ranges by blast
    then show ?thesis by (auto simp: in_i32_def abs_le_iff)
  qed
next
  fix d env i
  assume "drivers_inv d"
  then show "drivers_inv (snd (sensor_read cfg env i d))"
    using mpu_values_inv [of "dv_mpu d" "re_burst env" "mpu_channels ! i"]
    by (cases cfg) (simp_all add: sensor_read_def drivers_inv_def case_prod_unfold Let_def)
qed

lemma sample_frame_decodes:
  assumes "in_i32 (sa_value x)"
  shows "sample_value (assemble_data (snd (sample_frame x)) 8) = sa_value x"
    and "sample_timestamp (assemble_data (snd (sample_frame x)) 8) = word_of_int (sa_timestamp_ms x)"
  using assms by (simp_all add: sample_frame_def)


definition quiet_env :: read_env where
  "quiet_env = \<lparr>re_adc = \<lparr>config_result = ESP_OK, cali_result = ESP_OK, oneshot_result = ESP_OK, raw_value = 100,
     voltage_result = ESP_OK, cali_voltage = 1250\<rparr>, re_now = 20000, re_burst = (ESP_OK, replicate 14 0)\<rparr>"

definition drivers_boot :: drivers where
  "drivers_boot = \<lparr>dv_adc = adc_boot\<lparr>adc_handle := True\<rparr>, dv_encoder = encoder_boot, dv_mpu = mpu_boot\<rparr>"

definition quiet_sampler :: "sample list sampler" where
  "quiet_sampler = \<lparr>sample_queue = [], sensors = [generic_adc_sensor], active = True\<rparr>"


lemma sampler_init_ok:
  assumes "fst (sampler_init cfg env d) = ESP_OK"
  shows "sample_queue_created env \<and> send_task_created env \<and> sample_task_created env"
  using assms by (auto simp: sampler_init_def case_prod_unfold Let_def split: if_splits)

lemma sampler_init_mpu:
  assumes "fst (sampler_init Mpu_Config env d) = ESP_OK"
  shows "initialized (dv_mpu (snd (sampler_init Mpu_Config env d)))"
  using assms init_mpu_ok [of "mpu_init env" "dv_mpu d"]
  by (auto simp: sampler_init_def mpu_sensors_def mpu_sensor_def sensor_init_def case_prod_unfold Let_def
      split: if_splits)

end
