(* ===== verification/Can_Bus.thy ===== *)
theory Can_Bus
  imports Master_Boot Sensor_Registry
begin

text \<open>
  The two firmwares on one bus: the frames the master's driver accepted reach the nodes, and the
  frames of the nodes reach the master.  \<open>heard f\<close> is the message the receive interrupt of either
  firmware makes of frame \<open>f\<close>.  The transport itself (loss, order, delay) is not assumed to be
  perfect: the statements are about each frame that arrives.
\<close>

definition heard :: "u32 \<times> u8 list \<Rightarrow> can_message" where
  "heard f = received_message (fst f) (word_of_nat (length (snd f))) (snd f)"

subsection \<open>Beacons\<close>

lemma bit_beacon_time: "bit (beacon_time t b) 63 = b"
  by (simp add: beacon_time_def Let_def bit_or_iff bit_and_iff bit_value_mask bit_recording_flag)

lemma beacon_time_value:
  assumes "0 \<le> t" and "t < 2 ^ 63"
  shows "sint (beacon_time t b AND CAN_MASTER_TIME_VALUE_MASK) = t"
proof -
  have "beacon_time t b AND CAN_MASTER_TIME_VALUE_MASK = word_of_int t AND CAN_MASTER_TIME_VALUE_MASK"
    by (rule bit_word_eqI)
      (auto simp: beacon_time_def Let_def bit_or_iff bit_and_iff bit_value_mask bit_recording_flag)
  also have "\<dots> = word_of_int (take_bit 63 t)"
    by (rule bit_word_eqI) (auto simp: value_mask_eq bit_and_iff bit_mask_iff bit_take_bit_iff bit_word_of_int_iff)
  also have "take_bit 63 t = t" using assms by (simp add: take_bit_int_eq_self)
  finally show ?thesis using assms by (simp add: signed_of_int signed_take_bit_int_eq_self)
qed

lemma beacon_heard:
  assumes "beacon_round pd now_us now env flag tx bc = (logs, acts, tx', bc')" and "f \<in> set (accepted_frames None acts)"
  shows "heard f = \<lparr>msg_id = CAN_ID_MASTER_TIME, msg_dlc = 8, msg_data = beacon_time now_us flag\<rparr>"
proof -
  obtain e a1 t1 where s: "can_master_send env CAN_ID_MASTER_TIME (Some (payload_bytes (beacon_time now_us flag))) 8 tx = (e, a1, t1)"
    by (metis prod_cases3)
  then have "acts = a1" using assms(1) by (auto simp: beacon_round_def Let_def)
  then have "f = (CAN_ID_MASTER_TIME, payload_bytes (beacon_time now_us flag))"
    using can_master_send_frames [OF s, of None] assms(2) by auto
  then show ?thesis by (simp add: heard_def received_message_def)
qed

lemma dispatch_offset:
  assumes "is_beacon m"
  shows "master_offset_us (snd (dispatch me Q b env m n)) =
    time_sync_update (msg_data m AND CAN_MASTER_TIME_VALUE_MASK) (beacon_local_us env)"
proof -
  obtain st where "demanded_state me m = Some st" using assms by (simp add: demanded_state_def)
  then show ?thesis using dispatch_beacon [OF assms, of me st Q b env n] by (simp add: Let_def frame_simps)
qed

text \<open>While the master's bus is up, every round of the beacon task puts its frame there.\<close>

lemma beacon_sent:
  assumes "bus_up env"
  shows "accepted_frames buf (fst (snd (beacon_round pd now_us now env flag tx bc)))
    = [(CAN_ID_MASTER_TIME, payload_bytes (beacon_time now_us flag))]"
  using can_node_send_up [OF assms, of 8 "payload_bytes (beacon_time now_us flag)" CAN_ID_MASTER_TIME tx buf]
  by (auto simp: beacon_round_def can_node_send_eq Let_def)

definition running_node :: "(sample list, unit) node" where
  "running_node = fresh_node\<lparr>current_state := NODE_STATE_ACTIVE, node_sampler := one_sensor\<lparr>active := True\<rparr>\<rparr>"

definition quick_env :: node_env where
  "quick_env = \<lparr>beacon_local_us = 1000, start_local_us = 1000, report_env = good_bus\<rparr>"

lemma running_node_consistent: "node_consistent running_node"
  by (simp add: running_node_def node_consistent_def)

lemma good_bus_up [simp]: "bus_up good_bus"
  by (simp add: bus_up_def good_bus_def)

text \<open>
  C5: the nodes record with the master.  Take any state the master reaches from reset, and a beacon it
  sends there that some node hears.  Afterwards the node's sampler runs exactly if the master's
  logger is recording, and it reports so; and a sample it takes when the master's clock shows
  \<open>shown\<close> is stamped with a millisecond between the one containing \<open>shown - delay\<close> and the one
  containing \<open>shown\<close>, where \<open>delay\<close> bounds the way of the beacon from the master's clock to the
  node's and \<open>off\<close> is what the node's timer lags the master's.
\<close>
theorem nodes_record_with_master:
  assumes "master_reach True Q pd env (master_static q0 r0 fs) m"
    and "beacon_round pd now_us now benv (beacon_recording (bm_app m)) (tx_of (bm_app m)) bc = (logs, acts, tx, bc')"
    and "f \<in> set (accepted_frames None acts)"
    and "node_consistent n" and "dispatch me Q' b nenv (heard f) n = (calls, n')"
    and "0 \<le> now_us" and "now_us < 2 ^ 63"
    and "0 \<le> (beacon_local_us nenv + off) - now_us" and "(beacon_local_us nenv + off) - now_us \<le> delay"
    and "shown = sampled + off" and "delay \<le> shown" and "shown < 2 ^ 31 * 1000"
  shows "(active (node_sampler n') \<longleftrightarrow> lg_state (logger_of (bm_app m)) = LOGGER_RUNNING)
    \<and> (current_state n' = NODE_STATE_ACTIVE \<longleftrightarrow> lg_state (logger_of (bm_app m)) = LOGGER_RUNNING)
    \<and> (shown - delay) div 1000 \<le> time_sync_timestamp_ms_at (master_offset_us n') sampled
    \<and> time_sync_timestamp_ms_at (master_offset_us n') sampled \<le> shown div 1000"
proof -
  let ?flag = "beacon_recording (bm_app m)"
  have flag: "?flag \<longleftrightarrow> lg_state (logger_of (bm_app m)) = LOGGER_RUNNING"
    using master_inv_reach [OF assms(1) master_inv_static] by (simp add: master_inv_def app_ok_def)
  note msg = beacon_heard [OF assms(2,3)]
  then have bc: "is_beacon (heard f)" by (simp add: is_beacon_def)
  have "demanded_state me (heard f) = Some (if ?flag then NODE_STATE_ACTIVE else NODE_STATE_IDLE)"
    using bc by (simp add: demanded_state_def msg bit_beacon_time)
  then have state: "current_state n' = (if ?flag then NODE_STATE_ACTIVE else NODE_STATE_IDLE)"
    using dispatch_state [of me Q' b nenv "heard f" n] assms(5) by simp
  have "node_consistent n'" using dispatch_consistent [OF assms(4), of me Q' b nenv "heard f"] assms(5) by simp
  moreover have "master_offset_us n' = time_sync_update (beacon_time now_us ?flag AND CAN_MASTER_TIME_VALUE_MASK) (beacon_local_us nenv)"
    using dispatch_offset [OF bc, of me Q' b nenv n] assms(5) by (simp add: msg)
  moreover have "sint (beacon_time now_us ?flag AND CAN_MASTER_TIME_VALUE_MASK) = now_us"
    by (rule beacon_time_value [OF assms(6,7)])
  ultimately show ?thesis
    using state flag node_time_follows_master [of "beacon_local_us nenv" off _ delay shown sampled] assms(8-12)
    by (simp add: node_consistent_def)
qed

theorem nodes_record_with_master_witness:
  "let n = snd (dispatch 6 (list_queue 64) plain_build quick_env
                  (heard (CAN_ID_MASTER_TIME, payload_bytes (beacon_time 5000000 False))) running_node)
   in \<not> active (node_sampler n) \<and> time_sync_timestamp_ms_at (master_offset_us n) 2001000 = 7000"
proof -
  let ?m = "master_static [] [] Map.empty :: (queued_sample list, can_message list) master"
  let ?pd = "\<lambda>ms. word_of_nat ms :: u32" and ?bc = "\<lparr>bc_previous_error = ESP_OK, bc_last_failure_log = 0\<rparr>"
  let ?f = "(CAN_ID_MASTER_TIME, payload_bytes (beacon_time 5000000 False))"
  have off: "\<not> beacon_recording (bm_app ?m)" "lg_state (logger_of (bm_app ?m)) = LOGGER_IDLE"
    by (simp_all add: master_static_def logger_boot_def)
  obtain logs acts tx bc' where r: "beacon_round ?pd 5000000 0 good_bus (beacon_recording (bm_app ?m)) (tx_of (bm_app ?m)) ?bc
      = (logs, acts, tx, bc')" by (metis prod_cases4)
  have f: "?f \<in> set (accepted_frames None acts)"
    using beacon_sent [OF good_bus_up, of None ?pd 5000000 0 "beacon_recording (bm_app ?m)" "tx_of (bm_app ?m)" ?bc] off r by simp
  note reach = master_reach.boot [of True "list_queue LOG_QUEUE_LENGTH" ?pd smooth_boot ?m]
  have "\<not> active (node_sampler (snd (dispatch 6 (list_queue 64) plain_build quick_env (heard ?f) running_node)))
    \<and> (7000300 - 300) div 1000 \<le> time_sync_timestamp_ms_at
        (master_offset_us (snd (dispatch 6 (list_queue 64) plain_build quick_env (heard ?f) running_node))) 2001000
    \<and> time_sync_timestamp_ms_at
        (master_offset_us (snd (dispatch 6 (list_queue 64) plain_build quick_env (heard ?f) running_node))) 2001000 \<le> 7000300 div 1000"
    using nodes_record_with_master [OF reach r f running_node_consistent
        surjective_pairing [of "dispatch 6 (list_queue 64) plain_build quick_env (heard ?f) running_node"],
        where off = "4999300" and delay = 300 and shown = "7000300" and sampled = 2001000] off(2)
    by (simp add: quick_env_def)
  then show ?thesis by (simp add: Let_def)
qed

subsection \<open>Replies\<close>

text \<open>The frames of \<open>can_node_report_state\<close>, whatever the bus answered.\<close>

lemma report_frames:
  assumes "f \<in> set (accepted_frames buf (fst (can_node_report_state me env st why n)))"
  shows "\<exists>extra. f = state_frame me st why extra"
proof -
  let ?n = "n\<lparr>current_state := st\<rparr>"
  obtain e acts tx where s: "can_master_send env (CAN_ID_NODE_STATE_BASE + ucast me)
      (Some (report_payload st why ?n)) (of_nat CAN_NODE_STATE_LENGTH) (node_tx ?n) = (e, acts, tx)"
    by (metis prod_cases3)
  have "f \<in> set (accepted_frames buf acts)"
    using assms by (simp add: can_node_report_state_def can_node_send_eq s [simplified] Let_def)
  then show ?thesis
    using can_master_send_frames [OF s, of buf]
    by (auto simp: CAN_NODE_STATE_LENGTH_def report_payload_def state_frame_def)
qed

lemma dispatch_frames:
  assumes "f \<in> set (accepted_frames buf (fst (dispatch me Q b env m n)))"
  shows "\<exists>why extra. f = state_frame me (current_state (snd (dispatch me Q b env m n))) why extra"
  using assms
  by (cases rule: message_cases [of m me, case_names beacon start stop other]; cases "current_state n")
    (auto simp: dispatch_beacon dispatch_start dispatch_stop dispatch_other frame_simps Let_def
      dest!: report_frames split: if_splits)

lemma three_bytes:
  "ucast (assemble_data [a, b, c] 3) = a" "ucast (drop_bit 8 (assemble_data [a, b, c] 3)) = b"
proof -
  have data: "assemble_data [a, b, c] 3 = ucast a OR push_bit 8 (ucast b) OR push_bit 16 (ucast c)"
    by (simp add: numeral_3_eq_3 or.assoc)
  show "ucast (assemble_data [a, b, c] 3) = a" "ucast (drop_bit 8 (assemble_data [a, b, c] 3)) = b"
    unfolding data
    by (rule bit_word_eqI; auto simp: bit_ucast_iff bit_drop_bit_eq bit_or_iff bit_push_bit_iff dest: bit_imp_le_length)+
qed

lemma state_frame_heard:
  assumes "f = state_frame me st why extra" and "bit CAN_NODE_ID_MASK (unat me)"
  shows "node_registry_is_state_frame (heard f)" and "msg_dlc (heard f) = 3"
    and "msg_id (heard f) - CAN_ID_NODE_STATE_BASE = ucast me"
    and "ucast (msg_data (heard f)) = node_state_code st"
    and "ucast (drop_bit 8 (msg_data (heard f))) = node_state_reason_code why"
proof -
  have d: "heard f = \<lparr>msg_id = CAN_ID_NODE_STATE_BASE + ucast me, msg_dlc = 3,
      msg_data = assemble_data [node_state_code st, node_state_reason_code why, extra] 3\<rparr>"
    by (simp add: assms(1) heard_def state_frame_def received_message_def)
  have "unat me \<in> {1, 3, 4, 5, 6}" using assms(2) by (simp add: bit_CAN_NODE_ID_MASK)
  then have "me = 1 \<or> me = 3 \<or> me = 4 \<or> me = 5 \<or> me = 6" by (auto simp: word_unat_eq_iff)
  then show "node_registry_is_state_frame (heard f)"
    by (auto simp: d node_registry_is_state_frame_def CAN_ID_NODE_STATE_BASE_def CAN_NODE_SLOT_COUNT_def)
qed (simp_all add: assms(1) heard_def state_frame_def received_message_def three_bytes)

text \<open>
  C11: the master's record of a node is the node's state.  Whatever message a supported node handles,
  and whatever its bus answers: when the master hears a frame the node sent in reply, its
  registry shows the state the node is in, in the node's slot and in no other, and neither the
  logger nor the live cache is touched.
\<close>
theorem reply_reaches_registry:
  assumes "dispatch me Q b nenv msg n = (calls, n')" and "f \<in> set (accepted_frames None calls)"
    and "bit CAN_NODE_ID_MASK (unat me)" and "reg_wf (registry_of a)"
    and "a' = handle_can_message Q' sample_utc now now_us (heard f) a"
  shows "rn_seen (reg_nodes (registry_of a') ! unat me)
    \<and> rn_state (reg_nodes (registry_of a') ! unat me) = node_state_code (current_state n')
    \<and> (\<forall>j. j \<noteq> unat me \<longrightarrow> reg_nodes (registry_of a') ! j = reg_nodes (registry_of a) ! j)
    \<and> logger_of a' = logger_of a \<and> live_of a' = live_of a"
proof -
  obtain why extra where f: "f = state_frame me (current_state n') why extra"
    using dispatch_frames [of f None me Q b nenv msg n] assms(1,2) by auto
  note h = state_frame_heard [OF f assms(3)]
  have slot: "unat me < 7" using assms(3) by (auto simp: bit_CAN_NODE_ID_MASK)
  then have len: "unat me < length (reg_nodes (registry_of a))" using assms(4) by (simp add: reg_wf_def)
  have "\<not> CAN_NODE_SLOT_COUNT \<le> (ucast me :: u32)" using slot by (simp add: word_le_nat_alt)
  then have "registry_of a' = upd_node (unat me) (\<lambda>nd. nd\<lparr>rn_seen := True, rn_state := node_state_code (current_state n'),
      rn_reason := node_state_reason_code why, rn_reset_reason := ucast (drop_bit 16 (msg_data (heard f)))\<rparr>) (registry_of a)"
    using h by (simp add: assms(5) handle_can_message_def node_registry_update_def Let_def)
  then show ?thesis using h(1) len by (auto simp: assms(5) handle_can_message_def nth_upd_node)
qed

theorem reply_reaches_registry_witness:
  "rn_state (reg_nodes (registry_of (handle_can_message (list_queue LOG_QUEUE_LENGTH) (\<lambda>t. 0) 0 0
       (heard (state_frame 5 NODE_STATE_ACTIVE NODE_STATE_REASON_START 0))
       (app_boot ([] :: queued_sample list) ([] :: can_message list) Map.empty))) ! 5) = node_state_code NODE_STATE_ACTIVE"
proof -
  let ?msg = "\<lparr>msg_id = CAN_ID_START, msg_dlc = 0, msg_data = 0\<rparr>" and ?f = "state_frame 5 NODE_STATE_ACTIVE NODE_STATE_REASON_START 0"
  let ?d = "dispatch 5 (list_queue 64) plain_build quick_env ?msg fresh_node"
  have "acknowledgement 5 ?msg (current_state fresh_node) = [?f]"
    by (simp add: acknowledgement_def is_beacon_def targets_this_node_def command_id_defs)
  then have f: "?f \<in> set (accepted_frames None (fst ?d))"
    using commands_acknowledged [of quick_env 5 "list_queue 64" plain_build ?msg fresh_node] by (simp add: quick_env_def)
  have me: "bit CAN_NODE_ID_MASK (unat (5 :: u8))" by (simp add: bit_CAN_NODE_ID_MASK)
  have wf: "reg_wf (registry_of (app_boot ([] :: queued_sample list) ([] :: can_message list) Map.empty))" by (simp add: app_boot_def)
  have "current_state (snd ?d) = NODE_STATE_ACTIVE"
    by (simp add: dispatch_state demanded_state_def is_beacon_def targets_this_node_def command_id_defs)
  then show ?thesis using reply_reaches_registry [OF surjective_pairing f me wf refl] by simp
qed

subsection \<open>Commands\<close>

definition session_command ::
  "('q, queued_sample) queue_api \<Rightarrow> (nat \<Rightarrow> u32) \<Rightarrow> app_env \<Rightarrow> ('q, 'r) app \<Rightarrow> app_control_result \<times> tx_action list \<times> ('q, 'r) app \<Rightarrow> bool" where
  "session_command Q pd env a result \<longleftrightarrow>
     (\<exists>filename. app_control_start_logging True Q pd env filename a = Some result) \<or>
     app_control_stop_logging True env a = result"

text \<open>The commands an operation of \<open>app_control\<close> puts on the bus, and where it leaves the logger.\<close>

lemma start_frames:
  assumes "app_control_start_logging True Q pd env filename a = Some (r, acts, a')" and "f \<in> set (accepted_frames None acts)"
  shows "r = APP_CONTROL_OK \<and> f = (CAN_ID_START, []) \<and> lg_state (logger_of a') = LOGGER_RUNNING"
proof -
  have burst: "f = (CAN_ID_START, [])" if "can_master_start_nodes (burst_env env) tx = (e, acts, tx')" for tx e tx'
    using burst_commands [of None "map (burst_env env) [0..<CAN_COMMAND_REPEAT_COUNT]" CAN_ID_START ESP_OK tx] that assms(2)
    unfolding can_master_start_nodes_def send_command_burst_def by auto
  have "acts \<noteq> []" using assms(2) by auto
  then obtain lg e tx where lg: "data_logger_start Q pd (name_started env) (name_readings env) (logger_start_env env)
        filename (logger_of a) = Some (DATA_LOGGER_START_OK, lg)" and "r = APP_CONTROL_OK" and "logger_of a' = lg"
      and "can_master_start_nodes (burst_env env) (tx_of a) = (e, acts, tx)"
    using assms(1)
    by (simp add: app_control_start_logging_def time_beacon_set_recording_def Let_def
        split: if_split_asm option.split_asm prod.split_asm) auto
  then show ?thesis using burst data_logger_start_state [OF lg] by simp
qed

lemma stop_frames:
  assumes "app_control_stop_logging True env a = (r, acts, a')" and "f \<in> set (accepted_frames None acts)"
  shows "r = APP_CONTROL_OK \<and> f = (CAN_ID_STOP, []) \<and> lg_state (logger_of a') = LOGGER_STOPPING"
proof -
  have burst: "f = (CAN_ID_STOP, [])" if "can_master_stop_nodes (burst_env env) tx = (e, acts, tx')" for tx e tx'
    using burst_commands [of None "map (burst_env env) [0..<CAN_COMMAND_REPEAT_COUNT]" CAN_ID_STOP ESP_OK tx] that assms(2)
    unfolding can_master_stop_nodes_def send_command_burst_def by auto
  have "acts \<noteq> []" using assms(2) by auto
  then obtain e tx where "r = APP_CONTROL_OK" and "lg_state (logger_of a') = LOGGER_STOPPING"
      and "can_master_stop_nodes (burst_env env) (tx_of a) = (e, acts, tx)"
    using assms(1)
    by (simp add: app_control_stop_logging_def time_beacon_set_recording_def data_logger_stop_def Let_def
        split: if_split_asm prod.split_asm) auto
  then show ?thesis using burst by simp
qed

lemma command_heard:
  "heard (i, []) = \<lparr>msg_id = i, msg_dlc = 0, msg_data = 0\<rparr>"
  by (simp add: heard_def received_message_def)

text \<open>
  C6: a session command reaches the nodes.  If starting or stopping a session put a frame on the bus
  at all, the operation reported success; and a node that hears the frame then samples exactly if
  the logger is recording, reports the state it is in, and answers, while its bus is up, with
  exactly one state frame naming that state and the command.
\<close>
theorem commands_reach_nodes:
  assumes "session_command Q pd env a (r, acts, a')" and "f \<in> set (accepted_frames None acts)"
    and "node_consistent n" and "dispatch me Q' b nenv (heard f) n = (calls, n')" and "bus_up (report_env nenv)"
  shows "r = APP_CONTROL_OK
    \<and> (active (node_sampler n') \<longleftrightarrow> lg_state (logger_of a') = LOGGER_RUNNING)
    \<and> (current_state n' = NODE_STATE_ACTIVE \<longleftrightarrow> lg_state (logger_of a') = LOGGER_RUNNING)
    \<and> accepted_frames None calls = [state_frame me (current_state n')
        (if lg_state (logger_of a') = LOGGER_RUNNING then NODE_STATE_REASON_START else NODE_STATE_REASON_STOP) 0]"
proof -
  have sent: "r = APP_CONTROL_OK \<and> (f = (CAN_ID_START, []) \<and> lg_state (logger_of a') = LOGGER_RUNNING \<or>
      f = (CAN_ID_STOP, []) \<and> lg_state (logger_of a') = LOGGER_STOPPING)"
    using assms(1) start_frames [OF _ assms(2)] stop_frames [OF _ assms(2)] unfolding session_command_def by blast
  have ids: "CAN_ID_START \<noteq> CAN_ID_STOP" "CAN_ID_START \<noteq> CAN_ID_MASTER_TIME" "CAN_ID_STOP \<noteq> CAN_ID_MASTER_TIME"
    by (simp_all add: command_id_defs)
  have "node_consistent n'" using dispatch_consistent [OF assms(3), of me Q' b nenv "heard f"] assms(4) by simp
  moreover have "current_state n' = (if lg_state (logger_of a') = LOGGER_RUNNING then NODE_STATE_ACTIVE else NODE_STATE_IDLE)"
    using dispatch_state [of me Q' b nenv "heard f" n] assms(4) sent ids
    by (auto simp: demanded_state_def is_beacon_def command_heard targets_this_node_def)
  moreover have "accepted_frames None calls = acknowledgement me (heard f) (current_state n)"
    using commands_acknowledged [OF assms(5), of me Q' b "heard f" n] assms(4) by simp
  moreover have "acknowledgement me (heard (CAN_ID_START, [])) st = [state_frame me NODE_STATE_ACTIVE NODE_STATE_REASON_START 0]"
    "acknowledgement me (heard (CAN_ID_STOP, [])) st = [state_frame me NODE_STATE_IDLE NODE_STATE_REASON_STOP 0]" for st
    using ids by (simp_all add: acknowledgement_def is_beacon_def command_heard targets_this_node_def)
  ultimately show ?thesis using sent by (elim conjE disjE) (simp_all add: node_consistent_def)
qed

theorem commands_reach_nodes_witness:
  "\<not> active (node_sampler (snd (dispatch 6 (list_queue 64) plain_build quick_env (heard (CAN_ID_STOP, [])) running_node)))
   \<and> lg_state (logger_of (snd (snd (app_control_stop_logging True
        \<lparr>lifecycle_taken = True, app_now = 0, burst_env = (\<lambda>j. good_bus), name_started = 0, name_readings = [],
         logger_start_env = smooth_start\<rparr>
        ((app_boot ([] :: queued_sample list) ([] :: can_message list) Map.empty)\<lparr>logger_of := fresh_session\<rparr>))))) \<noteq> LOGGER_RUNNING"
proof -
  let ?env = "\<lparr>lifecycle_taken = True, app_now = 0, burst_env = (\<lambda>j. good_bus), name_started = 0, name_readings = [],
         logger_start_env = smooth_start\<rparr>"
  let ?a = "(app_boot ([] :: queued_sample list) ([] :: can_message list) Map.empty)\<lparr>logger_of := fresh_session\<rparr>"
  let ?d = "dispatch 6 (list_queue 64) plain_build quick_env (heard (CAN_ID_STOP, [])) running_node"
  obtain r acts a' where st: "app_control_stop_logging True ?env ?a = (r, acts, a')" by (metis prod_cases3)
  have run: "lg_state fresh_session = LOGGER_RUNNING" using start_at_card [OF fresh_session_start(1,2)] by auto
  have "fst (can_master_stop_nodes (\<lambda>j. good_bus) tx) = ESP_OK" for tx unfolding good_bus_def by (rule stop_burst_works)
  then have frames: "accepted_frames None (fst (snd (can_master_stop_nodes (\<lambda>j. good_bus) tx))) = replicate 5 (CAN_ID_STOP, [])" for tx
    using stop_burst_frames(2) by (simp add: CAN_COMMAND_REPEAT_COUNT_def)
  have f: "(CAN_ID_STOP, []) \<in> set (accepted_frames None acts)"
    using st frames run by (auto simp: app_control_stop_logging_def app_boot_def data_logger_stop_def
        time_beacon_set_recording_def Let_def split_beta)
  have "session_command (list_queue LOG_QUEUE_LENGTH) (\<lambda>ms. word_of_nat ms) ?env ?a (r, acts, a')"
    using st by (simp add: session_command_def)
  from commands_reach_nodes [OF this f running_node_consistent surjective_pairing, of quick_env 6 "list_queue 64" plain_build]
  have "active (node_sampler (snd ?d)) \<longleftrightarrow> lg_state (logger_of a') = LOGGER_RUNNING" by (simp add: quick_env_def)
  then show ?thesis using stop_frames [OF st f] by (simp add: st)
qed

end
