(* ===== verification/Node_Boot.thy ===== *)
theory Node_Boot
  imports Sensor_Registry
begin

text \<open>
  The start of a sensor node, \<open>app_main\<close> of \<open>sensor-node/src/main.c\<close>, the loop of \<open>sample_task\<close> around the
  rounds of \<open>Sampler\<close> and \<open>Sensor_Registry\<close>, and the bench mode \<open>SENSOR_SERIAL_TEST\<close>, in which
  \<open>send_task\<close> prints the samples instead of sending them.
\<close>

subsection \<open>The loop of the sampling task\<close>

definition sampler_is_active :: "'q sampler \<Rightarrow> bool" where
  "sampler_is_active s = active s"

text \<open>One turn of the loop in a periodic build: the ticks it then sleeps.\<close>

definition sample_task_turn ::
  "('q, sample) queue_api \<Rightarrow> (nat \<Rightarrow> u32) \<Rightarrow> int \<Rightarrow> int \<Rightarrow> (nat \<Rightarrow> int) \<Rightarrow> 'd driver \<Rightarrow> 'q sampler \<Rightarrow> 'd \<Rightarrow>
   (u32 \<times> 'q sampler \<times> 'd) option" where
  "sample_task_turn Q pd now later stamp read s d =
     (if \<not> active s then Some (pd 20, s, d)
      else case sample_round Q now stamp read s d of
        None \<Rightarrow> None
      | Some (next_due, s, d) \<Rightarrow> Some (sleep_ticks pd next_due later, s, d))"

text \<open>
  In the engine build: the ticks it sleeps, if it does (the wait is inside \<open>engine_rpm_next_event\<close>
  otherwise), and the lost sparks it reports.
\<close>

definition engine_task_turn ::
  "bool \<Rightarrow> ('q, sample) queue_api \<Rightarrow> ('e, spark_capture) queue_api \<Rightarrow> (nat \<Rightarrow> u32) \<Rightarrow> int \<Rightarrow> int \<Rightarrow>
   'q sampler \<Rightarrow> 'e engine \<Rightarrow> u32 option \<times> u32 \<times> 'q sampler \<times> 'e engine" where
  "engine_task_turn serial_test Q E pd off now s c =
     (if \<not> active s then (Some (pd 20), 0, s, c)
      else case engine_round serial_test Q E off now s c of (lost, s, c) \<Rightarrow> (None, lost, s, c))"

text \<open>
  With tick lengths for which 20 ms are at least one tick, the periodic task gives up the processor
  at every turn, and while the sampler is off it reads no sensor.
\<close>

lemma sample_task_sleeps:
  assumes "\<forall>x\<in>set (sensors s). sn_period_us x \<noteq> 0" and "pd 20 \<noteq> 0"
  shows "\<exists>ticks s' d'. sample_task_turn Q pd now later stamp read s d = Some (ticks, s', d') \<and> ticks \<noteq> 0
    \<and> (\<not> sampler_is_active s \<longrightarrow> s' = s \<and> d' = d)"
proof -
  obtain nd s1 d1 where "sample_round Q now stamp read s d = Some (nd, s1, d1)"
    using sample_round_spec [OF assms(1), of Q now stamp read d] by blast
  moreover have "sleep_ticks pd nd later \<noteq> 0" by (simp add: sleep_ticks_def Let_def word_gt_0)
  ultimately show ?thesis using assms(2) by (cases "active s") (simp_all add: sample_task_turn_def sampler_is_active_def)
qed

subsection \<open>Bench output\<close>

definition SERIAL_LOG_SLOT_COUNT :: nat where "SERIAL_LOG_SLOT_COUNT = 16"

record log_slot =
  slot_name :: "string option"
  next_log_us :: int

definition no_slots :: "log_slot list" where
  "no_slots = replicate SERIAL_LOG_SLOT_COUNT \<lparr>slot_name = None, next_log_us = 0\<rparr>"

datatype serial_line = Sensor_Line sample | No_Slot string

text \<open>The search for the first slot that is free or the sensor's own.\<close>

fun find_slot :: "string \<Rightarrow> log_slot list \<Rightarrow> nat" where
  "find_slot name [] = 0"
| "find_slot name (x # xs) = (if slot_name x \<noteq> None \<and> slot_name x \<noteq> Some name then Suc (find_slot name xs) else 0)"

text \<open>What \<open>send_task\<close> does with a sample it received while the sampler is active.\<close>

definition serial_output :: "int \<Rightarrow> sample \<Rightarrow> log_slot list \<Rightarrow> serial_line option \<times> log_slot list" where
  "serial_output now_us sample table =
     (let i = find_slot (sa_sensor_name sample) table
      in if i = SERIAL_LOG_SLOT_COUNT then (Some (No_Slot (sa_sensor_name sample)), table)
         else
           let table = (if slot_name (table ! i) = None
                        then table[i := (table ! i)\<lparr>slot_name := Some (sa_sensor_name sample)\<rparr>] else table)
           in if now_us \<ge> next_log_us (table ! i)
              then (Some (Sensor_Line sample), table[i := (table ! i)\<lparr>next_log_us := now_us + 500000\<rparr>])
              else (None, table))"

definition serial_send ::
  "('q, sample) queue_api \<Rightarrow> int \<Rightarrow> log_slot list \<Rightarrow> 'q sampler \<Rightarrow> serial_line option \<times> log_slot list \<times> 'q sampler" where
  "serial_send Q now_us table s =
     (case xQueueReceive Q (sample_queue s) of
        None \<Rightarrow> (None, table, s)
      | Some (sample, q) \<Rightarrow>
          let s = s\<lparr>sample_queue := q\<rparr>
          in if \<not> active s then (None, table, s)
             else (case serial_output now_us sample table of (line, table) \<Rightarrow> (line, table, s)))"

text \<open>The lines of a bench run with their times.\<close>

fun serial_run :: "(int \<times> sample) list \<Rightarrow> log_slot list \<Rightarrow> (int \<times> sample) list" where
  "serial_run [] table = []"
| "serial_run ((now, x) # xs) table =
     (case serial_output now x table of (line, table) \<Rightarrow>
        (case line of Some (Sensor_Line y) \<Rightarrow> [(now, y)] | _ \<Rightarrow> []) @ serial_run xs table)"

text \<open>The table as an association list: table are filled from the front, one per name.\<close>

definition slot_table :: "(string \<times> int) list \<Rightarrow> nat \<Rightarrow> log_slot list" where
  "slot_table al k = map (\<lambda>(name, next). \<lparr>slot_name = Some name, next_log_us = next\<rparr>) al
     @ replicate k \<lparr>slot_name = None, next_log_us = 0\<rparr>"

lemma no_slots_table: "no_slots = slot_table [] SERIAL_LOG_SLOT_COUNT"
  by (simp add: no_slots_def slot_table_def)

lemma find_slot_table:
  "find_slot name (slot_table al k) = length (takeWhile (\<lambda>(n, t). n \<noteq> name) al)"
  by (induction al) (cases k; auto simp: slot_table_def)+

lemma serial_output_known:
  assumes "length al + k = SERIAL_LOG_SLOT_COUNT" and "al = a1 @ (sa_sensor_name x, t) # a2"
    and "sa_sensor_name x \<notin> fst ` set a1"
  shows "serial_output now x (slot_table al k) =
     (if now \<ge> t then (Some (Sensor_Line x), slot_table (a1 @ (sa_sensor_name x, now + 500000) # a2) k)
      else (None, slot_table al k))"
proof -
  have "takeWhile (\<lambda>(n, t). n \<noteq> sa_sensor_name x) al = a1"
    using assms(2,3) by (force intro!: takeWhile_append2 [THEN trans])
  then have i: "find_slot (sa_sensor_name x) (slot_table al k) = length a1" by (simp add: find_slot_table)
  have "length a1 \<noteq> SERIAL_LOG_SLOT_COUNT" using assms(1,2) by simp
  then show ?thesis
    by (simp add: serial_output_def i Let_def) (simp add: assms(2) slot_table_def nth_append list_update_append)
qed

lemma serial_output_new:
  assumes "length al + k = SERIAL_LOG_SLOT_COUNT" and "sa_sensor_name x \<notin> fst ` set al"
  shows "serial_output now x (slot_table al k) =
     (if k = 0 then (Some (No_Slot (sa_sensor_name x)), slot_table al k)
      else if now \<ge> 0 then (Some (Sensor_Line x), slot_table (al @ [(sa_sensor_name x, now + 500000)]) (k - 1))
      else (None, slot_table (al @ [(sa_sensor_name x, 0)]) (k - 1)))"
proof -
  have tw: "takeWhile (\<lambda>(n, t). n \<noteq> sa_sensor_name x) al = al" using assms(2) by force
  have i: "find_slot (sa_sensor_name x) (slot_table al k) = length al" by (simp only: find_slot_table tw)
  show ?thesis
    unfolding serial_output_def i Let_def using assms(1)
    by (cases k; simp add: slot_table_def nth_append list_update_append)
qed

text \<open>Lines of one sensor are half a second apart and not before the time \<open>table\<close> holds for it.\<close>

definition spaced :: "(int \<times> sample) list \<Rightarrow> (string \<rightharpoonup> int) \<Rightarrow> bool" where
  "spaced lines table \<longleftrightarrow>
     sorted_wrt (\<lambda>(t, x) (u, y). sa_sensor_name x = sa_sensor_name y \<longrightarrow> t + 500000 \<le> u) lines \<and>
     (\<forall>(u, y) \<in> set lines. \<forall>v. table (sa_sensor_name y) = Some v \<longrightarrow> v \<le> u)"

lemma spaced_line:
  assumes "spaced lines (table(sa_sensor_name x \<mapsto> now + 500000))"
    and "\<forall>v. table (sa_sensor_name x) = Some v \<longrightarrow> v \<le> now"
  shows "spaced ((now, x) # lines) table"
proof -
  have later: "now + 500000 \<le> u" if "(u, y) \<in> set lines" "sa_sensor_name x = sa_sensor_name y" for u y
    using assms(1) that by (fastforce simp: spaced_def)
  have "v \<le> u" if "(u, y) \<in> set lines" "table (sa_sensor_name y) = Some v" for u y v
  proof (cases "sa_sensor_name x = sa_sensor_name y")
    case True
    then show ?thesis using later [OF that(1)] that(2) assms(2) by fastforce
  next
    case False
    then show ?thesis using assms(1) that by (fastforce simp: spaced_def)
  qed
  then show ?thesis using assms later by (auto simp: spaced_def)
qed

lemma spaced_forget:
  assumes "spaced lines (table(name \<mapsto> v))" and "table name = None"
  shows "spaced lines table"
proof -
  have "(table(name \<mapsto> v)) n = Some w" if "table n = Some w" for n w using that assms(2) by auto
  then show ?thesis using assms(1) unfolding spaced_def by blast
qed

lemma serial_run_throttled:
  assumes "length al + k = SERIAL_LOG_SLOT_COUNT" and "distinct (map fst al)"
  shows "spaced (serial_run xs (slot_table al k)) (map_of al)"
  using assms
proof (induction xs arbitrary: al k)
  case Nil
  then show ?case by (simp add: spaced_def)
next
  case (Cons p xs)
  obtain now x where p: "p = (now, x)" by fastforce
  show ?case
  proof (cases "sa_sensor_name x \<in> fst ` set al")
    case True
    then obtain t where "(sa_sensor_name x, t) \<in> set al" by auto
    then obtain a1 a2 where al: "al = a1 @ (sa_sensor_name x, t) # a2" by (metis split_list)
    with Cons.prems(2) have fresh: "sa_sensor_name x \<notin> fst ` set a1" by auto
    let ?al = "a1 @ (sa_sensor_name x, now + 500000) # a2"
    have "map_of a1 (sa_sensor_name x) = None" using fresh by (simp add: map_of_eq_None_iff)
    then have m: "map_of al (sa_sensor_name x) = Some t"
      "map_of ?al = (map_of al)(sa_sensor_name x \<mapsto> now + 500000)"
      using al by (auto simp: map_add_def fun_eq_iff split: option.split)
    have "length ?al + k = SERIAL_LOG_SLOT_COUNT" "distinct (map fst ?al)" using Cons.prems al by simp_all
    note IH = Cons.IH [OF this, unfolded m(2)] Cons.IH [OF Cons.prems]
    show ?thesis
      using IH spaced_line [OF IH(1)] m(1) by (simp add: p serial_output_known [OF Cons.prems(1) al fresh])
  next
    case False
    have none: "map_of al (sa_sensor_name x) = None" using False by (simp add: map_of_eq_None_iff)
    have m: "map_of (al @ [(sa_sensor_name x, n)]) = (map_of al)(sa_sensor_name x \<mapsto> n)" for n
      using none by (auto simp: map_add_def fun_eq_iff split: option.split)
    have IH: "spaced (serial_run xs (slot_table (al @ [(sa_sensor_name x, n)]) (k - 1))) ((map_of al)(sa_sensor_name x \<mapsto> n))"
      if "k \<noteq> 0" for n
      unfolding m [symmetric] by (rule Cons.IH) (use Cons.prems False that in auto)
    show ?thesis
      using Cons.IH [OF Cons.prems] spaced_line [OF IH] spaced_forget [OF IH none] none
      by (auto simp: p serial_output_new [OF Cons.prems(1) False])
  qed
qed

text \<open>
  The bench output is throttled per sensor: whatever the samples and their times, two lines of the same
  sensor are at least half a second apart.
\<close>

lemma bench_lines_throttled:
  "sorted_wrt (\<lambda>(t, x) (u, y). sa_sensor_name x = sa_sensor_name y \<longrightarrow> t + 500000 \<le> u) (serial_run xs no_slots)"
  using serial_run_throttled [of "[]" SERIAL_LOG_SLOT_COUNT xs] by (simp add: no_slots_table spaced_def)

subsection \<open>The main task\<close>

text \<open>\<open>sampler_init\<close> in the engine build.\<close>

definition engine_sampler_init :: "engine_init_env \<Rightarrow> bool \<Rightarrow> bool \<Rightarrow> bool \<Rightarrow> esp_err" where
  "engine_sampler_init env queue_ok send_ok sample_ok =
     (if init_engine_rpm env \<noteq> ESP_OK then init_engine_rpm env
      else if \<not> queue_ok then ESP_ERR_NO_MEM
      else if \<not> send_ok \<or> \<not> sample_ok then ESP_ERR_NO_MEM
      else ESP_OK)"

text \<open>What the start meets; \<open>nb_queue\<close> is the sample queue \<open>sampler_init\<close> creates.\<close>

record 'q node_boot_env =
  nb_queue :: 'q
  nb_now :: int
  nb_can :: init_env
  nb_reset_reason :: u8
  nb_report :: tx_env

text \<open>
  \<open>app_main\<close>: None for a restart.  \<open>init\<close> is the build's \<open>sampler_init\<close> on its drivers, \<open>early\<close> the
  messages the dispatch task, which \<open>can_node_init\<close> creates with the higher priority, handles
  before the main task reports the boot.
\<close>

definition node_app_main ::
  "bool \<Rightarrow> u8 \<Rightarrow> ('q, sample) queue_api \<Rightarrow> 'd build \<Rightarrow> ('d \<Rightarrow> esp_err \<times> 'd) \<Rightarrow> 'q node_boot_env \<Rightarrow>
   (node_env \<times> can_message) list \<Rightarrow> ('q, 'd) node \<Rightarrow> (tx_action list \<times> ('q, 'd) node) option" where
  "node_app_main serial_test me Q b init env early n =
     (case init (node_driver n) of
        (error, d) \<Rightarrow>
          if error \<noteq> ESP_OK then None
          else
            let n = n\<lparr>node_driver := d, node_sampler := (node_sampler n)\<lparr>sample_queue := nb_queue env\<rparr>\<rparr>
            in if serial_test then Some ([], handle_start Q b (nb_now env) n)
               else if can_node_init True (nb_can env) \<noteq> ESP_OK then None
               else
                 let (calls, n) = dispatch_run me Q b early (n\<lparr>reset_reason := nb_reset_reason env\<rparr>);
                     (calls', n) = can_node_report_state me (nb_report env) NODE_STATE_IDLE NODE_STATE_REASON_BOOT n
                 in Some (calls @ calls', n))"

text \<open>The static variables before \<open>app_main\<close>.\<close>

definition node_static :: "node_config \<Rightarrow> 'q \<Rightarrow> 'd \<Rightarrow> ('q, 'd) node" where
  "node_static cfg q0 d0 = \<lparr>current_state = NODE_STATE_IDLE, reset_reason = 0, node_tx = can_tx_boot,
     node_sampler = \<lparr>sample_queue = q0, sensors = sensor_registry cfg, active = False\<rparr>, node_driver = d0,
     master_offset_us = 0\<rparr>"

text \<open>The state the last of the messages demanded, if any did.\<close>

definition last_demand :: "u8 \<Rightarrow> (node_env \<times> can_message) list \<Rightarrow> node_state \<Rightarrow> node_state" where
  "last_demand me ms st =
     fold (\<lambda>(env, m) st. case demanded_state me m of None \<Rightarrow> st | Some st' \<Rightarrow> st') ms st"

lemma boot_main:
  assumes "node_app_main False me Q b init env early (node_static cfg q0 d0) = Some (calls, n)"
  shows "current_state n = NODE_STATE_IDLE
    \<and> (active (node_sampler n) \<longleftrightarrow> last_demand me early NODE_STATE_IDLE = NODE_STATE_ACTIVE)"
proof -
  let ?n0 = "(node_static cfg q0 d0)\<lparr>node_driver := snd (init d0),
      node_sampler := (node_sampler (node_static cfg q0 d0))\<lparr>sample_queue := nb_queue env\<rparr>, reset_reason := nb_reset_reason env\<rparr>"
  obtain calls1 n1 where r: "dispatch_run me Q b early ?n0 = (calls1, n1)" by fastforce
  have "node_consistent ?n0" by (simp add: node_consistent_def node_static_def)
  from dispatch_run_follows [OF this r]
  have "active (node_sampler n1) \<longleftrightarrow> last_demand me early NODE_STATE_IDLE = NODE_STATE_ACTIVE"
    by (simp add: last_demand_def node_static_def)
  moreover have "n = snd (can_node_report_state me (nb_report env) NODE_STATE_IDLE NODE_STATE_REASON_BOOT n1)"
    using assms r by (auto simp: node_app_main_def node_static_def Let_def split_beta split: if_splits)
  ultimately show ?thesis by (simp add: frame_simps)
qed

text \<open>Nothing demanded ACTIVE before the report: the node starts consistent, idle and silent but for its report.\<close>

lemma boot_consistent:
  assumes "node_app_main False me Q b init env early (node_static cfg q0 d0) = Some (calls, n)"
    and "last_demand me early NODE_STATE_IDLE = NODE_STATE_IDLE"
  shows "node_consistent n"
  using boot_main [OF assms(1)] assms(2) by (simp add: node_consistent_def)

text \<open>
  C29: a start that beats the boot report.  The dispatch task handles messages from the end of
  \<open>can_node_init\<close> on, but \<open>app_main\<close> then still reports (and stores) IDLE.  If the last demand
  handled in between was for ACTIVE, say a beacon of a running session after the node's reset,
  the node reports IDLE while its sampler runs, and no STOP and no idle beacon stops the sampler;
  the first message that demands ACTIVE repairs the node.
\<close>
theorem start_before_boot_report:
  assumes "node_app_main False me Q b init env early (node_static cfg q0 d0) = Some (calls, n1)"
    and "last_demand me early NODE_STATE_IDLE = NODE_STATE_ACTIVE"
    and "\<forall>(env, m)\<in>set ms. demanded_state me m \<noteq> Some NODE_STATE_ACTIVE"
    and "dispatch_run me Q b ms n1 = (calls', n2)"
    and "demanded_state me go = Some NODE_STATE_ACTIVE"
  shows "current_state n2 = NODE_STATE_IDLE \<and> active (node_sampler n2)
    \<and> node_consistent (snd (dispatch me Q b genv go n2))"
proof -
  have n1: "current_state n1 = NODE_STATE_IDLE \<and> active (node_sampler n1)"
    using boot_main [OF assms(1)] assms(2) by simp
  have other: "st = None \<or> st = Some NODE_STATE_IDLE" if "st \<noteq> Some NODE_STATE_ACTIVE" for st
    using that by (cases st; cases "the st") auto
  have "\<forall>(env, m)\<in>set ms. demanded_state me m = None \<or> demanded_state me m = Some (current_state n1)"
  proof
    fix em assume "em \<in> set ms"
    then show "case em of (env, m) \<Rightarrow> demanded_state me m = None \<or> demanded_state me m = Some (current_state n1)"
      using assms(3) n1 other [of "demanded_state me (snd em)"] by (cases em) auto
  qed
  from undemanded_run [OF this assms(4)] n1 have "current_state n2 = NODE_STATE_IDLE \<and> active (node_sampler n2)" by simp
  then show ?thesis using assms(5) by (simp add: node_consistent_def dispatch_state dispatch_sampler)
qed

definition boot_env_ok :: "sample list node_boot_env" where
  "boot_env_ok = \<lparr>nb_queue = [], nb_now = 0,
     nb_can = \<lparr>queue_created = True, mutex_created = True, new_node_result = ESP_OK, register_result = ESP_OK,
       enable_result = ESP_OK, recovery_task_created = True, dispatch_task_created = True\<rparr>,
     nb_reset_reason = 9, nb_report = good_bus\<rparr>"

theorem start_before_boot_report_witness:
  "\<exists>calls n1. node_app_main False 6 (list_queue 64) plain_build (\<lambda>d. (ESP_OK, d)) boot_env_ok
       [(\<lparr>beacon_local_us = 0, start_local_us = 5, report_env = good_bus\<rparr>, \<lparr>msg_id = CAN_ID_START, msg_dlc = 0, msg_data = 0\<rparr>)]
       (node_static (Periodic Adc_Config) [] ()) = Some (calls, n1)
   \<and> current_state (snd (dispatch_run 6 (list_queue 64) plain_build
       [(\<lparr>beacon_local_us = 0, start_local_us = 5, report_env = good_bus\<rparr>, \<lparr>msg_id = CAN_ID_STOP, msg_dlc = 0, msg_data = 0\<rparr>)] n1))
       = NODE_STATE_IDLE
   \<and> active (node_sampler (snd (dispatch_run 6 (list_queue 64) plain_build
       [(\<lparr>beacon_local_us = 0, start_local_us = 5, report_env = good_bus\<rparr>, \<lparr>msg_id = CAN_ID_STOP, msg_dlc = 0, msg_data = 0\<rparr>)] n1)))"
proof -
  let ?env = "\<lparr>beacon_local_us = 0, start_local_us = 5, report_env = good_bus\<rparr>"
  let ?go = "\<lparr>msg_id = CAN_ID_START, msg_dlc = 0, msg_data = 0\<rparr>" and ?stop = "\<lparr>msg_id = CAN_ID_STOP, msg_dlc = 0, msg_data = 0\<rparr>"
  have d: "demanded_state 6 ?go = Some NODE_STATE_ACTIVE" "demanded_state 6 ?stop = Some NODE_STATE_IDLE"
    by (simp_all add: demanded_state_def is_beacon_def targets_this_node_def command_id_defs)
  have "can_node_init True (nb_can boot_env_ok) = ESP_OK" by (simp add: boot_env_ok_def can_node_init_def)
  then obtain calls n1 where m: "node_app_main False 6 (list_queue 64) plain_build (\<lambda>d. (ESP_OK, d)) boot_env_ok [(?env, ?go)]
      (node_static (Periodic Adc_Config) [] ()) = Some (calls, n1)"
    by (simp del: dispatch_run.simps add: node_app_main_def Let_def split_beta)
  have a: "last_demand 6 [(?env, ?go)] NODE_STATE_IDLE = NODE_STATE_ACTIVE" by (simp add: last_demand_def d)
  have i: "\<forall>(env, m)\<in>set [(?env, ?stop)]. demanded_state 6 m \<noteq> Some NODE_STATE_ACTIVE" by (simp add: d)
  show ?thesis using start_before_boot_report [OF m a i surjective_pairing d(1)] m by blast
qed

end
