(* ===== verification/System.thy ===== *)
theory System
  imports Web_Server
begin

text \<open>
  The components together: from the frame of a sensor node to the file a browser downloads.
\<close>

text \<open>The message the master assembles from a node's sample frame.\<close>

lemma received_sample:
  "received_message i 8 (payload_bytes (pack_sample v t)) = \<lparr>msg_id = i, msg_dlc = 8, msg_data = pack_sample v t\<rparr>"
  by (simp add: received_message_def)

lemma csv_fields_of_sample:
  assumes "unat i < 2048" and "i \<noteq> 0x700" and "in_i32 v"
    and "fs = csv_fields k (record_words \<lparr>qs_message = \<lparr>msg_id = i, msg_dlc = 8, msg_data = pack_sample v t\<rparr>, qs_utc_ms = u\<rparr>) utc"
  shows "fs ! 1 = dec (unat i)" and "fs ! 5 = dec (unat t)" and "fs ! 7 = dec_int v"
proof -
  have "unat (record_id (ucast i)) = unat i" using record_id_field [of i] assms(1) by simp
  then have id: "record_id (ucast i) = i" by (simp add: word_unat_eq_iff)
  have "snprintf 32 (dec_int v) = dec_int v" using length_dec_i32 [OF assms(3)] by simp
  then show "fs ! 1 = dec (unat i)" "fs ! 5 = dec (unat t)" "fs ! 7 = dec_int v"
    using assms(2,3,4) by (simp_all add: csv_fields_def record_words_def id CAN_ID_GPS_SPEED_def Let_def)
qed

text \<open>
  C1: what the sensors measured is what the browser gets.  Let a session be started under a valid
  name and run to its end without a failing call, with any interleaving of samples and writer
  phases.  Then the CSV download of that name succeeds and holds exactly one row for every sample
  the logger accepted, in order, and the row of a sample whose frame a node sent with value
  \<open>v\<close> and time stamp \<open>t\<close> shows its identifier, \<open>t\<close> and \<open>v\<close>.
\<close>
theorem samples_reach_the_browser:
  assumes "rtos_queue Q LOG_QUEUE_LENGTH items" and "data_logger_valid_filename (Some name)"
    and "start_at Q env (sdcard_path name) lg = (DATA_LOGGER_START_OK, lg0)" and "block lg = []"
    and "list_all fault_free evs" and "lg' = log_run Q pd evs lg0" and "acc = accepted_run Q pd evs lg0"
    and "lg_state lg' = LOGGER_IDLE"
    and "list_all (\<lambda>s. in_i64 (qs_utc_ms s)) acc" and "16 * length acc < 10 ^ 20"
    and "rq_query request 128 = Query query" and "key query ''name'' 45 = Some name" and "key query ''format'' 8 = Some ''csv''"
    and "download_mutex denv" and "file_opens denv" and "utc_opens denv"
    and "16 * length acc \<le> file_readable denv" and "8 * length acc \<le> utc_readable denv"
  shows "rs_status (download_handler (\<lambda>n. True) key denv request lg') = ''200 OK''
    \<and> rs_sent (download_handler (\<lambda>n. True) key denv request lg')
    \<and> rs_body (download_handler (\<lambda>n. True) key denv request lg') =
        Texts (csv_header # map (\<lambda>i. csv_row i (record_words (acc ! i)) (max 0 (qs_utc_ms (acc ! i)))) [0..<length acc])
    \<and> (\<forall>i < length acc. \<forall>can_id v t. unat can_id < 2048 \<and> can_id \<noteq> CAN_ID_GPS_SPEED \<and> in_i32 v
         \<and> qs_message (acc ! i) = received_message can_id 8 (payload_bytes (pack_sample v t)) \<longrightarrow>
         (let fs = csv_fields i (record_words (acc ! i)) (max 0 (qs_utc_ms (acc ! i)))
          in csv_row i (record_words (acc ! i)) (max 0 (qs_utc_ms (acc ! i))) = comma_separated fs @ crlf
           \<and> fs ! 1 = dec (unat can_id) \<and> fs ! 5 = dec (unat t) \<and> fs ! 7 = dec_int v))"
proof -
  have path: "sdcard_path name = ''/sdcard/'' @ name" "bin_path (sdcard_path name)"
    using valid_filename_paths [OF assms(2)] by auto
  have i: "invar items [] [] lg0" and p: "log_path lg0 = sdcard_path name"
    using invar_start [OF assms(1,3) path(2) assms(4)] by auto
  have "complete items acc lg'"
    using complete_run [OF assms(1) complete_start [OF assms(1,3) path(2) assms(4)] assms(5)] assms(6,7) by simp
  then have c: "contents lg' (recording acc) (companion acc)" "session lg'" using assms(8) by (auto simp: complete_def)
  have "log_path lg' = sdcard_path name" using run_paths [OF i assms(1)] p assms(6) by simp
  then have card: "sd_card lg' (''/sdcard/'' @ name) = Some (Regular_File (recording acc))"
    "sd_card lg' (''/sdcard/'' @ name @ ''.utc'') = Some (Regular_File (companion acc))"
    using c path by (auto simp: contents_def session_def)
  obtain stem where n: "name = stem @ ''.bin''" "length stem \<le> 40" using assms(2) by (auto simp: valid_filename_iff)
  have sn: "snprintf 96 (''/sdcard/'' @ name) = ''/sdcard/'' @ name"
    "snprintf 104 (''/sdcard/'' @ name @ ''.utc'') = ''/sdcard/'' @ name @ ''.utc''" using n by simp_all
  have csv: "stream_csv (\<lambda>n. True) (recording acc) False (Some (companion acc)) =
      (True, csv_header # map (\<lambda>i. csv_row i (record_words (acc ! i)) (max 0 (qs_utc_ms (acc ! i)))) [0..<length acc])"
    using stream_csv_eq [of "recording acc" "map record_words acc" "\<lambda>n. True" False "Some (companion acc)"] assms(9,10)
    by (simp add: fread_recording delivered_all read_companion csv_rows_def)
  have idle: "\<not> (lg_state lg' \<noteq> LOGGER_IDLE \<and> name = base_name (data_logger_path lg'))" using assms(8) by simp
  have response: "download_handler (\<lambda>n. True) key denv request lg' =
      \<lparr>rs_status = ''200 OK'', rs_type = ''text/csv; charset=utf-8'',
       rs_headers = [attachment (csv_attachment_name name False)],
       rs_body = Texts (csv_header # map (\<lambda>i. csv_row i (record_words (acc ! i)) (max 0 (qs_utc_ms (acc ! i)))) [0..<length acc]),
       rs_sent = True\<rparr>"
    using assms(2,8,11-18) csv unfolding download_handler_def
    by (simp add: Let_def DATA_LOGGER_FILENAME_MAX_def sn card open_read_def del: snprintf_fits append.simps)
  show ?thesis
  proof (intro conjI allI impI)
    fix k can_id v t
    assume "k < length acc" and m: "unat can_id < 2048 \<and> can_id \<noteq> CAN_ID_GPS_SPEED \<and> in_i32 v
         \<and> qs_message (acc ! k) = received_message can_id 8 (payload_bytes (pack_sample v t))"
    then have "acc ! k = \<lparr>qs_message = \<lparr>msg_id = can_id, msg_dlc = 8, msg_data = pack_sample v t\<rparr>, qs_utc_ms = qs_utc_ms (acc ! k)\<rparr>"
      by (simp add: received_sample)
    then show "let fs = csv_fields k (record_words (acc ! k)) (max 0 (qs_utc_ms (acc ! k)))
          in csv_row k (record_words (acc ! k)) (max 0 (qs_utc_ms (acc ! k))) = comma_separated fs @ crlf
           \<and> fs ! 1 = dec (unat can_id) \<and> fs ! 5 = dec (unat t) \<and> fs ! 7 = dec_int v"
      using m csv_fields_of_sample [of can_id v] by (simp add: Let_def csv_row_def CAN_ID_GPS_SPEED_def) metis
  qed (simp_all add: response)
qed

theorem samples_reach_the_browser_witness:
  "let Q = list_queue LOG_QUEUE_LENGTH; w = \<lparr>write_mutex = True, log_accepted = 1600, utc_accepted = 800, utc_flush_ok = True\<rparr>;
       lg = log_run Q (\<lambda>ms. word_of_nat ms)
         [Enqueue (received_message 0x0B1 8 (payload_bytes (pack_sample 250 1000))) 1700000000000, Stop, Receive w, Finish w True]
         fresh_session
   in rs_body (download_handler (\<lambda>n. True) (\<lambda>q k n. if k = ''name'' then Some ''a.bin'' else Some ''csv'')
        \<lparr>download_mutex = True, file_opens = True, utc_opens = True, file_readable = 100, utc_readable = 100, buffer_allocated = True\<rparr>
        \<lparr>rq_uri = ''/api/logs/download'', rq_query = \<lambda>n. Query ''name=a.bin&format=csv''\<rparr> lg) =
      Texts [csv_header, csv_row 0 (0x0B1, pack_sample 250 1000) 1700000000000]"
proof -
  let ?Q = "list_queue LOG_QUEUE_LENGTH :: (queued_sample list, queued_sample) queue_api"
  let ?w = "\<lparr>write_mutex = True, log_accepted = 1600, utc_accepted = 800, utc_flush_ok = True\<rparr>"
  let ?m = "received_message 0x0B1 8 (payload_bytes (pack_sample 250 1000))"
  let ?evs = "[Enqueue ?m 1700000000000, Stop, Receive ?w, Finish ?w True]"
  let ?lg = "log_run ?Q (\<lambda>ms. word_of_nat ms) ?evs fresh_session"
  let ?denv = "\<lparr>download_mutex = True, file_opens = True, utc_opens = True, file_readable = 100, utc_readable = 100, buffer_allocated = True\<rparr>"
  have p: "sdcard_path ''a.bin'' = ''/sdcard/a.bin''" by (simp add: sdcard_path_def LOG_PATH_LENGTH_def)
  have v: "data_logger_valid_filename (Some ''a.bin'')"
    by (simp add: data_logger_valid_filename_def DATA_LOGGER_FILENAME_MAX_def char_class_defs)
  have f: "lg_state fresh_session = LOGGER_RUNNING \<and> log_queue fresh_session = [] \<and> block fresh_session = []"
    using start_at_card [OF fresh_session_start(1,2)] fresh_session_start(3)
    by (auto simp: list_queue_def fresh_session_def start_at_def Let_def)
  have acc: "accepted_run ?Q (\<lambda>ms. word_of_nat ms) ?evs fresh_session = [\<lparr>qs_message = ?m, qs_utc_ms = 1700000000000\<rparr>]"
    using f by (simp add: accepted_def data_logger_enqueue_def enqueue_check_def enqueue_send_def list_queue_def
        LOG_QUEUE_LENGTH_def data_logger_stop_def)
  have idle: "lg_state ?lg = LOGGER_IDLE"
    using f by (simp add: data_logger_enqueue_def enqueue_check_def enqueue_send_def list_queue_def LOG_QUEUE_LENGTH_def
        data_logger_stop_def writer_receive_def writer_finish_def LOG_RECORDS_PER_BLOCK_def Let_def)
  note facts = samples_reach_the_browser [OF listq.rtos_queue_axioms v fresh_session_start(1) [folded p] fresh_session_start(3)
      _ refl refl idle, unfolded acc]
  let ?s = "\<lparr>qs_message = ?m, qs_utc_ms = 1700000000000\<rparr>"
  have "rs_body (download_handler (\<lambda>n. True) (\<lambda>q k n. if k = ''name'' then Some ''a.bin'' else Some ''csv'') ?denv
        \<lparr>rq_uri = ''/api/logs/download'', rq_query = \<lambda>n. Query ''name=a.bin&format=csv''\<rparr> ?lg) =
      Texts (csv_header # map (\<lambda>i. csv_row i (record_words ([?s] ! i)) (max 0 (qs_utc_ms ([?s] ! i)))) [0..<length [?s]])"
    by (rule facts [THEN conjunct2, THEN conjunct2, THEN conjunct1]) (simp_all add: full_write_def in_i64_def)
  then show ?thesis by (simp add: Let_def record_words_def received_sample)
qed

end
