(* ===== verification/C_Console.thy ===== *)
theory C_Console
  imports C_Format
begin

text \<open>
  The parts of the C library the serial consoles of the simulators use: \<open>fgets\<close>, \<open>strtok_r\<close>,
  \<open>isspace\<close>, \<open>strtol\<close> and \<open>strtoul\<close> in base 10 with the 32-bit \<open>long\<close> of the ESP32-C3.  Texts
  hold no NUL character, as \<open>fgets\<close> delivers C strings; NULL is None.
\<close>

definition char_isspace :: "char \<Rightarrow> bool" where
  "char_isspace c \<longleftrightarrow> (of_char c :: nat) = 32 \<or> 9 \<le> (of_char c :: nat) \<and> (of_char c :: nat) \<le> 13"

definition skip_space :: "string \<Rightarrow> string" where
  "skip_space s = dropWhile char_isspace s"

text \<open>
  \<open>fgets\<close> with a buffer of \<open>n\<close> bytes takes the input up to and with the first newline, at most
  \<open>n - 1\<close> characters; what does not fit stays for the next call.  None at the end of the input.
\<close>

definition fgets :: "nat \<Rightarrow> string \<Rightarrow> (string \<times> string) option" where
  "fgets n input =
     (if input = [] then None
      else
        let k = min (n - 1) (length (takeWhile (\<lambda>c. c \<noteq> CHR 0x0A) input) + 1)
        in Some (take k input, drop k input))"

text \<open>One call of \<open>strtok_r\<close>: the next token and the text the following call continues with.\<close>

definition strtok :: "string \<Rightarrow> string \<Rightarrow> string option \<times> string" where
  "strtok delims s =
     (let s = dropWhile (\<lambda>c. c \<in> set delims) s
      in if s = [] then (None, [])
         else (Some (takeWhile (\<lambda>c. c \<notin> set delims) s),
               drop 1 (dropWhile (\<lambda>c. c \<notin> set delims) s)))"

text \<open>The optional sign of a number.\<close>

definition sign_of :: "string \<Rightarrow> bool \<times> string" where
  "sign_of s = (case s of
       [] \<Rightarrow> (False, [])
     | c # cs \<Rightarrow> if c = CHR ''-'' then (True, cs) else if c = CHR ''+'' then (False, cs) else (False, s))"

text \<open>
  The value and the text at \<open>*end\<close>.  Without digits the value is 0 and \<open>*end\<close> is the whole text;
  a value out of range saturates.
\<close>

definition strtol10 :: "string \<Rightarrow> int \<times> string" where
  "strtol10 s =
     (let (negative, digits) = sign_of (skip_space s);
          n = int (dec_value (takeWhile char_isdigit digits));
          v = (if negative then - n else n)
      in if takeWhile char_isdigit digits = [] then (0, s)
         else (max (- (2 ^ 31)) (min (2 ^ 31 - 1) v), dropWhile char_isdigit digits))"

text \<open>\<open>strtoul\<close> accepts a sign: a negated value wraps.\<close>

definition strtoul10 :: "string \<Rightarrow> u32 \<times> string" where
  "strtoul10 s =
     (let (negative, digits) = sign_of (skip_space s);
          n = dec_value (takeWhile char_isdigit digits)
      in if takeWhile char_isdigit digits = [] then (0, s)
         else (if 2 ^ 32 \<le> n then 2 ^ 32 - 1 else if negative then - word_of_nat n else word_of_nat n,
               dropWhile char_isdigit digits))"

subsection \<open>Facts\<close>

lemma fgets_shorter:
  assumes "fgets n input = Some (line, rest)" and "1 < n"
  shows "length rest < length input"
  using assms by (auto simp: fgets_def Let_def split: if_splits)

text \<open>\<open>fgets\<close> neither loses nor invents characters, and never overruns the buffer.\<close>

lemma fgets_exact:
  assumes "fgets n input = Some (line, rest)" and "0 < n"
  shows "line @ rest = input" and "length line < n"
  using assms by (auto simp: fgets_def Let_def split: if_splits)

lemma dec_digits: "takeWhile char_isdigit (dec n @ rest) = dec n @ takeWhile char_isdigit rest"
    "dropWhile char_isdigit (dec n @ rest) = dropWhile char_isdigit rest"
  using set_dec_isdigit [of n] by simp_all

lemma dec_not_Nil [simp]: "dec n \<noteq> []"
  by (subst dec.simps) simp

lemma isdigit_not_space: "char_isdigit c \<Longrightarrow> \<not> char_isspace c \<and> c \<noteq> CHR ''-'' \<and> c \<noteq> CHR ''+''"
  by (auto simp: char_isdigit_def char_isspace_def)

lemma dec_start:
  obtains c cs where "dec n = c # cs" and "char_isdigit c"
  using set_dec_isdigit [of n] by (cases "dec n") auto

lemma skip_space_dec [simp]: "skip_space (dec n @ rest) = dec n @ rest"
  by (rule dec_start [of n]) (simp add: skip_space_def isdigit_not_space)

lemma sign_of_dec [simp]: "sign_of (dec n @ rest) = (False, dec n @ rest)"
  by (rule dec_start [of n]) (auto simp: sign_of_def dest: isdigit_not_space)

text \<open>A printed number in range reads back.\<close>

lemma strtol10_dec_int:
  assumes "in_i32 v" and "takeWhile char_isdigit rest = []"
  shows "strtol10 (dec_int v @ rest) = (v, rest)"
proof -
  have rest: "dropWhile char_isdigit rest = rest"
    using assms(2) takeWhile_dropWhile_id [of char_isdigit rest] by simp
  show ?thesis
  proof (cases "v < 0")
    case True
    then have "dec_int v @ rest = CHR ''-'' # (dec (nat (- v)) @ rest)" by (simp add: dec_int_def)
    moreover have "skip_space (CHR ''-'' # s) = CHR ''-'' # s" for s
      by (simp add: skip_space_def char_isspace_def)
    ultimately show ?thesis
      using assms rest True by (simp add: strtol10_def sign_of_def dec_digits in_i32_def)
  next
    case False
    then have "dec_int v = dec (nat v)" by (simp add: dec_int_def)
    then show ?thesis
      using assms rest False by (simp add: strtol10_def dec_digits in_i32_def)
  qed
qed

lemma strtoul10_dec:
  assumes "n < 2 ^ 32" and "takeWhile char_isdigit rest = []"
  shows "strtoul10 (dec n @ rest) = (word_of_nat n, rest)"
  using assms takeWhile_dropWhile_id [of char_isdigit rest]
  by (simp add: strtoul10_def dec_digits)

end
