(* ===== verification/Wheel_Simulator.thy ===== *)
theory Wheel_Simulator
  imports C_Console Bearing_Encoder
begin

text \<open>
  The bearing simulator of \<open>simulators/wheel-rpm/src/main.c\<close>: the timer interrupt that plays
  quadrature edges, the console commands and the sweep task, and the bench on which it drives the
  bearing node.  The GPIO and timer drivers only take levels and alarm times; the critical
  sections are the atomic steps.
\<close>

definition PULSES_PER_REVOLUTION :: u64 where "PULSES_PER_REVOLUTION = 32"
definition COUNTS_PER_REVOLUTION :: u64 where "COUNTS_PER_REVOLUTION = PULSES_PER_REVOLUTION * 4"
definition DEFAULT_RPM :: int where "DEFAULT_RPM = 500"
definition MAX_ABSOLUTE_RPM :: int where "MAX_ABSOLUTE_RPM = 3000"

record encoder_state =
  enc_rpm :: int
  absolute_rpm :: u32
  direction :: int
  state_index :: u8
  interval_denominator :: u64
  fractional_accumulator :: u64

record sweep_state =
  sweep_active :: bool
  sweep_generation :: u32
  sweep_start :: int
  sweep_end :: int
  sweep_increment :: int
  sweep_dwell_ms :: u32

record wheel =
  encoder_of :: encoder_state
  sweep_of :: sweep_state
  pin_a :: bool
  pin_b :: bool

definition quadrature_states :: "u8 list" where
  "quadrature_states = [0, 1, 3, 2]"

definition wheel_boot :: wheel where
  "wheel_boot = \<lparr>encoder_of = \<lparr>enc_rpm = DEFAULT_RPM, absolute_rpm = word_of_int DEFAULT_RPM, direction = 1,
       state_index = 0, interval_denominator = 0, fractional_accumulator = 0\<rparr>,
     sweep_of = \<lparr>sweep_active = False, sweep_generation = 0, sweep_start = 0, sweep_end = 0,
       sweep_increment = 0, sweep_dwell_ms = 0\<rparr>,
     pin_a = False, pin_b = False\<rparr>"

subsection \<open>Edges\<close>

definition write_quadrature_state :: "u8 \<Rightarrow> wheel \<Rightarrow> wheel" where
  "write_quadrature_state index w =
     (let state = quadrature_states ! unat (index AND 3)
      in w\<lparr>pin_a := (drop_bit 1 state AND 1 \<noteq> 0), pin_b := (state AND 1 \<noteq> 0)\<rparr>)"

definition next_interval_locked :: "encoder_state \<Rightarrow> u32 \<times> encoder_state" where
  "next_interval_locked e =
     (if interval_denominator e = 0 then (100000, e)
      else
        let base = 60000000 div interval_denominator e;
            remainder = 60000000 mod interval_denominator e;
            e = e\<lparr>fractional_accumulator := fractional_accumulator e + remainder\<rparr>;
            (base, e) =
              (if fractional_accumulator e \<ge> interval_denominator e
               then (base + 1, e\<lparr>fractional_accumulator := fractional_accumulator e - interval_denominator e\<rparr>)
               else (base, e))
        in (if base \<noteq> 0 then ucast base else 1, e))"

text \<open>The next alarm and the new state; \<open>alarm_value\<close> is the alarm that fired.\<close>

definition edge_alarm_callback :: "u64 \<Rightarrow> wheel \<Rightarrow> u64 \<times> wheel" where
  "edge_alarm_callback alarm_value w =
     (let e = encoder_of w;
          e = (if absolute_rpm e \<noteq> 0
               then e\<lparr>state_index := word_of_int ((uint (state_index e) + direction e + 4) AND 3)\<rparr> else e);
          index = state_index e;
          (interval, e) = next_interval_locked e
      in (alarm_value + ucast interval, write_quadrature_state index (w\<lparr>encoder_of := e\<rparr>)))"

record wheel_init_env =
  pins_result :: esp_err
  new_timer_result :: esp_err
  callbacks_result :: esp_err
  timer_enable_result :: esp_err
  alarm_result :: esp_err
  timer_start_result :: esp_err

definition init_outputs :: "wheel_init_env \<Rightarrow> wheel \<Rightarrow> esp_err \<times> wheel" where
  "init_outputs env w =
     (if pins_result env \<noteq> ESP_OK then (pins_result env, w) else (ESP_OK, write_quadrature_state 0 w))"

text \<open>The first alarm is set when the call that sets it is reached.\<close>

definition init_edge_timer :: "wheel_init_env \<Rightarrow> esp_err \<times> u64 option" where
  "init_edge_timer env =
     (if new_timer_result env \<noteq> ESP_OK then (new_timer_result env, None)
      else if callbacks_result env \<noteq> ESP_OK then (callbacks_result env, None)
      else if timer_enable_result env \<noteq> ESP_OK then (timer_enable_result env, None)
      else if alarm_result env \<noteq> ESP_OK then (alarm_result env, None)
      else (timer_start_result env, Some 1))"

definition set_encoder_rpm :: "int \<Rightarrow> wheel \<Rightarrow> wheel" where
  "set_encoder_rpm v w =
     (let v = (if v > MAX_ABSOLUTE_RPM then MAX_ABSOLUTE_RPM else v);
          v = (if v < - MAX_ABSOLUTE_RPM then - MAX_ABSOLUTE_RPM else v);
          absolute = (if v < 0 then word_of_int (- v) else word_of_int v) :: u32
      in w\<lparr>encoder_of := (encoder_of w)\<lparr>enc_rpm := v, absolute_rpm := absolute,
             direction := (if v < 0 then - 1 else 1),
             interval_denominator := ucast absolute * COUNTS_PER_REVOLUTION,
             fractional_accumulator := 0\<rparr>\<rparr>)"

subsection \<open>Commands\<close>

definition cancel_sweep :: "wheel \<Rightarrow> wheel" where
  "cancel_sweep w = w\<lparr>sweep_of := (sweep_of w)\<lparr>sweep_active := False,
     sweep_generation := sweep_generation (sweep_of w) + 1\<rparr>\<rparr>"

definition wheel_status :: "wheel \<Rightarrow> string" where
  "wheel_status w =
     (let v = enc_rpm (encoder_of w);
          current = sweep_of w;
          direction_text = (if v > 0 then ''forward'' else if v < 0 then ''reverse'' else ''stopped'');
          state = quadrature_states ! unat (state_index (encoder_of w) AND 3)
      in ''RPM='' @ dec_int v @ '' direction='' @ direction_text
         @ '' A='' @ dec (unat (drop_bit 1 state AND 1)) @ '' B='' @ dec (unat (state AND 1))
         @ '' pins=A:GPIO6/B:GPIO7 sweep='' @ (if sweep_active current then ''active'' else ''inactive'')
         @ (if sweep_active current
            then '' end='' @ dec_int (sweep_end current) @ '' step='' @ dec_int (sweep_increment current)
                 @ '' dwell='' @ dec (unat (sweep_dwell_ms current)) @ ''ms'' else []))"

definition parse_int32 :: "string option \<Rightarrow> int option" where
  "parse_int32 text =
     (case text of
        None \<Rightarrow> None
      | Some t \<Rightarrow>
          if t = [] then None
          else let (parsed, rest) = strtol10 t
               in if rest \<noteq> [] \<or> parsed < - (2 ^ 31) \<or> parsed > 2 ^ 31 - 1 then None else Some parsed)"

definition blanks :: string where "blanks = [CHR 0x20, CHR 0x09, CHR 0x0D, CHR 0x0A]"

datatype wheel_reply =
    Rpm_Usage | Rpm_Set int | Sweep_Usage | Sweep_Started int | Stopped | Sweep_Cancelled
  | Status_Text string | Help_Text | Unknown_Command

text \<open>The two commands with arguments; \<open>save\<close> is the state of \<open>strtok_r\<close> after the command word.\<close>

definition rpm_command :: "string \<Rightarrow> wheel \<Rightarrow> wheel_reply \<times> wheel" where
  "rpm_command save w =
     (let (value_text, save) = strtok blanks save
      in case parse_int32 value_text of
           None \<Rightarrow> (Rpm_Usage, w)
         | Some v \<Rightarrow>
             if fst (strtok blanks save) \<noteq> None \<or> v < - MAX_ABSOLUTE_RPM \<or> v > MAX_ABSOLUTE_RPM
             then (Rpm_Usage, w)
             else (Rpm_Set v, set_encoder_rpm v (cancel_sweep w)))"

definition sweep_command :: "string \<Rightarrow> wheel \<Rightarrow> wheel_reply \<times> wheel" where
  "sweep_command save w =
     (let (a, save) = strtok blanks save;
          (b, save) = strtok blanks save;
          (c, save) = strtok blanks save;
          (d, save) = strtok blanks save
      in case (parse_int32 a, parse_int32 b, parse_int32 c, parse_int32 d) of
           (Some start, Some stop, Some increment, Some dwell) \<Rightarrow>
             if fst (strtok blanks save) \<noteq> None
                \<or> start < - MAX_ABSOLUTE_RPM \<or> start > MAX_ABSOLUTE_RPM
                \<or> stop < - MAX_ABSOLUTE_RPM \<or> stop > MAX_ABSOLUTE_RPM
                \<or> increment = 0 \<or> dwell \<le> 0
                \<or> (start < stop \<and> increment < 0) \<or> (start > stop \<and> increment > 0)
             then (Sweep_Usage, w)
             else (Sweep_Started start, set_encoder_rpm start
                    (w\<lparr>sweep_of := \<lparr>sweep_active = True,
                         sweep_generation = sweep_generation (sweep_of w) + 1,
                         sweep_start = start, sweep_end = stop, sweep_increment = increment,
                         sweep_dwell_ms = word_of_int dwell\<rparr>\<rparr>))
         | _ \<Rightarrow> (Sweep_Usage, w))"

text \<open>None: an empty line prints nothing.\<close>

definition handle_command :: "string \<Rightarrow> wheel \<Rightarrow> wheel_reply option \<times> wheel" where
  "handle_command line w =
     (case strtok blanks line of
        (None, save) \<Rightarrow> (None, w)
      | (Some command, save) \<Rightarrow>
          apfst Some
            (if command = ''rpm'' then rpm_command save w
             else if command = ''sweep'' then sweep_command save w
             else if command = ''stop'' then (Stopped, set_encoder_rpm 0 (cancel_sweep w))
             else if command = ''cancel'' then (Sweep_Cancelled, cancel_sweep w)
             else if command = ''status'' then (Status_Text (wheel_status w), w)
             else if command = ''help'' then (Help_Text, w)
             else (Unknown_Command, w)))"

text \<open>The console task on the input available so far.\<close>

function wheel_console :: "string \<Rightarrow> wheel \<Rightarrow> wheel_reply list \<times> wheel" where
  "wheel_console input w =
     (case fgets 128 input of
        None \<Rightarrow> ([], w)
      | Some (line, rest) \<Rightarrow>
          let (reply, w) = handle_command line w;
              (replies, w) = wheel_console rest w
          in ((case reply of None \<Rightarrow> [] | Some r \<Rightarrow> [r]) @ replies, w))"
  by pat_completeness auto
termination
  by (relation "measure (\<lambda>(input, w). length input)") (auto dest: fgets_shorter)

text \<open>
  \<open>app_main\<close>: the state when both tasks run, and the pending alarm.  The timer already runs when
  the start-up speed is set, so the first alarm may fire before (\<open>fired\<close>).  A failed check aborts.
\<close>

definition wheel_app_main :: "wheel_init_env \<Rightarrow> bool \<Rightarrow> bool \<Rightarrow> bool \<Rightarrow> bool \<Rightarrow> (u64 \<times> wheel) option" where
  "wheel_app_main env mutex_created fired console_created sweep_created =
     (if \<not> mutex_created then None
      else
        let (error, w) = init_outputs env wheel_boot
        in if error \<noteq> ESP_OK then None
           else case init_edge_timer env of
                  (ESP_OK, Some alarm) \<Rightarrow>
                    (let (alarm, w) = (if fired then edge_alarm_callback alarm w else (alarm, w))
                     in if \<not> console_created \<or> \<not> sweep_created then None
                        else Some (alarm, set_encoder_rpm DEFAULT_RPM w))
                | _ \<Rightarrow> None)"

subsection \<open>The sweep task\<close>

text \<open>
  The task between two of its atomic steps: before the poll of an outer round; before the check of
  \<open>active\<close>; between this check and the write of the speed; after the dwell; and after the
  deactivation, before the final stop.
\<close>

datatype sweep_pc =
    Poll
  | Check sweep_state int
  | Apply sweep_state int
  | Dwelt sweep_state int
  | Halt

definition next_rpm :: "sweep_state \<Rightarrow> int \<Rightarrow> int" where
  "next_rpm current v =
     (let n = v + sweep_increment current
      in if sweep_increment current > 0 \<and> n > sweep_end current then sweep_end current
         else if sweep_increment current < 0 \<and> n < sweep_end current then sweep_end current
         else n)"

fun sweep_task :: "sweep_pc \<Rightarrow> wheel \<Rightarrow> sweep_pc \<times> wheel" where
  "sweep_task Poll w =
     (let current = sweep_of w
      in (if \<not> sweep_active current then Poll else Check current (sweep_start current), w))"
| "sweep_task (Check current v) w =
     (if sweep_active (sweep_of w) \<and> sweep_generation (sweep_of w) = sweep_generation current
      then (Apply current v, w) else (Poll, w))"
| "sweep_task (Apply current v) w = (Dwelt current v, set_encoder_rpm v w)"
| "sweep_task (Dwelt current v) w =
     (if v = sweep_end current
      then (Halt, if sweep_generation (sweep_of w) = sweep_generation current
                  then w\<lparr>sweep_of := (sweep_of w)\<lparr>sweep_active := False\<rparr>\<rparr> else w)
      else (Check current (next_rpm current v), w))"
| "sweep_task Halt w = (Poll, set_encoder_rpm 0 w)"

text \<open>The simulator: alarms, lines typed at the console and steps of the sweep task in any order.\<close>

inductive wheel_reach :: "u64 \<Rightarrow> sweep_pc \<Rightarrow> wheel \<Rightarrow> bool" where
  boot: "wheel_app_main env True fired True True = Some (alarm, w) \<Longrightarrow> wheel_reach alarm Poll w"
| edge: "wheel_reach alarm pc w \<Longrightarrow> edge_alarm_callback alarm w = (alarm', w') \<Longrightarrow> wheel_reach alarm' pc w'"
| command: "wheel_reach alarm pc w \<Longrightarrow> handle_command line w = (r, w') \<Longrightarrow> wheel_reach alarm pc w'"
| sweep: "wheel_reach alarm pc w \<Longrightarrow> sweep_task pc w = (pc', w') \<Longrightarrow> wheel_reach alarm pc' w'"

subsection \<open>Well-formed states\<close>

definition clamp_rpm :: "int \<Rightarrow> int" where
  "clamp_rpm v = max (- 3000) (min 3000 v)"

lemma clamp_rpm_id [simp]: "- 3000 \<le> v \<Longrightarrow> v \<le> 3000 \<Longrightarrow> clamp_rpm v = v"
  by (simp add: clamp_rpm_def)

lemma clamp_rpm_bounds: "- 3000 \<le> clamp_rpm v" "clamp_rpm v \<le> 3000"
  by (simp_all add: clamp_rpm_def)

text \<open>The state of the generator for a speed.\<close>

definition encoder_ok :: "encoder_state \<Rightarrow> bool" where
  "encoder_ok e \<longleftrightarrow> - 3000 \<le> enc_rpm e \<and> enc_rpm e \<le> 3000
     \<and> uint (absolute_rpm e) = \<bar>enc_rpm e\<bar> \<and> direction e = (if enc_rpm e < 0 then - 1 else 1)
     \<and> uint (interval_denominator e) = 128 * \<bar>enc_rpm e\<bar>
     \<and> (enc_rpm e = 0 \<longrightarrow> fractional_accumulator e = 0)
     \<and> (enc_rpm e \<noteq> 0 \<longrightarrow> fractional_accumulator e < interval_denominator e)
     \<and> state_index e < 4"

definition pins_ok :: "wheel \<Rightarrow> bool" where
  "pins_ok w \<longleftrightarrow> read_state (pin_a w) (pin_b w) = quadrature_states ! unat (state_index (encoder_of w))"

lemma set_encoder_rpm_eq:
  "set_encoder_rpm v w = w\<lparr>encoder_of := (encoder_of w)\<lparr>enc_rpm := clamp_rpm v,
     absolute_rpm := word_of_int \<bar>clamp_rpm v\<bar>, direction := (if clamp_rpm v < 0 then - 1 else 1),
     interval_denominator := word_of_int (128 * \<bar>clamp_rpm v\<bar>), fractional_accumulator := 0\<rparr>\<rparr>"
proof -
  have abs: "(if c < 0 then word_of_int (- c) else word_of_int c) = (word_of_int \<bar>c\<bar> :: u32)" for c
    by (simp add: abs_if)
  have den: "ucast (word_of_int \<bar>c\<bar> :: u32) * (32 * 4 :: u64) = word_of_int (128 * \<bar>c\<bar>)"
    if "- 3000 \<le> c" "c \<le> 3000" for c
  proof -
    have "uint (word_of_int \<bar>c\<bar> :: u32) = \<bar>c\<bar>" using that by (simp add: uint_word_of_int_eq take_bit_int_eq_self)
    then have "(ucast (word_of_int \<bar>c\<bar> :: u32) :: u64) = word_of_int \<bar>c\<bar>"
      by (metis ucast_eq)
    then show ?thesis by (simp add: mult.commute)
  qed
  have v: "(if (if v > MAX_ABSOLUTE_RPM then MAX_ABSOLUTE_RPM else v) < - MAX_ABSOLUTE_RPM
      then - MAX_ABSOLUTE_RPM else if v > MAX_ABSOLUTE_RPM then MAX_ABSOLUTE_RPM else v) = clamp_rpm v"
    by (simp add: clamp_rpm_def MAX_ABSOLUTE_RPM_def)
  show ?thesis
    unfolding set_encoder_rpm_def Let_def v abs COUNTS_PER_REVOLUTION_def PULSES_PER_REVOLUTION_def
      den [OF clamp_rpm_bounds] ..
qed

lemma pins_ok_sweep [simp]: "pins_ok (w\<lparr>sweep_of := s\<rparr>) = pins_ok w"
  by (simp add: pins_ok_def)

lemma set_encoder_rpm_frame [simp]:
  "sweep_of (set_encoder_rpm v w) = sweep_of w"
  "enc_rpm (encoder_of (set_encoder_rpm v w)) = clamp_rpm v"
  "set_encoder_rpm u (set_encoder_rpm v w) = set_encoder_rpm u w"
  "pins_ok (set_encoder_rpm v w) = pins_ok w"
  "state_index (encoder_of (set_encoder_rpm v w)) = state_index (encoder_of w)"
  by (simp_all add: set_encoder_rpm_eq pins_ok_def)

lemma cancel_sweep_frame [simp]:
  "encoder_of (cancel_sweep w) = encoder_of w" "pins_ok (cancel_sweep w) = pins_ok w"
  "sweep_active (sweep_of (cancel_sweep w)) = False"
  "sweep_generation (sweep_of (cancel_sweep w)) = sweep_generation (sweep_of w) + 1"
  by (simp_all add: cancel_sweep_def pins_ok_def)

lemma encoder_ok_set [simp]:
  assumes "state_index (encoder_of w) < 4"
  shows "encoder_ok (encoder_of (set_encoder_rpm v w))"
proof -
  have "uint (word_of_int (128 * \<bar>clamp_rpm v\<bar>) :: u64) = 128 * \<bar>clamp_rpm v\<bar>"
      "uint (word_of_int \<bar>clamp_rpm v\<bar> :: u32) = \<bar>clamp_rpm v\<bar>"
    using clamp_rpm_bounds [of v] by (simp_all only: uint_word_of_int_eq) (simp_all add: take_bit_int_eq_self)
  then show ?thesis
    using assms clamp_rpm_bounds [of v]
    by (auto simp: set_encoder_rpm_eq encoder_ok_def word_less_def simp del: of_int_mult of_int_numeral)
qed

subsection \<open>Intervals\<close>

lemma div_mod_carry:
  fixes a d n :: int
  assumes "0 \<le> a" and "a < d"
  shows "(a + n) div d = n div d + (if a + n mod d \<ge> d then 1 else 0)"
    and "(a + n) mod d = a + n mod d - (if a + n mod d \<ge> d then d else 0)"
proof -
  have r: "0 \<le> n mod d" "n mod d < d" using assms by simp_all
  have n: "a + n = (n div d) * d + (a + n mod d)" by simp
  have q: "(q * d + x) div d = q + (if d \<le> x then 1 else 0)" "(q * d + x) mod d = x - (if d \<le> x then d else 0)"
    if "0 \<le> x" "x < 2 * d" for q x
  proof -
    have "x div d = (if d \<le> x then 1 else 0)" "x mod d = x - (if d \<le> x then d else 0)"
      using that assms mod_pos_pos_trivial [of "x - d" d] mod_pos_pos_trivial [of x d]
      by (auto simp: div_pos_geq simp del: mod_pos_pos_trivial)
    then show "(q * d + x) div d = q + (if d \<le> x then 1 else 0)"
      "(q * d + x) mod d = x - (if d \<le> x then d else 0)"
      using assms by simp_all
  qed
  show "(a + n) div d = n div d + (if a + n mod d \<ge> d then 1 else 0)"
    "(a + n) mod d = a + n mod d - (if a + n mod d \<ge> d then d else 0)"
    using q [of "a + n mod d" "n div d"] r assms unfolding n [symmetric] by auto
qed

lemma next_interval_cases:
  assumes "interval_denominator e \<noteq> 0"
  defines "carried \<equiv> fractional_accumulator e + 60000000 mod interval_denominator e"
    and "whole \<equiv> 60000000 div interval_denominator e"
  shows "next_interval_locked e =
    (if interval_denominator e \<le> carried
     then (if whole + 1 \<noteq> 0 then ucast (whole + 1) else 1, e\<lparr>fractional_accumulator := carried - interval_denominator e\<rparr>)
     else (if whole \<noteq> 0 then ucast whole else 1, e\<lparr>fractional_accumulator := carried\<rparr>))"
  using assms(1) by (simp add: next_interval_locked_def carried_def whole_def Let_def)

text \<open>The division with its carry is one division of the accumulated numerator.\<close>

lemma next_interval_div:
  assumes d: "0 < uint (interval_denominator e)" "uint (interval_denominator e) \<le> 384000"
    and acc: "fractional_accumulator e < interval_denominator e"
    and step: "next_interval_locked e = (interval, e')"
  shows "uint interval = (uint (fractional_accumulator e) + 60000000) div uint (interval_denominator e)
    \<and> uint (fractional_accumulator e') = (uint (fractional_accumulator e) + 60000000) mod uint (interval_denominator e)
    \<and> e' = e\<lparr>fractional_accumulator := fractional_accumulator e'\<rparr>"
proof -
  let ?d = "interval_denominator e" and ?a = "fractional_accumulator e"
  let ?r = "60000000 mod ?d" and ?b = "60000000 div ?d"
  have a: "uint ?a < uint ?d" "0 \<le> uint ?a" using acc by (simp_all add: word_less_def)
  have r: "uint ?r = 60000000 mod uint ?d" and b: "uint ?b = 60000000 div uint ?d"
    by (simp_all add: uint_mod uint_div)
  have r': "60000000 mod uint ?d < uint ?d" using d by simp
  have b': "156 \<le> 60000000 div uint ?d" "60000000 div uint ?d \<le> 60000000"
  proof -
    have "60000000 div 384000 \<le> 60000000 div uint ?d" by (rule zdiv_mono2) (use d in auto)
    then show "156 \<le> 60000000 div uint ?d" by simp
    have "60000000 div uint ?d \<le> 60000000 div 1" by (rule zdiv_mono2) (use d in auto)
    then show "60000000 div uint ?d \<le> 60000000" by simp
  qed
  have "uint ?a + 60000000 mod uint ?d < 18446744073709551616" using a(1) r' d(2) by linarith
  then have sum: "uint (?a + ?r) = uint ?a + 60000000 mod uint ?d"
  proof -
    assume "uint ?a + 60000000 mod uint ?d < 18446744073709551616"
    then have "uint ?a + uint ?r < 2 ^ LENGTH(64)" unfolding r by simp
    from iffD1 [OF uint_add_lem this] show ?thesis unfolding r .
  qed
  have ge: "?d \<le> ?a + ?r \<longleftrightarrow> uint ?d \<le> uint ?a + 60000000 mod uint ?d"
    by (simp only: word_le_def sum)
  have b1: "uint (?b + 1) = 60000000 div uint ?d + 1"
  proof -
    have "60000000 div uint ?d + 1 < 18446744073709551616" using b' by linarith
    then have "uint ?b + uint (1 :: u64) < 2 ^ LENGTH(64)" unfolding b by simp
    from iffD1 [OF uint_add_lem this] show ?thesis unfolding b by simp
  qed
  have cast: "uint (if x \<noteq> 0 then ucast x else 1 :: u32) = uint x"
    if "1 \<le> uint x" "uint x \<le> 60000001" for x :: u64
  proof -
    have "x \<noteq> 0" using that by auto
    moreover have "uint (ucast x :: u32) = uint x"
      using that by (simp add: unsigned_ucast_eq take_bit_int_eq_self)
    ultimately show ?thesis by simp
  qed
  have ne: "?d \<noteq> 0" using d by auto
  note carry = div_mod_carry [OF a(2,1), of 60000000]
  show ?thesis
  proof (cases "uint ?d \<le> uint ?a + 60000000 mod uint ?d")
    case True
    have n: "interval = (if ?b + 1 \<noteq> 0 then ucast (?b + 1) else 1)"
        "e' = e\<lparr>fractional_accumulator := ?a + ?r - ?d\<rparr>"
      using step [unfolded next_interval_cases [OF ne]] True [folded ge] by simp_all
    have "uint interval = 60000000 div uint ?d + 1"
      unfolding n(1) using cast [of "?b + 1"] b' unfolding b1 by linarith
    moreover have "uint (?a + ?r - ?d) = uint ?a + 60000000 mod uint ?d - uint ?d"
    proof -
      have "uint ?d \<le> uint (?a + ?r)" using True unfolding sum .
      from iffD1 [OF uint_sub_lem this] show ?thesis unfolding sum .
    qed
    ultimately show ?thesis using True unfolding carry n(2) by simp
  next
    case False
    have n: "interval = (if ?b \<noteq> 0 then ucast ?b else 1)"
        "e' = e\<lparr>fractional_accumulator := ?a + ?r\<rparr>"
      using step [unfolded next_interval_cases [OF ne]] False [folded ge] by simp_all
    have "uint interval = 60000000 div uint ?d"
      unfolding n(1) using cast [of ?b] b' unfolding b by linarith
    then show ?thesis using False sum unfolding carry n(2) by simp
  qed
qed

text \<open>Every interval is between 156 microseconds and half a second.\<close>

lemma interval_bounds:
  assumes "0 \<le> a" and "a < d" and "128 \<le> d" and "d \<le> (384000 :: int)"
  shows "156 \<le> (a + 60000000) div d" and "(a + 60000000) div d \<le> 468750"
  using assms div_between [of d 156 "a + 60000000" 468750] by simp_all

lemma word_and_3: "(word_of_int (k AND 3) :: u8) = word_of_int (k mod 4)"
  using take_bit_eq_mask [of 2 k] by (simp add: mask_eq_exp_minus_1 take_bit_eq_mod)


lemma small_index: "(i :: u8) < 4 \<Longrightarrow> i \<in> {0, 1, 2, 3}"
proof -
  assume "i < 4"
  then have "uint i \<in> {0, 1, 2, 3}" using uint_ge_0 [of i] unfolding word_less_def by (simp, linarith)
  then show ?thesis by (auto simp: word_uint_eq_iff)
qed

lemma write_state:
  assumes "i < 4" and "state_index (encoder_of w) = i"
  shows "pins_ok (write_quadrature_state i w)"
  using small_index [OF assms(1)] assms(2)
  by (auto simp: write_quadrature_state_def pins_ok_def quadrature_states_def read_state_def Let_def)

definition next_index :: "encoder_state \<Rightarrow> u8" where
  "next_index e = (if absolute_rpm e \<noteq> 0 then word_of_int ((uint (state_index e) + direction e) mod 4)
    else state_index e)"

lemma word_mod_4: "(word_of_int (k mod 4) :: u8) < 4"
  by (simp add: word_less_def uint_word_of_int_eq take_bit_int_eq_self)

lemma next_index_step:
  "(if absolute_rpm e \<noteq> 0
    then e\<lparr>state_index := word_of_int ((uint (state_index e) + direction e + 4) AND 3)\<rparr> else e)
   = e\<lparr>state_index := next_index e\<rparr>"
  by (cases "absolute_rpm e = 0") (simp_all only: next_index_def word_and_3 mod_add_self2 if_True if_False simp_thms, simp)

text \<open>One alarm: the index moves in the direction of the speed, the numerator accumulates.\<close>

lemma edge_alarm_step:
  assumes ok: "encoder_ok (encoder_of w)" and step: "edge_alarm_callback alarm w = (alarm', w')"
  shows "encoder_ok (encoder_of w') \<and> pins_ok w' \<and> sweep_of w' = sweep_of w
    \<and> state_index (encoder_of w') = next_index (encoder_of w)
    \<and> enc_rpm (encoder_of w') = enc_rpm (encoder_of w)
    \<and> (\<exists>interval. alarm' = alarm + word_of_int interval \<and> 156 \<le> interval \<and> interval \<le> 468750
         \<and> (enc_rpm (encoder_of w) \<noteq> 0 \<longrightarrow>
             interval = (uint (fractional_accumulator (encoder_of w)) + 60000000) div (128 * \<bar>enc_rpm (encoder_of w)\<bar>)
             \<and> uint (fractional_accumulator (encoder_of w'))
                = (uint (fractional_accumulator (encoder_of w)) + 60000000) mod (128 * \<bar>enc_rpm (encoder_of w)\<bar>)))"
proof -
  let ?old = "encoder_of w"
  let ?e = "?old\<lparr>state_index := next_index ?old\<rparr>"
  obtain interval e' where n: "next_interval_locked ?e = (interval, e')" by fastforce
  have index: "next_index ?old < 4" using ok by (simp add: next_index_def encoder_ok_def word_mod_4)
  note upd = next_index_step [of ?old]
  have result: "alarm' = alarm + ucast interval" "w' = write_quadrature_state (next_index ?old) (w\<lparr>encoder_of := e'\<rparr>)"
    using step n unfolding edge_alarm_callback_def Let_def upd by simp_all
  have e: "encoder_ok ?e" using ok index by (simp add: encoder_ok_def)
  have e': "encoder_ok e' \<and> state_index e' = next_index ?old \<and> enc_rpm e' = enc_rpm ?old
      \<and> 156 \<le> uint interval \<and> uint interval \<le> 468750 \<and> (enc_rpm ?old \<noteq> 0 \<longrightarrow>
         uint interval = (uint (fractional_accumulator ?old) + 60000000) div (128 * \<bar>enc_rpm ?old\<bar>)
         \<and> uint (fractional_accumulator e') = (uint (fractional_accumulator ?old) + 60000000) mod (128 * \<bar>enc_rpm ?old\<bar>))"
  proof (cases "enc_rpm ?old = 0")
    case True
    then have "interval_denominator ?e = 0" using e by (simp add: encoder_ok_def uint_0_iff)
    then have "interval = 100000" "e' = ?e" using n by (simp_all add: next_interval_locked_def)
    then show ?thesis using e True by simp
  next
    case False
    let ?d = "uint (interval_denominator ?e)" and ?a = "uint (fractional_accumulator ?e)"
    have d: "?d = 128 * \<bar>enc_rpm ?old\<bar>" "128 \<le> ?d" "?d \<le> 384000" using e False by (auto simp: encoder_ok_def)
    have acc: "fractional_accumulator ?e < interval_denominator ?e" using e False by (simp add: encoder_ok_def)
    then have a: "0 \<le> ?a" "?a < ?d" by (simp_all add: word_less_def)
    have i: "uint interval = (?a + 60000000) div ?d" "uint (fractional_accumulator e') = (?a + 60000000) mod ?d"
      "e' = ?e\<lparr>fractional_accumulator := fractional_accumulator e'\<rparr>"
      using next_interval_div [OF _ d(3) acc n] d(2) by auto
    have "uint (fractional_accumulator e') < ?d" unfolding i(2) using d(2) by simp
    then have "encoder_ok (?e\<lparr>fractional_accumulator := fractional_accumulator e'\<rparr>)"
      using e False by (simp add: encoder_ok_def word_less_def)
    then have "encoder_ok e'" using i(3) by simp
    moreover have "state_index e' = next_index ?old \<and> enc_rpm e' = enc_rpm ?old"
      by (subst (1 2) i(3)) simp
    ultimately show ?thesis
      using interval_bounds [OF a d(2,3)] i(1,2) unfolding d(1) by simp
  qed
  have cast: "ucast interval = (word_of_int (uint interval) :: u64)" by (rule ucast_eq)
  have "pins_ok w'" unfolding result(2) by (rule write_state [OF index]) (simp add: e')
  then show ?thesis
    using e' result(2) unfolding result(1) cast
    by (intro conjI exI [of _ "uint interval"]) (simp_all add: write_quadrature_state_def Let_def)
qed

lemma pins_ok_iff:
  assumes "state_index (encoder_of w) \<in> {0, 1, 2, 3}"
  shows "pins_ok w \<longleftrightarrow> pin_a w = (state_index (encoder_of w) \<in> {2, 3})
    \<and> pin_b w = (state_index (encoder_of w) \<in> {1, 2})"
  using assms by (elim insertE) (simp_all add: pins_ok_def quadrature_states_def read_state_def)

text \<open>The ranges of the sweep task's local variables.\<close>

definition sweep_ok :: "sweep_state \<Rightarrow> bool" where
  "sweep_ok s \<longleftrightarrow> - 3000 \<le> sweep_start s \<and> sweep_start s \<le> 3000 \<and> - 3000 \<le> sweep_end s \<and> sweep_end s \<le> 3000
     \<and> sweep_increment s \<noteq> 0 \<and> 0 < sweep_dwell_ms s
     \<and> (sweep_start s < sweep_end s \<longrightarrow> 0 < sweep_increment s)
     \<and> (sweep_end s < sweep_start s \<longrightarrow> sweep_increment s < 0)"

definition on_course :: "sweep_state \<Rightarrow> int \<Rightarrow> bool" where
  "on_course s v \<longleftrightarrow> sweep_ok s \<and> (sweep_start s \<le> v \<and> v \<le> sweep_end s \<or> sweep_end s \<le> v \<and> v \<le> sweep_start s)"

fun pc_ok :: "sweep_pc \<Rightarrow> bool" where
  "pc_ok Poll = True"
| "pc_ok (Check s v) = on_course s v"
| "pc_ok (Apply s v) = on_course s v"
| "pc_ok (Dwelt s v) = on_course s v"
| "pc_ok Halt = True"

definition wheel_ok :: "sweep_pc \<Rightarrow> wheel \<Rightarrow> bool" where
  "wheel_ok pc w \<longleftrightarrow> encoder_ok (encoder_of w) \<and> pins_ok w
     \<and> (sweep_active (sweep_of w) \<longrightarrow> sweep_ok (sweep_of w)) \<and> pc_ok pc"

lemma on_course_next: "on_course s v \<Longrightarrow> v \<noteq> sweep_end s \<Longrightarrow> on_course s (next_rpm s v)"
  by (auto simp: on_course_def sweep_ok_def next_rpm_def Let_def)

lemma on_course_start: "sweep_ok s \<Longrightarrow> on_course s (sweep_start s)"
  by (auto simp: on_course_def sweep_ok_def)

lemma encoder_ok_index: "encoder_ok e \<Longrightarrow> state_index e < 4"
  by (simp add: encoder_ok_def)

lemma wheel_ok_sweep:
  assumes "wheel_ok pc w" and "sweep_task pc w = (pc', w')"
  shows "wheel_ok pc' w'"
  using assms on_course_next on_course_start encoder_ok_index [of "encoder_of w"]
  by (cases pc) (auto simp: wheel_ok_def Let_def split: if_splits)

lemma rpm_command_cases:
  obtains (refused) "rpm_command save w = (Rpm_Usage, w)"
  | (accepted) v where "- 3000 \<le> v" and "v \<le> 3000"
      and "rpm_command save w = (Rpm_Set v, set_encoder_rpm v (cancel_sweep w))"
proof -
  obtain a rest where t: "strtok blanks save = (a, rest)" by fastforce
  show ?thesis
  proof (cases "rpm_command save w = (Rpm_Usage, w)")
    case False
    then show ?thesis
      using accepted
      by (auto simp: rpm_command_def t MAX_ABSOLUTE_RPM_def split: option.splits if_splits)
  qed (rule refused)
qed

text \<open>An accepted sweep starts at its first speed and runs towards its last.\<close>

lemma sweep_command_cases:
  obtains (refused) "sweep_command save w = (Sweep_Usage, w)"
  | (accepted) s where "sweep_ok s" and "sweep_active s"
      and "sweep_generation s = sweep_generation (sweep_of w) + 1"
      and "sweep_command save w = (Sweep_Started (sweep_start s),
             set_encoder_rpm (sweep_start s) (w\<lparr>sweep_of := s\<rparr>))"
proof -
  obtain a s1 where a: "strtok blanks save = (a, s1)" by fastforce
  obtain b s2 where b: "strtok blanks s1 = (b, s2)" by fastforce
  obtain c s3 where c: "strtok blanks s2 = (c, s3)" by fastforce
  obtain d s4 where d: "strtok blanks s3 = (d, s4)" by fastforce
  note unfold = sweep_command_def a b c d Let_def
  show ?thesis
  proof (cases "\<exists>v1 v2 v3 v4. parse_int32 a = Some v1 \<and> parse_int32 b = Some v2 \<and> parse_int32 c = Some v3
      \<and> parse_int32 d = Some v4")
    case False
    then have "sweep_command save w = (Sweep_Usage, w)"
      by (auto simp: unfold split: option.split)
    then show ?thesis by (rule refused)
  next
    case True
    then obtain v1 v2 v3 v4 where v: "parse_int32 a = Some v1" "parse_int32 b = Some v2"
      "parse_int32 c = Some v3" "parse_int32 d = Some v4" by auto
    show ?thesis
    proof (cases "sweep_command save w = (Sweep_Usage, w)")
      case False
      let ?s = "\<lparr>sweep_active = True, sweep_generation = sweep_generation (sweep_of w) + 1,
        sweep_start = v1, sweep_end = v2, sweep_increment = v3, sweep_dwell_ms = word_of_int v4\<rparr>"
      from False have r: "- 3000 \<le> v1" "v1 \<le> 3000" "- 3000 \<le> v2" "v2 \<le> 3000" "v3 \<noteq> 0" "0 < v4"
          "v1 < v2 \<longrightarrow> 0 < v3" "v2 < v1 \<longrightarrow> v3 < 0"
          "sweep_command save w = (Sweep_Started v1, set_encoder_rpm v1 (w\<lparr>sweep_of := ?s\<rparr>))"
        by (auto simp: unfold v MAX_ABSOLUTE_RPM_def split: if_splits)
      have "v4 < 2 ^ 31"
        using v(4) by (auto simp: parse_int32_def split: option.splits prod.splits if_splits)
      then have "0 < (word_of_int v4 :: u32)"
        using r(6) by (simp add: word_less_def uint_word_of_int_eq take_bit_int_eq_self)
      then have "sweep_ok ?s" using r by (simp add: sweep_ok_def)
      then show ?thesis using r by (intro accepted [of ?s]) simp_all
    qed (rule refused)
  qed
qed

lemma wheel_ok_command:
  assumes "wheel_ok pc w" and "handle_command line w = (r, w')"
  shows "wheel_ok pc w'"
proof -
  have index: "state_index (encoder_of w) < 4" using assms(1) by (simp add: wheel_ok_def encoder_ok_index)
  obtain command save where t: "strtok blanks line = (command, save)" by fastforce
  have rpm: "wheel_ok pc (snd (rpm_command save w))"
    using assms(1) index by (cases rule: rpm_command_cases [of save w]) (simp_all add: wheel_ok_def)
  have sweep: "wheel_ok pc (snd (sweep_command save w))"
    using assms(1) index by (cases rule: sweep_command_cases [of save w]) (simp_all add: wheel_ok_def)
  show ?thesis
    using assms rpm sweep index
    by (auto simp: handle_command_def t wheel_ok_def apfst_def map_prod_def
        split: option.splits if_splits prod.splits)
qed

lemma encoder_ok_boot: "encoder_ok ((encoder_of w)\<lparr>state_index := i\<rparr>) \<longleftrightarrow> encoder_ok (encoder_of w)"
  if "state_index (encoder_of w) < 4" and "i < 4"
  using that by (simp add: encoder_ok_def)

lemma wheel_ok_boot:
  assumes "wheel_app_main env True fired True True = Some (alarm, w)"
  shows "wheel_ok Poll w" and "enc_rpm (encoder_of w) = DEFAULT_RPM"
proof -
  let ?w0 = "write_quadrature_state 0 wheel_boot"
  obtain w1 where w: "w = set_encoder_rpm DEFAULT_RPM w1"
    and w1: "w1 = ?w0 \<or> w1 = snd (edge_alarm_callback 1 ?w0)"
    using assms
    by (auto simp: wheel_app_main_def init_outputs_def init_edge_timer_def case_prod_unfold Let_def
        split: if_splits esp_err.splits)
  have "state_index (encoder_of w1) < 4 \<and> pins_ok w1 \<and> \<not> sweep_active (sweep_of w1)"
    using w1
    by (auto simp: edge_alarm_callback_def write_quadrature_state_def next_interval_locked_def wheel_boot_def
        pins_ok_def quadrature_states_def read_state_def DEFAULT_RPM_def Let_def)
  then show "wheel_ok Poll w" "enc_rpm (encoder_of w) = DEFAULT_RPM"
    by (simp_all add: w wheel_ok_def DEFAULT_RPM_def)
qed

lemma wheel_reach_ok: "wheel_reach alarm pc w \<Longrightarrow> wheel_ok pc w"
proof (induction rule: wheel_reach.induct)
  case (boot env fired alarm w)
  then show ?case by (rule wheel_ok_boot)
next
  case (edge alarm pc w alarm' w')
  then show ?case using edge_alarm_step [of w alarm alarm' w'] by (simp add: wheel_ok_def)
qed (auto intro: wheel_ok_command wheel_ok_sweep)

text \<open>A bench that has started.\<close>

definition good_env :: wheel_init_env where
  "good_env = \<lparr>pins_result = ESP_OK, new_timer_result = ESP_OK, callbacks_result = ESP_OK,
     timer_enable_result = ESP_OK, alarm_result = ESP_OK, timer_start_result = ESP_OK\<rparr>"

definition started :: wheel where
  "started = set_encoder_rpm DEFAULT_RPM (write_quadrature_state 0 wheel_boot)"

lemma reach_started: "wheel_reach 1 Poll started"
  by (rule wheel_reach.boot [of good_env False])
    (simp add: wheel_app_main_def init_outputs_def init_edge_timer_def good_env_def started_def)

text \<open>
  The simulator never leaves its ranges.  Whatever is typed and however alarms, commands and
  the sweep task interleave: the speed stays within 3000 RPM, also at every step of a sweep, the
  pins show one of the four quadrature states, and the interrupt always programs its next alarm
  between 156 microseconds and half a second ahead and turns at most one pin.
\<close>
lemma simulator_well_formed:
  assumes "wheel_reach alarm pc w"
  shows "\<bar>enc_rpm (encoder_of w)\<bar> \<le> 3000
    \<and> (\<exists>interval. fst (edge_alarm_callback alarm w) = alarm + word_of_int interval
         \<and> 156 \<le> interval \<and> interval \<le> 468750)
    \<and> pins_ok (snd (edge_alarm_callback alarm w))
    \<and> (pin_a (snd (edge_alarm_callback alarm w)) = pin_a w \<or> pin_b (snd (edge_alarm_callback alarm w)) = pin_b w)"
proof -
  have ok: "encoder_ok (encoder_of w)" "pins_ok w" using wheel_reach_ok [OF assms] by (simp_all add: wheel_ok_def)
  obtain alarm' w' where e: "edge_alarm_callback alarm w = (alarm', w')" by fastforce
  note step = edge_alarm_step [OF ok(1) e]
  have i: "state_index (encoder_of w) \<in> {0, 1, 2, 3}" using ok(1) by (intro small_index encoder_ok_index)
  have i': "state_index (encoder_of w') = next_index (encoder_of w)" using step by blast
  have dir: "direction (encoder_of w) \<in> {1, - 1}" using ok(1) by (simp add: encoder_ok_def)
  have n: "next_index (encoder_of w) \<in> {0, 1, 2, 3}" and ok': "pins_ok w'"
    using step small_index [OF encoder_ok_index, of "encoder_of w'"] by (simp_all only: i')
  note pins = iffD1 [OF pins_ok_iff [OF i] ok(2)] iffD1 [OF pins_ok_iff [of w', unfolded i', OF n] ok']
  have "pin_a w' = pin_a w \<or> pin_b w' = pin_b w"
    using pins i dir by (elim insertE) (simp_all add: next_index_def)
  then show ?thesis using step ok(1) e by (auto simp: encoder_ok_def)
qed

subsection \<open>A sweep\<close>

text \<open>The speeds of a sweep and the number of its increments.\<close>

definition sweep_speed :: "sweep_state \<Rightarrow> nat \<Rightarrow> int" where
  "sweep_speed s j =
     (if 0 < sweep_increment s then min (sweep_end s) (sweep_start s + int j * sweep_increment s)
      else max (sweep_end s) (sweep_start s + int j * sweep_increment s))"

definition sweep_rounds :: "sweep_state \<Rightarrow> nat" where
  "sweep_rounds s = nat ((\<bar>sweep_end s - sweep_start s\<bar> + \<bar>sweep_increment s\<bar> - 1) div \<bar>sweep_increment s\<bar>)"

lemma sweep_speed_Suc: "next_rpm s (sweep_speed s j) = sweep_speed s (Suc j)" if "sweep_ok s"
  using that by (auto simp: next_rpm_def sweep_speed_def sweep_ok_def Let_def algebra_simps min_def max_def)

lemma sweep_speed_0: "sweep_ok s \<Longrightarrow> sweep_speed s 0 = sweep_start s"
  by (auto simp: sweep_speed_def sweep_ok_def)

lemma ceiling_div:
  fixes a d :: int
  assumes "0 < d" and "0 \<le> a"
  shows "int j * d < a \<longleftrightarrow> j < nat ((a + d - 1) div d)"
proof -
  let ?q = "(a + d - 1) div d"
  have q: "?q * d \<le> a + d - 1" "a + d - 1 < (?q + 1) * d"
    using assms(1) div_mult_mod_eq [of "a + d - 1" d] pos_mod_bound [of d "a + d - 1"] pos_mod_sign [of d "a + d - 1"]
    unfolding distrib_right by linarith+
  have "int j * d < a \<longleftrightarrow> int j < ?q"
  proof
    assume "int j * d < a"
    then have "int j * d < ?q * d" using q(2) unfolding distrib_right by linarith
    then show "int j < ?q" using assms(1) by simp
  next
    assume "int j < ?q"
    then have "(int j + 1) * d \<le> ?q * d" using assms(1) by (intro mult_right_mono) simp_all
    then show "int j * d < a" using q(1) unfolding distrib_right by linarith
  qed
  then show ?thesis by (simp add: zless_nat_eq_int_zless)
qed

lemma sweep_not_done: "sweep_ok s \<Longrightarrow> sweep_speed s j \<noteq> sweep_end s \<longleftrightarrow> j < sweep_rounds s"
proof -
  assume ok: "sweep_ok s"
  show ?thesis
  proof (cases "0 < sweep_increment s")
    case True
    then have "sweep_speed s j \<noteq> sweep_end s \<longleftrightarrow> int j * sweep_increment s < sweep_end s - sweep_start s"
      using ok by (auto simp: sweep_speed_def sweep_ok_def)
    then show ?thesis
      using True ok ceiling_div [of "sweep_increment s" "sweep_end s - sweep_start s" j]
      by (simp add: sweep_rounds_def sweep_ok_def abs_if)
  next
    case False
    then have neg: "sweep_increment s < 0" using ok by (auto simp: sweep_ok_def)
    then have "sweep_speed s j \<noteq> sweep_end s \<longleftrightarrow> int j * (- sweep_increment s) < sweep_start s - sweep_end s"
      using ok by (auto simp: sweep_speed_def sweep_ok_def)
    then show ?thesis
      using neg ok ceiling_div [of "- sweep_increment s" "sweep_start s - sweep_end s" j]
      by (auto simp: sweep_rounds_def sweep_ok_def abs_if)
  qed
qed

text \<open>The sweep task alone, for a number of steps.\<close>

definition sweep_run :: "nat \<Rightarrow> sweep_pc \<times> wheel \<Rightarrow> sweep_pc \<times> wheel" where
  "sweep_run n = (\<lambda>(pc, w). sweep_task pc w) ^^ n"

lemma sweep_run_0 [simp]: "sweep_run 0 x = x"
  by (simp add: sweep_run_def)

lemma sweep_run_Suc [simp]: "sweep_run (Suc n) (pc, w) = sweep_run n (sweep_task pc w)"
  by (simp add: sweep_run_def funpow_swap1)

lemma sweep_run_add: "sweep_run (m + n) x = sweep_run n (sweep_run m x)"
  by (simp add: sweep_run_def funpow_add funpow_swap1 add.commute [of m])

lemma sweep_reaches:
  assumes ok: "sweep_ok (sweep_of w)" and active: "sweep_active (sweep_of w)"
  shows "j \<le> sweep_rounds (sweep_of w) \<Longrightarrow>
    sweep_run (3 * j + 2) (Check (sweep_of w) (sweep_start (sweep_of w)), w)
      = (Dwelt (sweep_of w) (sweep_speed (sweep_of w) j), set_encoder_rpm (sweep_speed (sweep_of w) j) w)"
proof (induction j)
  case 0
  then show ?case using assms by (simp add: numeral_2_eq_2 sweep_speed_0)
next
  case (Suc j)
  then have "sweep_speed (sweep_of w) j \<noteq> sweep_end (sweep_of w)" using sweep_not_done [OF ok] by simp
  moreover have "3 * Suc j + 2 = (3 * j + 2) + 3" by simp
  ultimately show ?case
    using Suc active unfolding \<open>3 * Suc j + 2 = (3 * j + 2) + 3\<close> sweep_run_add
    by (simp add: numeral_3_eq_3 sweep_speed_Suc [OF ok])
qed

text \<open>A bench with a sweep from 0 to 100 RPM in steps of 60.\<close>

definition sweeping :: wheel where
  "sweeping = snd (handle_command ''sweep 0 100 60 5'' started)"

lemma reach_sweeping: "wheel_reach 1 Poll sweeping"
  by (rule wheel_reach.command [OF reach_started, of "''sweep 0 100 60 5''" "fst (handle_command ''sweep 0 100 60 5'' started)"])
    (simp add: sweeping_def)

lemma wheel_reach_run:
  assumes "wheel_reach alarm pc w"
  shows "wheel_reach alarm (fst (sweep_run n (pc, w))) (snd (sweep_run n (pc, w)))"
  using assms
proof (induction n arbitrary: pc w)
  case (Suc n)
  obtain pc' w' where "sweep_task pc w = (pc', w')" by fastforce
  then show ?case using Suc.IH [OF wheel_reach.sweep [OF Suc.prems]] by simp
qed simp

lemma sweeping_state:
  "sweep_of sweeping = \<lparr>sweep_active = True, sweep_generation = 1, sweep_start = 0, sweep_end = 100,
     sweep_increment = 60, sweep_dwell_ms = 5\<rparr>"
proof -
  have "strtok blanks ''sweep 0 100 60 5'' = (Some ''sweep'', ''0 100 60 5'')"
    "strtok blanks ''0 100 60 5'' = (Some ''0'', ''100 60 5'')" "strtok blanks ''100 60 5'' = (Some ''100'', ''60 5'')"
    "strtok blanks ''60 5'' = (Some ''60'', ''5'')" "strtok blanks ''5'' = (Some ''5'', [])" "strtok blanks [] = (None, [])"
    "parse_int32 (Some ''0'') = Some 0" "parse_int32 (Some ''100'') = Some 100"
    "parse_int32 (Some ''60'') = Some 60" "parse_int32 (Some ''5'') = Some 5"
    by code_simp+
  then show ?thesis
    by (simp add: sweeping_def handle_command_def sweep_command_def MAX_ABSOLUTE_RPM_def started_def
        wheel_boot_def write_quadrature_state_def Let_def)
qed

text \<open>
  An undisturbed sweep ends where it should.  From the round that notices it, the task holds
  the \<open>j\<close>-th speed, start plus \<open>j\<close> increments and never beyond the end, for one dwell each; it
  reaches the end after \<open>\<lceil>\<bar>end - start\<bar> / \<bar>step\<bar>\<rceil>\<close> increments, never earlier, and then switches the
  sweep off and the speed to zero.
\<close>
lemma sweep_ends_at_its_end:
  assumes "wheel_reach alarm Poll w" and "sweep_active (sweep_of w)"
  shows "(\<forall>j \<le> sweep_rounds (sweep_of w).
      sweep_run (3 * j + 3) (Poll, w)
        = (Dwelt (sweep_of w) (sweep_speed (sweep_of w) j), set_encoder_rpm (sweep_speed (sweep_of w) j) w)
      \<and> (sweep_speed (sweep_of w) j = sweep_end (sweep_of w) \<longleftrightarrow> j = sweep_rounds (sweep_of w)))
    \<and> sweep_run (3 * sweep_rounds (sweep_of w) + 5) (Poll, w)
        = (Poll, set_encoder_rpm 0 (w\<lparr>sweep_of := (sweep_of w)\<lparr>sweep_active := False\<rparr>\<rparr>))"
proof -
  let ?s = "sweep_of w"
  have ok: "sweep_ok ?s" using wheel_reach_ok [OF assms(1)] assms(2) by (simp add: wheel_ok_def)
  have poll: "sweep_run (3 * j + 3) (Poll, w) = sweep_run (3 * j + 2) (Check ?s (sweep_start ?s), w)" for j
    using assms(2) by (simp add: numeral_3_eq_3 Let_def)
  note reach = sweep_reaches [OF ok assms(2)]
  have "3 * sweep_rounds ?s + 5 = (3 * sweep_rounds ?s + 3) + 2" by simp
  then have "sweep_run (3 * sweep_rounds ?s + 5) (Poll, w)
      = sweep_run 2 (Dwelt ?s (sweep_end ?s), set_encoder_rpm (sweep_end ?s) w)"
    using poll [of "sweep_rounds ?s"] reach [of "sweep_rounds ?s"] sweep_not_done [OF ok, of "sweep_rounds ?s"]
    by (simp only: sweep_run_add) simp
  moreover have "set_encoder_rpm 0 ((set_encoder_rpm v w)\<lparr>sweep_of := x\<rparr>) = set_encoder_rpm 0 (w\<lparr>sweep_of := x\<rparr>)" for v x
    by (simp add: set_encoder_rpm_eq)
  ultimately have final: "sweep_run (3 * sweep_rounds ?s + 5) (Poll, w)
      = (Poll, set_encoder_rpm 0 (w\<lparr>sweep_of := ?s\<lparr>sweep_active := False\<rparr>\<rparr>))"
    by (simp add: numeral_2_eq_2)
  show ?thesis
  proof (intro conjI allI impI)
    fix j assume j: "j \<le> sweep_rounds ?s"
    show "sweep_run (3 * j + 3) (Poll, w) = (Dwelt ?s (sweep_speed ?s j), set_encoder_rpm (sweep_speed ?s j) w)"
      unfolding poll by (rule reach [OF j])
    show "sweep_speed ?s j = sweep_end ?s \<longleftrightarrow> j = sweep_rounds ?s"
      using j sweep_not_done [OF ok, of j] by linarith
  qed (rule final)
qed

text \<open>
  What the sweep task writes into the generator after a command that cancelled its sweep: nothing,
  unless the command came in the middle of its round.
\<close>

fun overwritten_by :: "sweep_pc \<Rightarrow> int option" where
  "overwritten_by Poll = None"
| "overwritten_by (Check s u) = None"
| "overwritten_by (Apply s u) = Some (if u = sweep_end s then 0 else u)"
| "overwritten_by (Dwelt s u) = (if u = sweep_end s then Some 0 else None)"
| "overwritten_by Halt = Some 0"

lemma sweep_run_idle: "\<not> sweep_active (sweep_of w) \<Longrightarrow> sweep_run n (Poll, w) = (Poll, w)"
  by (induction n) simp_all

lemma sweep_run_cancelled:
  assumes "\<not> sweep_active (sweep_of w)" and "pc_ok pc"
  shows "\<exists>w'. sweep_run 3 (pc, w) = (Poll, w') \<and> \<not> sweep_active (sweep_of w')
    \<and> enc_rpm (encoder_of w') = (case overwritten_by pc of None \<Rightarrow> enc_rpm (encoder_of w) | Some u \<Rightarrow> u)"
  using assms by (cases pc) (auto simp: numeral_3_eq_3 on_course_def sweep_ok_def)

lemma rpm_command_set: "rpm_command save w = (Rpm_Set v, w') \<Longrightarrow>
    w' = set_encoder_rpm v (cancel_sweep w) \<and> - 3000 \<le> v \<and> v \<le> 3000"
  by (cases rule: rpm_command_cases [of save w]) auto

lemma handle_rpm_set:
  assumes "handle_command line w = (Some (Rpm_Set v), w')"
  shows "w' = set_encoder_rpm v (cancel_sweep w) \<and> - 3000 \<le> v \<and> v \<le> 3000"
proof -
  obtain command save where t: "strtok blanks line = (command, save)" by fastforce
  have "fst (sweep_command save w) \<noteq> Rpm_Set v"
    by (cases rule: sweep_command_cases [of save w]) simp_all
  then have "rpm_command save w = (Rpm_Set v, w')"
    using assms by (auto simp: handle_command_def t apfst_def map_prod_def split: option.splits if_splits prod.splits)
  then show ?thesis by (rule rpm_command_set)
qed

text \<open>
  C40: a speed command does not always last.  After the console has acknowledged \<open>rpm v\<close>, the sweep
  it cancelled is off for good within three steps of its task, and the speed is then \<open>v\<close> if the task
  was polling, about to check or dwelling before its last speed.  A command given while the task
  dwells at the last speed or finishes is lost: the task still sets the speed to zero without
  looking at the generation again, and between its check and its write it sets the old speed.
\<close>
theorem rpm_command_kept_or_lost:
  assumes "wheel_reach alarm pc w" and "handle_command line w = (Some (Rpm_Set v), w')" and "3 \<le> n"
  shows "fst (sweep_run n (pc, w')) = Poll
    \<and> \<not> sweep_active (sweep_of (snd (sweep_run n (pc, w'))))
    \<and> enc_rpm (encoder_of (snd (sweep_run n (pc, w')))) =
        (case overwritten_by pc of None \<Rightarrow> v | Some u \<Rightarrow> u)"
proof -
  note set = handle_rpm_set [OF assms(2)]
  have "pc_ok pc" using wheel_reach_ok [OF assms(1)] by (simp add: wheel_ok_def)
  moreover have "enc_rpm (encoder_of w') = v" "\<not> sweep_active (sweep_of w')" using set by simp_all
  ultimately obtain w'' where "sweep_run 3 (pc, w') = (Poll, w'')" "\<not> sweep_active (sweep_of w'')"
      "enc_rpm (encoder_of w'') = (case overwritten_by pc of None \<Rightarrow> v | Some u \<Rightarrow> u)"
    using sweep_run_cancelled [of w' pc] by metis
  moreover have "n = 3 + (n - 3)" using assms(3) by simp
  ultimately show ?thesis
    using sweep_run_add [of 3 "n - 3" "(pc, w')"] by (simp add: sweep_run_idle)
qed

theorem rpm_command_kept_or_lost_witness:
  "handle_command ''rpm 500'' (snd (sweep_run 9 (Poll, sweeping)))
     = (Some (Rpm_Set 500), set_encoder_rpm 500 (cancel_sweep (set_encoder_rpm 100 sweeping)))
   \<and> enc_rpm (encoder_of (snd (sweep_run 3 (Dwelt (sweep_of sweeping) 100,
       set_encoder_rpm 500 (cancel_sweep (set_encoder_rpm 100 sweeping)))))) = 0"
proof -
  have s9: "sweep_run 9 (Poll, sweeping) = (Dwelt (sweep_of sweeping) 100, set_encoder_rpm 100 sweeping)"
    by (simp add: eval_nat_numeral sweeping_state next_rpm_def Let_def)
  have "strtok blanks ''rpm 500'' = (Some ''rpm'', ''500'')" "strtok blanks ''500'' = (Some ''500'', [])"
      "strtok blanks [] = (None, [])" "parse_int32 (Some ''500'') = Some 500"
    by code_simp+
  then have c: "handle_command ''rpm 500'' w = (Some (Rpm_Set 500), set_encoder_rpm 500 (cancel_sweep w))" for w
    by (simp add: handle_command_def rpm_command_def MAX_ABSOLUTE_RPM_def)
  have "wheel_reach 1 (Dwelt (sweep_of sweeping) 100) (set_encoder_rpm 100 sweeping)"
    using wheel_reach_run [OF reach_sweeping, of 9] unfolding s9 by simp
  from rpm_command_kept_or_lost [OF this c, of 3] show ?thesis
    unfolding s9 snd_conv c by (simp add: sweeping_state)
qed

end
