(* ===== verification/Wheel_Bench.thy ===== *)
theory Wheel_Bench
  imports Wheel_Simulator
begin

text \<open>
  The bench of \<open>simulators/wheel-rpm/README.md\<close>: the pins of the bearing simulator drive the
  inputs of the bearing node, whose interrupt runs at every edge and whose sampling task reads the
  speed.  The two timers differ by an offset and run at the same rate.
\<close>

subsection \<open>The grid of edges\<close>

text \<open>The time of the \<open>n\<close>-th edge after the first one at the speed \<open>v\<close>.\<close>

definition edge_time :: "int \<Rightarrow> nat \<Rightarrow> int" where
  "edge_time v n = int n * 60000000 div (128 * \<bar>v\<bar>)"

text \<open>The instant \<open>x\<close> lies after the edges below \<open>m\<close> and before the edge \<open>m\<close>.\<close>

definition after_edges :: "int \<Rightarrow> int \<Rightarrow> nat \<Rightarrow> bool" where
  "after_edges v x m \<longleftrightarrow> (0 < m \<longrightarrow> edge_time v (m - 1) \<le> x) \<and> x < edge_time v m"

lemma edge_time_0 [simp]: "edge_time v 0 = 0"
  by (simp add: edge_time_def)

lemma div_bounds:
  fixes x :: int
  assumes "0 < d"
  shows "x div d * d \<le> x" and "x < x div d * d + d"
  using assms div_mult_mod_eq [of x d] pos_mod_bound [of d x] pos_mod_sign [of d x] by linarith+

lemma div_accumulate:
  fixes x :: int
  assumes "0 < d"
  shows "(x + y) div d = x div d + (x mod d + y) div d"
proof -
  have "x + y = (x mod d + y) + x div d * d" using div_mult_mod_eq [of x d] by linarith
  then have "(x + y) div d = ((x mod d + y) + x div d * d) div d" by (rule arg_cong)
  also have "\<dots> = x div d + (x mod d + y) div d" using assms by (intro div_mult_self1) simp
  finally show ?thesis .
qed

lemma edge_time_step:
  assumes "v \<noteq> 0"
  shows "edge_time v (Suc n) = edge_time v n + (int n * 60000000 mod (128 * \<bar>v\<bar>) + 60000000) div (128 * \<bar>v\<bar>)"
    and "int (Suc n) * 60000000 mod (128 * \<bar>v\<bar>) = (int n * 60000000 mod (128 * \<bar>v\<bar>) + 60000000) mod (128 * \<bar>v\<bar>)"
proof -
  let ?d = "128 * \<bar>v\<bar>" and ?x = "int n * 60000000"
  have x: "int (Suc n) * 60000000 = ?x + 60000000" by simp
  show "edge_time v (Suc n) = edge_time v n + (?x mod ?d + 60000000) div ?d"
    using assms unfolding edge_time_def x by (intro div_accumulate) simp
  show "int (Suc n) * 60000000 mod ?d = (?x mod ?d + 60000000) mod ?d"
    unfolding x by (rule mod_add_left_eq [symmetric])
qed

lemma after_edges_product:
  assumes "v \<noteq> 0" and "after_edges v x m" and "0 \<le> x"
  shows "(x + 1) * (128 * \<bar>v\<bar>) \<le> int m * 60000000"
    and "int m * 60000000 < (x + 1) * (128 * \<bar>v\<bar>) + 60000000"
proof -
  let ?d = "128 * \<bar>v\<bar>"
  have d: "0 < ?d" using assms(1) by simp
  have m: "0 < m" using assms(2,3) by (cases m) (simp_all add: after_edges_def)
  have "x + 1 \<le> edge_time v m" using assms(2) by (simp add: after_edges_def)
  then have "(x + 1) * ?d \<le> edge_time v m * ?d" using d by (intro mult_right_mono) simp_all
  then show "(x + 1) * ?d \<le> int m * 60000000"
    using div_bounds(1) [OF d, of "int m * 60000000"] unfolding edge_time_def by linarith
  have "edge_time v (m - 1) < x + 1" using assms(2) m by (simp add: after_edges_def)
  then have "(edge_time v (m - 1) + 1) * ?d \<le> (x + 1) * ?d" using d by (intro mult_right_mono) simp_all
  moreover have "int (m - 1) * 60000000 = int m * 60000000 - 60000000" using m by (simp add: algebra_simps)
  ultimately show "int m * 60000000 < (x + 1) * ?d + 60000000"
    using div_bounds(2) [OF d, of "int (m - 1) * 60000000"] unfolding edge_time_def distrib_right by linarith
qed

text \<open>The edges between two instants, up to less than one edge.\<close>

lemma edges_between:
  assumes "v \<noteq> 0" and "after_edges v x m" and "after_edges v y n" and "0 \<le> x" and "0 \<le> y"
  shows "\<bar>(int n - int m) * 60000000 - (y - x) * (128 * \<bar>v\<bar>)\<bar> < 60000000"
  using after_edges_product [OF assms(1,2,4)] after_edges_product [OF assms(1,3,5)]
  by (simp add: algebra_simps abs_less_iff)

text \<open>From 5 RPM on two edges are less than a tenth of a second apart.\<close>

lemma recent_edge:
  assumes "5 \<le> \<bar>v\<bar>" and "after_edges v x m" and "0 < m"
  shows "x - edge_time v (m - 1) < ENCODER_STOP_TIMEOUT_US"
proof -
  have m: "m = Suc (m - 1)" using assms(3) by simp
  have v: "v \<noteq> 0" using assms(1) by auto
  define d where "d = 128 * \<bar>v\<bar>"
  have d: "640 \<le> d" using assms(1) by (simp add: d_def)
  have "int (m - 1) * 60000000 mod d < d" using d by simp
  moreover have "60000000 \<le> 93750 * d" using d by simp
  ultimately have "(int (m - 1) * 60000000 mod d + 60000000) < (93750 + 1) * d"
    unfolding distrib_right mult_1 by linarith
  then have "(int (m - 1) * 60000000 mod d + 60000000) div d \<le> 93750"
    using d by (intro div_between(2) [where k = 0]) simp_all
  then have "edge_time v m \<le> edge_time v (m - 1) + 93750"
    using edge_time_step(1) [OF v, of "m - 1", folded d_def] m by simp
  then show ?thesis using assms(2) by (simp add: after_edges_def ENCODER_STOP_TIMEOUT_US_def)
qed

text \<open>The conversion of the node without its clamp.\<close>

lemma calculate_rpm_near:
  assumes "0 < elapsed" and "\<bar>counts * 60000000\<bar> \<le> 2 ^ 30 * (128 * elapsed)"
  shows "\<bar>calculate_rpm counts elapsed * (128 * elapsed) - counts * 60000000\<bar> * 2 \<le> 128 * elapsed"
proof -
  let ?d = "128 * elapsed" and ?n = "counts * 60000000"
  let ?r = "if 0 < ?n then c_div (?n + ?d div 2) ?d else c_div (?n - ?d div 2) ?d"
  have d: "0 < ?d" "even ?d" using assms(1) by simp_all
  have near: "\<bar>?r * ?d - ?n\<bar> * 2 \<le> ?d" by (rule c_div_round [OF d])
  have scaled: "\<bar>q\<bar> \<le> b + d" if "\<bar>q - n\<bar> * 2 \<le> d" "\<bar>n\<bar> \<le> b" for q n b d :: int
    using that by (auto simp: abs_if split: if_splits)
  have "\<bar>?r * ?d\<bar> \<le> (2 ^ 30 + 1) * ?d" using scaled [OF near assms(2)] by (simp only: distrib_right mult_1)
  then have "\<bar>?r\<bar> * ?d \<le> (2 ^ 30 + 1) * ?d" using d(1) by (simp only: abs_mult abs_of_pos)
  then have r: "\<bar>?r\<bar> \<le> 2 ^ 30 + 1" by (rule mult_right_le_imp_le [OF _ d(1)])
  have "calculate_rpm counts elapsed = (if counts = 0 then 0 else if ?r > 2 ^ 31 - 1 then 2 ^ 31 - 1
        else if ?r < - (2 ^ 31) then - (2 ^ 31) else ?r)"
    using assms(1) by (simp add: calculate_rpm_def ENCODER_COUNTS_PER_REVOLUTION_def Let_def c_div_half)
  moreover have "\<not> x > 2 ^ 31 - 1 \<and> \<not> x < - (2 ^ 31)" if "\<bar>x\<bar> \<le> 2 ^ 30 + 1" for x :: int
    using that by (auto simp: abs_le_iff)
  ultimately have "calculate_rpm counts elapsed = (if counts = 0 then 0 else ?r)"
    using r by (simp only: if_False simp_thms)
  then show ?thesis using near assms(1) by (cases "counts = 0") (simp_all only: if_True if_False, simp)
qed

subsection \<open>The bench\<close>

text \<open>
  The simulator with the speed \<open>v\<close>, from the command that set it with the alarm \<open>first\<close> pending,
  and a session of the node started before this alarm: alarms at their times and readings in
  between, with the log of time and value.  The node's timer is ahead by \<open>off\<close>.
\<close>

inductive bench :: "int \<Rightarrow> u64 \<Rightarrow> int \<Rightarrow> u64 \<Rightarrow> wheel \<Rightarrow> encoder \<Rightarrow> int \<Rightarrow> (int \<times> int) list \<Rightarrow> bool"
  for off first v where
  start: "wheel_reach first pc w \<Longrightarrow> last_state c = read_state (pin_a w) (pin_b w) \<Longrightarrow>
    length (count_window c) = 5 \<Longrightarrow> length (time_window_us c) = 5 \<Longrightarrow>
    0 < off + uint first \<Longrightarrow> now < off + uint first \<Longrightarrow>
    bench off first v first (set_encoder_rpm v w) (start_encoder now c) now []"
| edge: "bench off first v alarm w c now log \<Longrightarrow> alarm < 2 ^ 62 \<Longrightarrow>
    edge_alarm_callback alarm w = (alarm', w') \<Longrightarrow> t = off + uint alarm \<Longrightarrow>
    bench off first v alarm' w' (encoder_isr (read_state (pin_a w') (pin_b w')) t c) t log"
| reading: "bench off first v alarm w c now log \<Longrightarrow> now < t \<Longrightarrow> t < off + uint alarm \<Longrightarrow>
    read_rpm t c = ((ESP_OK, Some x), c') \<Longrightarrow>
    bench off first v alarm w c' t (log @ [(t, x)])"

text \<open>One edge seen by the node: the simulator's forward direction is the node's negative one.\<close>

lemma quadrature_seen:
  assumes "i \<in> {0, 1, 2, 3 :: u8}" and "d \<in> {1, - 1}"
  shows "encoder_transition (quadrature_states ! unat i)
     (quadrature_states ! unat (word_of_int ((uint i + d) mod 4) :: u8)) = - d"
  using assms
  by (elim insertE) (simp_all add: quadrature_states_def encoder_transition_def transitions_def
      ENCODER_DIRECTION_SIGN_def)

definition points_ok :: "int \<Rightarrow> int \<Rightarrow> (int \<times> int) list \<Rightarrow> bool" where
  "points_ok v origin points \<longleftrightarrow>
     (\<forall>p \<in> set points. \<exists>m. snd p = - sgn v * int m \<and> after_edges v (fst p - origin) m)"

text \<open>A logged value is close to the negated speed once its window lies after the first edge.\<close>

definition log_ok :: "int \<Rightarrow> int \<Rightarrow> (int \<times> int) list \<Rightarrow> bool" where
  "log_ok v origin log \<longleftrightarrow>
     (\<forall>i. i + 5 < length log \<longrightarrow> origin \<le> fst (log ! i) \<longrightarrow>
        \<bar>snd (log ! (i + 5)) + v\<bar> * (128 * (fst (log ! (i + 5)) - fst (log ! i)))
          \<le> 60000000 + 64 * (fst (log ! (i + 5)) - fst (log ! i)))"

lemma log_entry:
  assumes v: "5 \<le> \<bar>v\<bar>" "\<bar>v\<bar> \<le> 3000" and "s < t" and "0 \<le> s - origin"
    and "after_edges v (s - origin) m" and "after_edges v (t - origin) n"
  shows "\<bar>calculate_rpm (- sgn v * int n - - sgn v * int m) (t - s) + v\<bar> * (128 * (t - s)) \<le> 60000000 + 64 * (t - s)"
proof -
  have v0: "v \<noteq> 0" using v by auto
  define D where "D = t - s"
  have D: "0 < D" using assms(3) by (simp add: D_def)
  define k where "k = int n - int m"
  have k: "\<bar>k * 60000000 - D * (128 * \<bar>v\<bar>)\<bar> < 60000000"
    using edges_between [OF v0 assms(5,6)] assms(3,4) by (simp add: k_def D_def)
  have counts: "- sgn v * int n - - sgn v * int m = - sgn v * k" by (simp add: k_def algebra_simps)
  have sk: "\<bar>- sgn v * k * 60000000\<bar> = \<bar>k * 60000000\<bar>" using v0 by (simp add: abs_mult)
  have "D * (128 * \<bar>v\<bar>) \<le> D * (128 * 3000)" using D v by (intro mult_left_mono) simp_all
  moreover have "\<bar>x\<bar> \<le> 2 ^ 30 * (128 * D)"
    if "\<bar>x - y\<bar> < 60000000" "0 \<le> y" "y \<le> D * (128 * 3000)" for x y :: int
    using that D by (auto simp: abs_if split: if_splits)
  ultimately have "\<bar>k * 60000000\<bar> \<le> 2 ^ 30 * (128 * D)" using k D by simp
  then have near: "\<bar>calculate_rpm (- sgn v * k) D * (128 * D) - - sgn v * k * 60000000\<bar> * 2 \<le> 128 * D"
    using calculate_rpm_near [OF D, of "- sgn v * k"] unfolding sk by simp
  have "\<bar>- sgn v * k * 60000000 + v * (128 * D)\<bar> < 60000000"
  proof (cases "0 < v")
    case True
    then show ?thesis using k by (simp add: algebra_simps abs_less_iff)
  next
    case False
    then show ?thesis using k v0 by (simp add: algebra_simps abs_less_iff)
  qed
  moreover have "\<bar>r + v\<bar> * (128 * D) = \<bar>r * (128 * D) + v * (128 * D)\<bar>" for r
    using D by (simp only: distrib_right [symmetric] abs_mult)
  moreover have "\<bar>a + w\<bar> \<le> 60000000 + 64 * D" if "\<bar>a - b\<bar> * 2 \<le> 128 * D" "\<bar>b + w\<bar> < 60000000" for a b w
    using that by (auto simp: abs_if split: if_splits)
  ultimately show ?thesis using near unfolding counts D_def [symmetric] by simp
qed

text \<open>The state of the bench after \<open>n\<close> edges, against the odometer of the node.\<close>

definition bench_inv ::
  "int \<Rightarrow> u64 \<Rightarrow> int \<Rightarrow> u64 \<Rightarrow> wheel \<Rightarrow> encoder \<Rightarrow> int \<Rightarrow> (int \<times> int) list \<Rightarrow> nat \<Rightarrow> odometer \<Rightarrow> bool" where
  "bench_inv off first v alarm w c now log n od \<longleftrightarrow>
     (let origin = off + uint first
      in encoder_ok (encoder_of w) \<and> pins_ok w \<and> enc_rpm (encoder_of w) = v
       \<and> uint (fractional_accumulator (encoder_of w)) = int n * 60000000 mod (128 * \<bar>v\<bar>)
       \<and> uint alarm = uint first + edge_time v n \<and> now < off + uint alarm
       \<and> encoder_abs c od \<and> od_state od = read_state (pin_a w) (pin_b w)
       \<and> od_count od = - sgn v * int n
       \<and> od_edge od = (if n = 0 then 0 else origin + edge_time v (n - 1))
       \<and> (0 < n \<longrightarrow> origin + edge_time v (n - 1) \<le> now)
       \<and> map fst (tl (od_points od)) = map fst log \<and> points_ok v origin (tl (od_points od))
       \<and> log_ok v origin log \<and> (\<forall>p \<in> set (od_points od). fst p \<le> now))"

lemma state_read:
  assumes "pins_ok w"
  shows "read_state (pin_a w) (pin_b w) = quadrature_states ! unat (state_index (encoder_of w))"
  using assms by (simp add: pins_ok_def)

lemma bench_edge:
  assumes v: "5 \<le> \<bar>v\<bar>" and inv: "bench_inv off first v alarm w c now log n od"
    and alarm: "alarm < 2 ^ 62" and step: "edge_alarm_callback alarm w = (alarm', w')"
  shows "bench_inv off first v alarm' w' (encoder_isr (read_state (pin_a w') (pin_b w')) (off + uint alarm) c)
     (off + uint alarm) log (Suc n) (odometer_edge (read_state (pin_a w') (pin_b w')) (off + uint alarm) od)"
proof -
  let ?e = "encoder_of w"
  have v0: "v \<noteq> 0" using v by auto
  have ok: "encoder_ok ?e" "pins_ok w" and rpm: "enc_rpm ?e = v"
    and acc: "uint (fractional_accumulator ?e) = int n * 60000000 mod (128 * \<bar>v\<bar>)"
    and at: "uint alarm = uint first + edge_time v n" "now < off + uint alarm"
    and od: "encoder_abs c od" "od_state od = read_state (pin_a w) (pin_b w)"
    and count: "od_count od = - sgn v * int n"
    using inv by (simp_all add: bench_inv_def Let_def)
  note s = edge_alarm_step [OF ok(1) step]
  obtain interval where i: "alarm' = alarm + word_of_int interval" "156 \<le> interval" "interval \<le> 468750"
      "interval = (int n * 60000000 mod (128 * \<bar>v\<bar>) + 60000000) div (128 * \<bar>v\<bar>)"
      "uint (fractional_accumulator (encoder_of w')) = (int n * 60000000 mod (128 * \<bar>v\<bar>) + 60000000) mod (128 * \<bar>v\<bar>)"
    using s v0 unfolding rpm acc by blast
  have alarm': "uint alarm' = uint alarm + interval"
  proof -
    have u: "uint (word_of_int interval :: u64) = interval"
      using i(2,3) by (simp add: uint_word_of_int_eq take_bit_int_eq_self)
    have "uint alarm < 2 ^ 62" using alarm by (simp add: word_less_def)
    then have "uint alarm + uint (word_of_int interval :: u64) < 2 ^ LENGTH(64)"
      unfolding u using i(3) by simp
    from iffD1 [OF uint_add_lem this] show ?thesis unfolding i(1) u .
  qed
  have grid: "uint alarm' = uint first + edge_time v (Suc n)"
    unfolding alarm' at(1) edge_time_step(1) [OF v0] i(4) by simp
  have index: "state_index ?e \<in> {0, 1, 2, 3}" by (rule small_index [OF encoder_ok_index [OF ok(1)]])
  have dir: "direction ?e = sgn v" using ok(1) v0 unfolding rpm by (simp add: encoder_ok_def rpm sgn_if)
  have "absolute_rpm ?e \<noteq> 0" using ok(1) v0 by (auto simp: encoder_ok_def rpm)
  then have turned: "state_index (encoder_of w') = word_of_int ((uint (state_index ?e) + sgn v) mod 4)"
    using s dir by (simp add: next_index_def)
  have pins': "pins_ok w'" using s by blast
  have tr: "encoder_transition (od_state od) (read_state (pin_a w') (pin_b w')) = - sgn v"
    unfolding od(2) state_read [OF ok(2)] state_read [OF pins'] turned
    by (rule quadrature_seen [OF index]) (use v0 in \<open>simp add: sgn_if\<close>)
  let ?st = "read_state (pin_a w') (pin_b w')"
  have od': "odometer_edge ?st (off + uint alarm) od
      = od\<lparr>od_count := - sgn v * int (Suc n), od_edge := off + uint alarm, od_state := ?st\<rparr>"
    unfolding odometer_edge_def tr count Let_def using v0 by (simp add: algebra_simps sgn_0_0)
  have abs': "encoder_abs (encoder_isr ?st (off + uint alarm) c)
      (od\<lparr>od_count := - sgn v * int (Suc n), od_edge := off + uint alarm, od_state := ?st\<rparr>)"
    using encoder_abs_edge [OF od(1), of ?st "off + uint alarm"] unfolding od' .
  have past: "\<forall>p\<in>set (od_points od). fst p \<le> off + uint alarm"
    using inv at(2) by (auto simp: bench_inv_def Let_def dest!: bspec)
  have "encoder_ok (encoder_of w')" "enc_rpm (encoder_of w') = v" using s rpm by blast+
  moreover have "uint (fractional_accumulator (encoder_of w')) = int (Suc n) * 60000000 mod (128 * \<bar>v\<bar>)"
    unfolding edge_time_step(2) [OF v0] by (rule i(5))
  moreover have "off + uint alarm < off + uint alarm'" using alarm' i(2) by simp
  moreover have "off + uint alarm = off + uint first + edge_time v n" using at(1) by simp
  ultimately show ?thesis
    using inv past abs' pins' grid unfolding od' bench_inv_def Let_def by simp
qed

text \<open>The node reads the mean over the five latest points while edges keep coming.\<close>

lemma read_value:
  assumes "5 \<le> \<bar>v\<bar>" and "0 < origin" and here: "after_edges v (t - origin) n" and "origin \<le> t"
    and last: "fst (last (od_points od)) < t"
    and edge: "od_edge od = (if n = 0 then 0 else origin + edge_time v (n - 1))"
    and len: "length (od_points od) = i + 6"
  shows "fst (odometer_read t od) =
    calculate_rpm (od_count od - snd (od_points od ! Suc i)) (t - fst (od_points od ! Suc i))"
proof -
  have n: "0 < n" using here assms(4) by (cases n) (simp_all add: after_edges_def)
  have "0 \<le> edge_time v (n - 1)"
    unfolding edge_time_def using assms(1) by (intro pos_imp_zdiv_nonneg_iff [THEN iffD2]) auto
  moreover have "t - origin - edge_time v (n - 1) < ENCODER_STOP_TIMEOUT_US"
    by (rule recent_edge [OF assms(1) here n])
  ultimately have "\<not> encoder_is_stopped (od_edge od) t"
    using n assms(2) by (simp add: encoder_is_stopped_def edge)
  moreover have "(od_points od @ [(t, od_count od)]) !
      (length (od_points od @ [(t, od_count od)]) - 1 - min 5 (length (od_points od @ [(t, od_count od)]) - 1))
      = od_points od ! Suc i"
    using len by (simp add: nth_append)
  ultimately show ?thesis
    using last unfolding odometer_read_def case_prod_unfold Let_def by simp
qed

lemma bench_read:
  assumes v: "5 \<le> \<bar>v\<bar>" "\<bar>v\<bar> \<le> 3000" and inv: "bench_inv off first v alarm w c now log n od"
    and origin: "0 < off + uint first"
    and t: "now < t" "t < off + uint alarm" and read: "read_rpm t c = ((ESP_OK, Some x), c')"
  shows "bench_inv off first v alarm w c' t (log @ [(t, x)]) n (snd (odometer_read t od))"
proof -
  let ?o = "off + uint first" and ?p = "(t, od_count od)"
  have abs: "encoder_abs c od" and past: "\<forall>p \<in> set (od_points od). fst p \<le> now"
    and times: "map fst (tl (od_points od)) = map fst log" and points: "points_ok v ?o (tl (od_points od))"
    and log: "log_ok v ?o log" and count: "od_count od = - sgn v * int n"
    and edge: "od_edge od = (if n = 0 then 0 else ?o + edge_time v (n - 1))" "0 < n \<longrightarrow> ?o + edge_time v (n - 1) \<le> now"
    and alarm: "uint alarm = uint first + edge_time v n"
    using inv by (simp_all add: bench_inv_def Let_def)
  have ne: "od_points od \<noteq> []" using abs by (simp add: encoder_abs_def)
  then have last: "fst (last (od_points od)) < t" using past t(1) by (meson last_in_set order_le_less_trans)
  have abs': "encoder_abs c' (snd (odometer_read t od))" and x: "x = fst (odometer_read t od)"
    using encoder_abs_read [OF abs last] read by simp_all
  have od': "snd (odometer_read t od) = od\<lparr>od_points := od_points od @ [?p]\<rparr>"
    using last by (simp add: odometer_read_def case_prod_unfold Let_def)
  have here: "after_edges v (t - ?o) n"
    using edge(2) t alarm by (auto simp: after_edges_def)
  have points': "points_ok v ?o (tl (od_points od) @ [?p])"
    using points here count by (auto simp: points_ok_def)
  have log': "log_ok v ?o (log @ [(t, x)])"
    unfolding log_ok_def
  proof (intro allI impI)
    fix i assume i: "i + 5 < length (log @ [(t, x)])" and late: "?o \<le> fst ((log @ [(t, x)]) ! i)"
    show "\<bar>snd ((log @ [(t, x)]) ! (i + 5)) + v\<bar>
        * (128 * (fst ((log @ [(t, x)]) ! (i + 5)) - fst ((log @ [(t, x)]) ! i)))
      \<le> 60000000 + 64 * (fst ((log @ [(t, x)]) ! (i + 5)) - fst ((log @ [(t, x)]) ! i))"
    proof (cases "i + 5 < length log")
      case True
      then show ?thesis using log late by (simp add: log_ok_def nth_append)
    next
      case False
      then have i': "i + 5 = length log" using i by simp
      have len: "length (od_points od) = length log + 1"
        using arg_cong [OF times, of length] ne by (cases "od_points od") simp_all
      let ?q = "od_points od ! Suc i"
      have q: "?q = tl (od_points od) ! i" using len i' by (simp add: nth_tl)
      have s: "fst ?q = fst (log ! i)"
        using arg_cong [OF times, of "\<lambda>l. l ! i"] len i' by (simp add: q)
      have "?q \<in> set (tl (od_points od))" unfolding q using len i' by (intro nth_mem) simp
      then obtain m where m: "snd ?q = - sgn v * int m" "after_edges v (fst ?q - ?o) m"
        using points by (auto simp: points_ok_def)
      have "?q \<in> set (od_points od)" using len i' by (intro nth_mem) simp
      then have early: "fst ?q < t" using past t(1) by fastforce
      have origin': "0 \<le> fst ?q - ?o" using late i' by (simp add: s nth_append)
      have "x = calculate_rpm (- sgn v * int n - - sgn v * int m) (t - fst ?q)"
        unfolding x using read_value [OF v(1) origin here _ last edge(1), of i] early origin' len i'
        by (simp add: count m(1))
      then show ?thesis
        using log_entry [OF v early origin' m(2) here] i' by (simp add: nth_append s)
    qed
  qed
  show ?thesis
    using inv abs' points' log' t times ne past unfolding od' bench_inv_def Let_def
    by auto
qed

lemma bench_start:
  assumes reach: "wheel_reach first pc w" and state: "last_state c = read_state (pin_a w) (pin_b w)"
    and len: "length (count_window c) = 5" "length (time_window_us c) = 5"
    and now: "now < off + uint first" and v: "5 \<le> \<bar>v\<bar>" "\<bar>v\<bar> \<le> 3000"
  shows "bench_inv off first v first (set_encoder_rpm v w) (start_encoder now c) now [] 0
    \<lparr>od_count = 0, od_edge = 0, od_state = last_state c, od_points = [(now, 0)]\<rparr>"
proof -
  have ok: "encoder_ok (encoder_of w)" "pins_ok w" using wheel_reach_ok [OF reach] by (simp_all add: wheel_ok_def)
  have "encoder_abs (start_encoder now c)
      \<lparr>od_count = 0, od_edge = 0, od_state = last_state c, od_points = [(now, 0)]\<rparr>"
    using len by (simp add: encoder_abs_def start_encoder_def slots_def Let_def)
  moreover have "pin_a (set_encoder_rpm v w) = pin_a w" "pin_b (set_encoder_rpm v w) = pin_b w"
      "fractional_accumulator (encoder_of (set_encoder_rpm v w)) = 0"
    by (simp_all add: set_encoder_rpm_eq)
  moreover have "clamp_rpm v = v" using v by simp
  ultimately show ?thesis
    using ok now state encoder_ok_index [OF ok(1)]
    by (simp add: bench_inv_def points_ok_def log_ok_def Let_def)
qed

lemma bench_reachable:
  assumes "bench off first v alarm w c now log" and "5 \<le> \<bar>v\<bar>" and "\<bar>v\<bar> \<le> 3000"
  shows "0 < off + uint first \<and> (\<exists>n od. bench_inv off first v alarm w c now log n od)"
  using assms(1)
proof (induction rule: bench.induct)
  case (start pc w c now)
  then show ?case using bench_start [OF start(1-4,6) assms(2,3)] by blast
next
  case (edge alarm w c now log alarm' w' t)
  then show ?case using bench_edge [OF assms(2)] by blast
next
  case (reading alarm w c now log t x c')
  then show ?case using bench_read [OF assms(2,3)] by blast
qed

text \<open>
  C38: the node measures what the simulator plays.  The \<open>n\<close>-th edge comes exactly
  \<open>n * 60 s / (128 * \<bar>v\<bar>)\<close> after the first one, rounded down to a microsecond, so remainders never
  add up.  At a speed \<open>v\<close> of at least 5 RPM in either direction, every reading whose five-period
  window lies after the first edge is \<open>- v\<close> up to one edge and half a revolution per minute over
  the window, hence within 5 RPM for a window of 100 ms; the simulator's forward direction is the
  negative one of the node when A is wired to A and B to B.
\<close>
theorem simulator_measured_by_node:
  assumes "bench off first v alarm w c now log" and "5 \<le> \<bar>v\<bar>" and "\<bar>v\<bar> \<le> 3000"
  shows "(\<exists>n. uint alarm = uint first + int n * 60000000 div (128 * \<bar>v\<bar>))
    \<and> (\<forall>i. i + 5 < length log \<longrightarrow> off + uint first \<le> fst (log ! i) \<longrightarrow>
         (let window = fst (log ! (i + 5)) - fst (log ! i); err = \<bar>snd (log ! (i + 5)) + v\<bar>
          in err * (128 * window) \<le> 60000000 + 64 * window \<and> (100000 \<le> window \<longrightarrow> err \<le> 5)))"
proof -
  obtain n od where inv: "bench_inv off first v alarm w c now log n od"
    using bench_reachable [OF assms] by blast
  have near: "e \<le> 5" if "e * (128 * d) \<le> 60000000 + 64 * d" "100000 \<le> d" for e d :: int
  proof (rule ccontr)
    assume "\<not> e \<le> 5"
    then have "6 * (128 * d) \<le> e * (128 * d)" using that(2) by (intro mult_right_mono) simp_all
    then show False using that by linarith
  qed
  have "uint alarm = uint first + int n * 60000000 div (128 * \<bar>v\<bar>)"
    using inv by (simp add: bench_inv_def edge_time_def Let_def)
  then show ?thesis
    using inv near unfolding bench_inv_def log_ok_def Let_def by blast
qed

text \<open>Readings between two alarms.\<close>

lemma bench_readings:
  assumes "bench off first v alarm w c now log" and "sorted_wrt (<) (now # ts)" and "\<forall>t\<in>set ts. t < off + uint alarm"
  shows "\<exists>c' log'. bench off first v alarm w c' (last (now # ts)) (log @ log') \<and> map fst log' = ts"
  using assms
proof (induction ts arbitrary: now c log)
  case Nil
  then show ?case by force
next
  case (Cons t ts)
  have "\<exists>x. fst (read_rpm t c) = (ESP_OK, Some x)" by (simp add: read_rpm_def Let_def)
  then obtain x c' where "read_rpm t c = ((ESP_OK, Some x), c')" by (metis prod.collapse)
  then have "bench off first v alarm w c' t (log @ [(t, x)])"
    using Cons.prems by (intro bench.reading [OF Cons.prems(1)]) simp_all
  from Cons.IH [OF this] Cons.prems obtain c'' log' where
    "bench off first v alarm w c'' (last (t # ts)) ((log @ [(t, x)]) @ log')" "map fst log' = ts" by auto
  then show ?case by (intro exI [of _ c''] exI [of _ "(t, x) # log'"]) simp
qed

theorem simulator_measured_by_node_witness:
  "\<exists>w c log. bench 0 1 5 187501 w c 120000 log \<and> map fst log = [20000, 40000, 60000, 80000, 100000, 120000]
     \<and> \<bar>snd (log ! 5) + 5\<bar> \<le> 5"
proof -
  let ?w0 = "set_encoder_rpm 5 started"
  have ok: "encoder_ok (encoder_of ?w0)" "enc_rpm (encoder_of ?w0) = 5"
      "fractional_accumulator (encoder_of ?w0) = 0"
    using wheel_reach_ok [OF reach_started] by (simp_all add: wheel_ok_def encoder_ok_index)
      (simp add: set_encoder_rpm_eq)
  obtain a1 w1 where e: "edge_alarm_callback 1 ?w0 = (a1, w1)" by fastforce
  note s1 = edge_alarm_step [OF ok(1) e, unfolded ok(2,3)]
  have e1: "edge_alarm_callback 1 ?w0 = (93751, w1)" using s1 unfolding e by auto
  obtain a2 w2 where e': "edge_alarm_callback 93751 w1 = (a2, w2)" by fastforce
  have ok1: "encoder_ok (encoder_of w1)" "enc_rpm (encoder_of w1) = 5" "fractional_accumulator (encoder_of w1) = 0"
    using s1 by (auto simp: word_uint_eq_iff)
  have e2: "edge_alarm_callback 93751 w1 = (187501, w2)"
    using edge_alarm_step [OF ok1(1) e', unfolded ok1(2,3)] unfolding e' by auto
  have "bench 0 1 5 1 ?w0 (start_encoder 0 encoder_boot) 0 []"
    by (rule bench.start [OF reach_started]) 
      (simp_all add: encoder_boot_def started_def wheel_boot_def write_quadrature_state_def read_state_def
        quadrature_states_def set_encoder_rpm_eq ENCODER_WINDOW_SAMPLES_def Let_def)
  from bench.edge [OF this _ e1] obtain c1 where b1: "bench 0 1 5 93751 w1 c1 1 []" by auto
  obtain c2 log1 where b2: "bench 0 1 5 93751 w1 c2 80000 log1" "map fst log1 = [20000, 40000, 60000, 80000]"
    using bench_readings [OF b1, where ts = "[20000, 40000, 60000, 80000]"] by auto
  from bench.edge [OF b2(1) _ e2] obtain c3 where b3: "bench 0 1 5 187501 w2 c3 93751 log1" by auto
  obtain c4 log2 where b4: "bench 0 1 5 187501 w2 c4 120000 (log1 @ log2)" "map fst log2 = [100000, 120000]"
    using bench_readings [OF b3, where ts = "[100000, 120000]"] by auto
  have times: "map fst (log1 @ log2) = [20000, 40000, 60000, 80000, 100000, 120000]" using b2 b4 by simp
  then have len: "length (log1 @ log2) = 6" using arg_cong [of _ _ length] by fastforce
  have "fst ((log1 @ log2) ! 0) = 20000" "fst ((log1 @ log2) ! 5) = 120000"
    using arg_cong [OF times, of "\<lambda>l. l ! 0"] arg_cong [OF times, of "\<lambda>l. l ! 5"] len
    by (simp_all only: nth_map) simp_all
  then have "\<bar>snd ((log1 @ log2) ! 5) + 5\<bar> \<le> 5"
    using simulator_measured_by_node [OF b4(1), THEN conjunct2, rule_format, of 0] len by (simp add: Let_def)
  with b4(1) times show ?thesis by (intro exI conjI)
qed

end
