(* ===== verification/Engine_Simulator.thy ===== *)
theory Engine_Simulator
  imports C_Console Engine_Rpm
begin

text \<open>
  The spark simulator of \<open>simulators/engine-rpm/src/main.c\<close>: the timer interrupt that plays one
  pulse per revolution, the console commands and the tasks of its sweeps, and what the engine node
  measures of the pulses.  The critical sections are the atomic steps; the level written after one
  belongs to it.
\<close>

definition ENGINE_DEFAULT_RPM :: u32 where "ENGINE_DEFAULT_RPM = 1000"
definition MAX_RPM :: u32 where "MAX_RPM = 4000"
definition PULSE_HIGH_US :: u32 where "PULSE_HIGH_US = 200"

record simulator_state =
  sim_rpm :: u32
  period_us :: u32
  output_high :: bool
  pulse_sweep_active :: bool
  pulse_sweep_generation :: u32
  pulse_pin :: bool

definition simulator_boot :: simulator_state where
  "simulator_boot = \<lparr>sim_rpm = ENGINE_DEFAULT_RPM, period_us = 0, output_high = False,
     pulse_sweep_active = False, pulse_sweep_generation = 0, pulse_pin = False\<rparr>"

definition rpm_to_period_us :: "u32 \<Rightarrow> u32" where
  "rpm_to_period_us r = (if r \<noteq> 0 then ucast (60000000 div (ucast r :: u64)) else 0)"

definition set_manual_rpm :: "u32 \<Rightarrow> simulator_state \<Rightarrow> simulator_state" where
  "set_manual_rpm r s =
     (let s = s\<lparr>sim_rpm := r, period_us := rpm_to_period_us r, output_high := False,
                pulse_sweep_active := False, pulse_sweep_generation := pulse_sweep_generation s + 1\<rparr>
      in s\<lparr>pulse_pin := False\<rparr>)"

definition set_sweep_rpm :: "u32 \<Rightarrow> simulator_state \<Rightarrow> simulator_state" where
  "set_sweep_rpm r s =
     (let s = s\<lparr>sim_rpm := r, period_us := rpm_to_period_us r, output_high := False\<rparr>
      in s\<lparr>pulse_pin := False\<rparr>)"

text \<open>The next alarm and the new state; \<open>alarm_value\<close> is the alarm that fired.\<close>

definition pulse_alarm_callback :: "u64 \<Rightarrow> simulator_state \<Rightarrow> u64 \<times> simulator_state" where
  "pulse_alarm_callback alarm_value s =
     (let (high, delay_us) =
        (if sim_rpm s = 0 \<or> period_us s = 0 then (False, 100000)
         else if \<not> output_high s then (True, PULSE_HIGH_US)
         else (False, if period_us s > PULSE_HIGH_US then period_us s - PULSE_HIGH_US else 1))
      in (alarm_value + ucast delay_us, s\<lparr>output_high := high, pulse_pin := high\<rparr>))"

record pulse_init_env =
  output_result :: esp_err
  new_pulse_timer_result :: esp_err
  pulse_callbacks_result :: esp_err
  pulse_enable_result :: esp_err
  pulse_alarm_result :: esp_err
  pulse_start_result :: esp_err

text \<open>The first alarm is set when the call that sets it is reached.\<close>

definition initialize_pulse_output ::
  "pulse_init_env \<Rightarrow> simulator_state \<Rightarrow> esp_err \<times> u64 option \<times> simulator_state" where
  "initialize_pulse_output env s =
     (if output_result env \<noteq> ESP_OK then (output_result env, None, s)
      else
        let s = s\<lparr>pulse_pin := False\<rparr>
        in if new_pulse_timer_result env \<noteq> ESP_OK then (new_pulse_timer_result env, None, s)
           else if pulse_callbacks_result env \<noteq> ESP_OK then (pulse_callbacks_result env, None, s)
           else if pulse_enable_result env \<noteq> ESP_OK then (pulse_enable_result env, None, s)
           else if pulse_alarm_result env \<noteq> ESP_OK then (pulse_alarm_result env, None, s)
           else (pulse_start_result env, Some 1, s))"

subsection \<open>Sweeps\<close>

text \<open>
  A sweep task between two of its atomic steps: before the check of the loop counted up or down
  (after the delay of the previous round), between this check and the write of the speed, after
  the last delay, before the final stop, and deleted.
\<close>

datatype pulse_pc =
    Check_Up int
  | Apply_Up int
  | Check_Down int
  | Apply_Down int
  | Finish
  | Final_Stop
  | Deleted

fun pulse_sweep_task :: "u32 \<Rightarrow> pulse_pc \<Rightarrow> simulator_state \<Rightarrow> pulse_pc \<times> simulator_state" where
  "pulse_sweep_task g (Check_Up r) s =
     (if pulse_sweep_active s \<and> pulse_sweep_generation s = g then Apply_Up r else Deleted, s)"
| "pulse_sweep_task g (Apply_Up r) s =
     (if r + 250 \<le> uint MAX_RPM then Check_Up (r + 250) else Check_Down (uint MAX_RPM - 250),
      set_sweep_rpm (word_of_int r) s)"
| "pulse_sweep_task g (Check_Down r) s =
     (if pulse_sweep_active s \<and> pulse_sweep_generation s = g then Apply_Down r else Deleted, s)"
| "pulse_sweep_task g (Apply_Down r) s =
     (if r - 250 \<ge> 0 then Check_Down (r - 250) else Finish, set_sweep_rpm (word_of_int r) s)"
| "pulse_sweep_task g Finish s =
     (Final_Stop, if pulse_sweep_generation s = g then s\<lparr>pulse_sweep_active := False\<rparr> else s)"
| "pulse_sweep_task g Final_Stop s = (Deleted, set_sweep_rpm 0 s)"
| "pulse_sweep_task g Deleted s = (Deleted, s)"

text \<open>The generation of the task it creates, if \<open>xTaskCreate\<close> succeeds.\<close>

definition start_sweep :: "bool \<Rightarrow> simulator_state \<Rightarrow> u32 option \<times> simulator_state" where
  "start_sweep created s =
     (let s = s\<lparr>pulse_sweep_active := True, pulse_sweep_generation := pulse_sweep_generation s + 1\<rparr>
      in if \<not> created then (None, s\<lparr>pulse_sweep_active := False\<rparr>)
         else (Some (pulse_sweep_generation s), s))"

subsection \<open>Commands\<close>

definition simulator_status :: "simulator_state \<Rightarrow> string" where
  "simulator_status s =
     ''target='' @ dec (unat (sim_rpm s)) @ '' RPM, period='' @ dec (unat (period_us s))
     @ '' us, high='' @ dec (if output_high s then unat PULSE_HIGH_US else 0)
     @ '' us, GPIO=8, sweep='' @ (if pulse_sweep_active s then ''active'' else ''inactive'')"

datatype pulse_reply =
    Target_Set u32 | Rpm_Usage | Sweep_Started u32 | Sweep_Failed | Status_Text string | Help_Text
  | Unknown_Command string

text \<open>The text without blanks at either end.\<close>

definition trim :: "string \<Rightarrow> string" where
  "trim s = rev (skip_space (rev (skip_space s)))"

definition pulse_rpm_command :: "string \<Rightarrow> simulator_state \<Rightarrow> pulse_reply \<times> simulator_state" where
  "pulse_rpm_command text s =
     (let (r, rest) = strtoul10 text
      in if skip_space rest \<noteq> [] \<or> r > MAX_RPM then (Rpm_Usage, s)
         else (Target_Set r, set_manual_rpm r s))"

definition process_command :: "bool \<Rightarrow> string \<Rightarrow> simulator_state \<Rightarrow> pulse_reply option \<times> simulator_state" where
  "process_command created line s =
     (let command = trim line
      in if take 4 command = ''rpm '' then apfst Some (pulse_rpm_command (drop 4 command) s)
         else if command = ''stop'' then (Some (Target_Set 0), set_manual_rpm 0 s)
         else if command = ''sweep''
         then (case start_sweep created s of
                 (None, s) \<Rightarrow> (Some Sweep_Failed, s)
               | (Some g, s) \<Rightarrow> (Some (Sweep_Started g), s))
         else if command = ''status'' then (Some (Status_Text (simulator_status s)), s)
         else if command = ''help'' then (Some Help_Text, s)
         else if command \<noteq> [] then (Some (Unknown_Command command), s)
         else (None, s))"

text \<open>The console task on the input available so far.\<close>

function pulse_console :: "bool \<Rightarrow> string \<Rightarrow> simulator_state \<Rightarrow> pulse_reply list \<times> simulator_state" where
  "pulse_console created input s =
     (case fgets 128 input of
        None \<Rightarrow> ([], s)
      | Some (line, rest) \<Rightarrow>
          let (reply, s) = process_command created line s;
              (replies, s) = pulse_console created rest s
          in ((case reply of None \<Rightarrow> [] | Some r \<Rightarrow> [r]) @ replies, s))"
  by pat_completeness auto
termination
  by (relation "measure (\<lambda>(created, input, s). length input)") (auto dest: fgets_shorter)

text \<open>
  \<open>app_main\<close>: the state when the console runs, and the pending alarm.  The first alarm may fire
  before the start-up speed is set (\<open>fired\<close>).  A failed check aborts.
\<close>

definition pulse_app_main :: "pulse_init_env \<Rightarrow> bool \<Rightarrow> bool \<Rightarrow> (u64 \<times> simulator_state) option" where
  "pulse_app_main env fired console_created =
     (case initialize_pulse_output env simulator_boot of
        (ESP_OK, Some alarm, s) \<Rightarrow>
          (let (alarm, s) = (if fired then pulse_alarm_callback alarm s else (alarm, s));
               s = set_manual_rpm ENGINE_DEFAULT_RPM s
           in if \<not> console_created then None else Some (alarm, s))
      | _ \<Rightarrow> None)"

subsection \<open>The pulses\<close>

text \<open>The alarms, among the next \<open>n\<close>, at which the pin rises.\<close>

fun rises :: "nat \<Rightarrow> u64 \<Rightarrow> simulator_state \<Rightarrow> u64 list" where
  "rises 0 a s = []"
| "rises (Suc n) a s =
     (let (a', s') = pulse_alarm_callback a s
      in (if pulse_pin s' \<and> \<not> pulse_pin s then [a] else []) @ rises n a' s')"

lemma period_bounds:
  assumes "0 < uint r" and "uint r \<le> 4000"
  shows "15000 \<le> 60000000 div uint r" and "60000000 div uint r \<le> 60000000"
proof -
  have "60000000 div 4000 \<le> 60000000 div uint r" by (rule zdiv_mono2) (use assms in auto)
  then show "15000 \<le> 60000000 div uint r" by simp
  have "60000000 div uint r \<le> 60000000 div 1" by (rule zdiv_mono2) (use assms in auto)
  then show "60000000 div uint r \<le> 60000000" by simp
qed

lemma uint_period:
  assumes "0 < uint r" and "uint r \<le> 4000"
  shows "uint (rpm_to_period_us r) = 60000000 div uint r"
proof -
  have "uint (60000000 div (ucast r :: u64)) = 60000000 div uint r"
    by (simp add: uint_div)
  moreover have "r \<noteq> 0" using assms by auto
  ultimately show ?thesis
    using period_bounds [OF assms] by (simp add: rpm_to_period_us_def unsigned_ucast_eq take_bit_int_eq_self)
qed

lemma rises_manual:
  assumes "sim_rpm s \<noteq> 0" and "200 < period_us s" and "\<not> output_high s" and "\<not> pulse_pin s"
  shows "rises (2 * k) a s = map (\<lambda>i. a + word_of_nat i * ucast (period_us s)) [0..<k]"
  using assms
proof (induction k arbitrary: a s)
  case (Suc k)
  let ?p = "period_us s"
  have p: "?p \<noteq> 0" using Suc.prems(2) by auto
  have "200 < uint ?p" using Suc.prems(2) by (simp add: word_less_def)
  then have "uint (?p - 200) = uint ?p - 200" "uint (ucast ?p - 200 :: u64) = uint ?p - 200"
    using iffD1 [OF uint_sub_lem, of 200 ?p] iffD1 [OF uint_sub_lem, of 200 "ucast ?p :: u64"] by simp_all
  then have "ucast (?p - 200) = (ucast ?p - 200 :: u64)"
    by (simp only: word_uint_eq_iff uint_ucast_u32_u64)
  then have sum: "a + 200 + ucast (?p - 200) = a + (ucast ?p :: u64)" by simp
  let ?s = "s\<lparr>output_high := False, pulse_pin := False\<rparr>"
  have "2 * Suc k = Suc (Suc (2 * k))" by simp
  then have "rises (2 * Suc k) a s = a # rises (2 * k) (a + ucast ?p) ?s"
    using Suc.prems p by (simp add: pulse_alarm_callback_def PULSE_HIGH_US_def) (simp only: sum)
  also have "\<dots> = a # map (\<lambda>i. a + ucast ?p + word_of_nat i * ucast ?p) [0..<k]"
    using Suc.IH [of ?s "a + ucast ?p"] Suc.prems by simp
  also have "\<dots> = map (\<lambda>i. a + word_of_nat i * ucast ?p) [0..<Suc k]"
    by (simp add: map_upt_Suc algebra_simps del: upt_Suc)
  finally show ?case .
qed simp

lemma rises_standing: "sim_rpm s = 0 \<Longrightarrow> rises n a s = []"
  by (induction n arbitrary: a s) (simp_all add: pulse_alarm_callback_def Let_def)

lemma captures_regular:
  assumes "0 < u" and "0 \<le> p"
  shows "\<forall>x \<in> set (captures u (map Spark (map (\<lambda>i. u + int (Suc i) * p) [0..<k]))).
    \<exists>v > 0. x = capture_at v (v + p)"
  using assms(1)
proof (induction k arbitrary: u)
  case (Suc k)
  have "map (\<lambda>i. u + int (Suc i) * p) [0..<Suc k] = (u + p) # map (\<lambda>i. (u + p) + int (Suc i) * p) [0..<k]"
    by (simp add: map_upt_Suc algebra_simps del: upt_Suc)
  then show ?case using Suc.IH [of "u + p"] Suc.prems assms(2) by auto
qed simp

lemma rpm_of_period:
  assumes "1000 \<le> r" and "r \<le> (4000 :: int)"
  shows "60000000 div (60000000 div r) = r" and "10000 \<le> 60000000 div r" and "60000000 div r \<le> 60000"
proof -
  let ?p = "60000000 div r"
  have p: "15000 \<le> ?p" "?p \<le> 60000" using assms by (intro div_between [where m = 60000 and k = 15000]; simp)+
  have "?p * r \<le> 60000000" "60000000 < ?p * r + r"
    using assms div_mult_mod_eq [of 60000000 r] pos_mod_bound [of r 60000000] pos_mod_sign [of r 60000000] by linarith+
  then have "r * ?p \<le> 60000000" "60000000 < (r + 1) * ?p"
    using assms p unfolding distrib_right by (simp_all add: mult.commute)
  then show "60000000 div ?p = r"
    using div_between [of ?p r 60000000 r] p by linarith
  show "10000 \<le> ?p" "?p \<le> 60000" using p by simp_all
qed

lemma manual_state [simp]:
  "sim_rpm (set_manual_rpm r s) = r" "period_us (set_manual_rpm r s) = rpm_to_period_us r"
  "\<not> output_high (set_manual_rpm r s)" "\<not> pulse_pin (set_manual_rpm r s)"
  "\<not> pulse_sweep_active (set_manual_rpm r s)"
  "pulse_sweep_generation (set_manual_rpm r s) = pulse_sweep_generation s + 1"
  by (simp_all add: set_manual_rpm_def)

lemma sweep_rpm_state [simp]:
  "sim_rpm (set_sweep_rpm r s) = r" "period_us (set_sweep_rpm r s) = rpm_to_period_us r"
  "pulse_sweep_active (set_sweep_rpm r s) = pulse_sweep_active s"
  "pulse_sweep_generation (set_sweep_rpm r s) = pulse_sweep_generation s"
  by (simp_all add: set_sweep_rpm_def)

text \<open>The instants of the pulses in the time of the node, which is ahead by \<open>off\<close>.\<close>

definition pulse_times :: "int \<Rightarrow> nat \<Rightarrow> u64 \<Rightarrow> simulator_state \<Rightarrow> int list" where
  "pulse_times off k a s = map (\<lambda>t. off + uint t) (rises (2 * k) a s)"

lemma pulse_times_manual:
  assumes r: "0 < uint r" "uint r \<le> 4000" and a: "uint a + int k * 60000000 < 2 ^ 64"
  shows "pulse_times off k a (set_manual_rpm r s)
    = map (\<lambda>i. off + uint a + int i * (60000000 div uint r)) [0..<k]"
proof -
  let ?p = "60000000 div uint r"
  note p = period_bounds [OF r] and per = uint_period [OF r]
  have "200 < rpm_to_period_us r" using p per by (simp add: word_less_def)
  moreover have "r \<noteq> 0" using r by auto
  ultimately have "rises (2 * k) a (set_manual_rpm r s)
      = map (\<lambda>i. a + word_of_nat i * ucast (rpm_to_period_us r)) [0..<k]"
    by (subst rises_manual) simp_all
  moreover have "uint (a + word_of_nat i * ucast (rpm_to_period_us r)) = uint a + int i * ?p" if "i < k" for i
  proof -
    have "int i * ?p \<le> int k * 60000000" using that p by (intro mult_mono) simp_all
    then have small: "uint a + int i * ?p < 2 ^ 64" using a by linarith
    have eq: "a + word_of_nat i * ucast (rpm_to_period_us r) = word_of_int (uint a + int i * ?p)"
      by (simp add: per [symmetric])
    have "take_bit 64 (uint a + int i * ?p) = uint a + int i * ?p"
      using small p by (intro take_bit_int_eq_self) simp_all
    then show ?thesis unfolding eq by (simp only: uint_word_of_int_eq) simp
  qed
  ultimately show ?thesis by (simp add: pulse_times_def add.assoc)
qed

text \<open>
  C39: the engine node measures what the simulator plays.  At a commanded speed up to 4000 RPM the
  simulator gives one pulse per revolution; from the second one on, whatever capture of these
  pulses the node's queue delivers is reported as exactly the commanded speed from 1000 RPM on,
  where the integer period and the integer quotient lose nothing, and as zero below; at zero RPM
  there are no pulses.
\<close>
theorem pulses_measured_exactly:
  assumes "uint r \<le> 4000" and "uint a + int k * 60000000 < 2 ^ 64" and "0 < off + uint a"
    and "x \<in> set (tl (captures 0 (map Spark (pulse_times off k a (set_manual_rpm r s)))))"
    and "xQueueReceive Q (events c) = Some (x, q)"
  shows "map_option ev_engine_rpm (fst (engine_rpm_next_event Q t c)) = Some (if uint r < 1000 then 0 else uint r)
    \<and> length (pulse_times off k a (set_manual_rpm r s)) = k"
proof -
  have pos: "0 < uint r"
  proof (rule ccontr)
    assume "\<not> 0 < uint r"
    then have "r = 0" using uint_ge_0 [of r] by (simp add: word_uint_eq_iff)
    then show False using assms(4) by (simp add: pulse_times_def rises_standing)
  qed
  let ?p = "60000000 div uint r"
  note times = pulse_times_manual [OF pos assms(1,2), of off s]
  have k: "0 < k" using assms(4) unfolding times by (cases k) simp_all
  then obtain m where m: "k = Suc m" by (cases k) simp_all
  have "map (\<lambda>i. off + uint a + int i * ?p) [0..<k]
      = (off + uint a) # map (\<lambda>i. off + uint a + int (Suc i) * ?p) [0..<m]"
    unfolding m by (simp add: map_upt_Suc del: upt_Suc)
  then have "x \<in> set (captures (off + uint a) (map Spark (map (\<lambda>i. off + uint a + int (Suc i) * ?p) [0..<m])))"
    using assms(4) unfolding times by simp
  moreover have p: "0 \<le> ?p" using period_bounds(1) [OF pos assms(1)] by simp
  ultimately obtain v where v: "0 < v" "x = capture_at v (v + ?p)"
    using captures_regular [OF assms(3)] by blast
  have "captured x" unfolding captured_def using v(2) by blast
  note event = next_event_spark [OF assms(5) this]
  have "ev_engine_rpm (spark_event x) = (if uint r < 1000 then 0 else uint r)"
  proof (cases "uint r < 1000")
    case True
    have "60000000 div 999 \<le> ?p" by (rule zdiv_mono2) (use pos True in auto)
    then show ?thesis using True by (simp add: v(2) spark_event_def capture_at_def spark_intervals Let_def)
  next
    case False
    then show ?thesis
      using rpm_of_period [of "uint r"] assms(1) v by (simp add: spark_event_def capture_at_def spark_intervals Let_def)
  qed
  then show ?thesis by (simp add: event times)
qed

theorem pulses_measured_exactly_witness:
  "map_option ev_engine_rpm (fst (engine_rpm_next_event (list_queue 256) 70000
     \<lparr>last_spark_us = 60001, last_zero_us = 0, dropped = 0, events = [capture_at 1 60001]\<rparr>)) = Some 1000"
proof -
  have u: "uint (1000 :: u32) = 1000" "uint (1 :: u64) = 1" by simp_all
  have "pulse_times 0 2 1 (set_manual_rpm 1000 simulator_boot) = [1, 60001]"
    using pulse_times_manual [of 1000 1 2 0 simulator_boot] unfolding u by (simp add: upt_rec)
  then have "capture_at 1 60001 \<in> set (tl (captures 0 (map Spark (pulse_times 0 2 1 (set_manual_rpm 1000 simulator_boot)))))"
    by simp
  from pulses_measured_exactly [OF _ _ _ this, unfolded u, of "list_queue 256"
      "\<lparr>last_spark_us = 60001, last_zero_us = 0, dropped = 0, events = [capture_at 1 60001]\<rparr>" "[]" 70000]
  show ?thesis by (simp add: list_queue_def)
qed

subsection \<open>A sweep and the commands\<close>

definition pulse_run :: "nat \<Rightarrow> u32 \<Rightarrow> pulse_pc \<times> simulator_state \<Rightarrow> pulse_pc \<times> simulator_state" where
  "pulse_run n g = (\<lambda>(pc, s). pulse_sweep_task g pc s) ^^ n"

lemma pulse_run_0 [simp]: "pulse_run 0 g x = x"
  by (simp add: pulse_run_def)

lemma pulse_run_Suc: "pulse_run (Suc n) g (pc, s) = pulse_run n g (pulse_sweep_task g pc s)"
  by (simp add: pulse_run_def funpow_swap1)

lemma pulse_run_add: "pulse_run (m + n) g x = pulse_run n g (pulse_run m g x)"
  by (simp add: pulse_run_def funpow_add funpow_swap1 add.commute [of m])

lemma pulse_run_2: "pulse_run 2 g (pc, s) = (case pulse_sweep_task g pc s of (pc, s) \<Rightarrow> pulse_sweep_task g pc s)"
  by (simp add: numeral_2_eq_2 pulse_run_Suc split: prod.split)

lemma uint_MAX_RPM [simp]: "uint MAX_RPM = 4000"
  by (simp add: MAX_RPM_def)

lemma set_sweep_twice [simp]: "set_sweep_rpm q (set_sweep_rpm r s) = set_sweep_rpm q s"
  by (simp add: set_sweep_rpm_def)

text \<open>The speed in the \<open>j\<close>-th of the 33 rounds: up to 4000 RPM and down again.\<close>

definition profile :: "nat \<Rightarrow> int" where
  "profile j = (if j \<le> 16 then 250 * int j else 8000 - 250 * int j)"

lemma sweep_rounds_up:
  assumes "pulse_sweep_active s" and "pulse_sweep_generation s = g"
  shows "j < 16 \<Longrightarrow> pulse_run (2 * j + 2) g (Check_Up 0, s)
    = (Check_Up (250 * int (Suc j)), set_sweep_rpm (word_of_int (profile j)) s)"
proof (induction j)
  case 0
  have "pulse_run (2 * 0 + 2) g (Check_Up 0, s) = pulse_run 2 g (Check_Up 0, s)"
    by (simp only: mult_0_right add_0)
  then show ?case using assms by (simp only: pulse_run_2) (simp add: profile_def)
next
  case (Suc j)
  have "pulse_run (2 * Suc j + 2) g (Check_Up 0, s) = pulse_run 2 g (pulse_run (2 * j + 2) g (Check_Up 0, s))"
    using pulse_run_add [of "2 * j + 2" 2] by simp
  then show ?case using Suc assms by (simp add: pulse_run_2 profile_def)
qed

lemma sweep_rounds_down:
  assumes "pulse_sweep_active s" and "pulse_sweep_generation s = g"
  shows "j < 16 \<Longrightarrow> pulse_run (2 * j + 34) g (Check_Up 0, s)
    = (Check_Down (3750 - 250 * int j), set_sweep_rpm (word_of_int (profile (j + 16))) s)"
proof (induction j)
  case 0
  have "pulse_run 34 g (Check_Up 0, s) = pulse_run 2 g (pulse_run 32 g (Check_Up 0, s))"
    using pulse_run_add [of 32 2] by simp
  then show ?case using assms sweep_rounds_up [OF assms, of 15] by (simp add: pulse_run_2 profile_def)
next
  case (Suc j)
  have "pulse_run (2 * Suc j + 34) g (Check_Up 0, s) = pulse_run 2 g (pulse_run (2 * j + 34) g (Check_Up 0, s))"
    using pulse_run_add [of "2 * j + 34" 2] by simp
  then show ?case using Suc assms by (simp add: pulse_run_2 profile_def)
qed

text \<open>An undisturbed sweep holds each speed for one delay and ends switched off at zero.\<close>

lemma pulse_sweep_ends:
  assumes "pulse_sweep_active s" and "pulse_sweep_generation s = g"
  shows "pulse_run 66 g (Check_Up 0, s) = (Finish, set_sweep_rpm 0 s)"
    and "pulse_run 68 g (Check_Up 0, s) = (Deleted, set_sweep_rpm 0 (s\<lparr>pulse_sweep_active := False\<rparr>))"
proof -
  have down: "pulse_run 64 g (Check_Up 0, s) = (Check_Down 0, set_sweep_rpm (word_of_int (profile 31)) s)"
    using sweep_rounds_down [OF assms, of 15] by simp
  have "pulse_run 66 g (Check_Up 0, s) = pulse_run 2 g (pulse_run 64 g (Check_Up 0, s))"
    using pulse_run_add [of 64 2] by simp
  then show last: "pulse_run 66 g (Check_Up 0, s) = (Finish, set_sweep_rpm 0 s)"
    using assms by (simp add: down pulse_run_2)
  have "pulse_run 68 g (Check_Up 0, s) = pulse_run 2 g (pulse_run 66 g (Check_Up 0, s))"
    using pulse_run_add [of 66 2] by simp
  moreover have "set_sweep_rpm 0 ((set_sweep_rpm 0 s)\<lparr>pulse_sweep_active := False\<rparr>)
      = set_sweep_rpm 0 (s\<lparr>pulse_sweep_active := False\<rparr>)"
    by (simp add: set_sweep_rpm_def)
  ultimately show "pulse_run 68 g (Check_Up 0, s) = (Deleted, set_sweep_rpm 0 (s\<lparr>pulse_sweep_active := False\<rparr>))"
    using assms by (simp add: last pulse_run_2)
qed

text \<open>What a sweep task whose sweep was cancelled still writes.\<close>

fun pulse_overwritten_by :: "pulse_pc \<Rightarrow> u32 option" where
  "pulse_overwritten_by (Apply_Up r) = Some (word_of_int r)"
| "pulse_overwritten_by (Apply_Down r) = Some (if r - 250 \<ge> 0 then word_of_int r else 0)"
| "pulse_overwritten_by Finish = Some 0"
| "pulse_overwritten_by Final_Stop = Some 0"
| "pulse_overwritten_by pc = None"

lemma pulse_run_deleted: "pulse_run n g (Deleted, s) = (Deleted, s)"
  by (induction n) (simp_all add: pulse_run_Suc)

lemma pulse_run_cancelled:
  assumes "\<not> pulse_sweep_active s"
  shows "\<exists>s'. pulse_run 3 g (pc, s) = (Deleted, s') \<and> \<not> pulse_sweep_active s'
    \<and> sim_rpm s' = (case pulse_overwritten_by pc of None \<Rightarrow> sim_rpm s | Some r \<Rightarrow> r)"
  using assms by (cases pc) (auto simp: numeral_3_eq_3 pulse_run_Suc)

lemma process_target:
  assumes "process_command created line s = (Some (Target_Set v), s')"
  shows "s' = set_manual_rpm v s \<and> v \<le> MAX_RPM"
  using assms
  by (auto simp: process_command_def pulse_rpm_command_def start_sweep_def apfst_def map_prod_def Let_def
      split: if_splits prod.splits option.splits)

lemmas number_simps = trim_def skip_space_def char_isspace_def strtoul10_def sign_of_def char_isdigit_def
  dec_value_def digit_value_def

text \<open>
  A speed command of the console does not always last.  After \<open>rpm v\<close> or \<open>stop\<close> has been
  acknowledged, the task of a running sweep is gone within three steps; the speed is then \<open>v\<close> unless
  the command came between the task's check and its write, or after its last round: in the final
  delay of the sweep the task has no check left and sets the speed to zero.
\<close>
lemma engine_command_kept_or_lost:
  assumes "process_command created line s = (Some (Target_Set v), s')" and "3 \<le> n"
  shows "fst (pulse_run n g (pc, s')) = Deleted
    \<and> \<not> pulse_sweep_active (snd (pulse_run n g (pc, s')))
    \<and> sim_rpm (snd (pulse_run n g (pc, s'))) = (case pulse_overwritten_by pc of None \<Rightarrow> v | Some r \<Rightarrow> r)"
proof -
  have s': "s' = set_manual_rpm v s" using process_target [OF assms(1)] by blast
  then obtain s'' where "pulse_run 3 g (pc, s') = (Deleted, s'')" "\<not> pulse_sweep_active s''"
      "sim_rpm s'' = (case pulse_overwritten_by pc of None \<Rightarrow> v | Some r \<Rightarrow> r)"
    using pulse_run_cancelled [of s' g pc] by (metis manual_state(1,5))
  moreover have "n = 3 + (n - 3)" using assms(2) by simp
  ultimately show ?thesis
    using pulse_run_add [of 3 "n - 3" g "(pc, s')"] by (simp add: pulse_run_deleted)
qed

text \<open>A negative number wraps into the accepted range.\<close>

lemma negative_speed_accepted:
  "process_command created ''rpm -4294967000'' s = (Some (Target_Set 296), set_manual_rpm 296 s)"
proof -
  have "trim ''rpm -4294967000'' = ''rpm -4294967000''" "strtoul10 ''-4294967000'' = (296, [])"
    by (simp_all add: number_simps)
  then show ?thesis by (simp add: process_command_def pulse_rpm_command_def skip_space_def MAX_RPM_def)
qed

end
