(* ===== verification/Spec2Isabelle.thy ===== *)
theory Spec2Isabelle
  imports Can_Bus Node_Boot Gps_Receiver System Master_Boot Wheel_Bench Engine_Simulator
begin

text \<open>
  A verification library for the firmware of the DAQ 3.0 data logger.

  The program.  Sensor nodes (ESP32-C3, \<open>sensor-node/\<close>) read brake pressures, an inertial sensor, a
  bearing encoder, the sparks of the engine or an analog input, stamp each value with the master's
  time and put it on a CAN bus as one frame.  The master (ESP32-P4, \<open>master-node/\<close>) broadcasts its time
  and whether it records every 100 ms, starts and stops sessions, receives the frames, adds the
  positions of a GPS receiver, writes recordings to an SD card, keeps the latest values for a live
  view, and serves an HTTP interface.  Two simulators (\<open>simulators/\<close>) produce the signals of the
  encoder and of the ignition on a bench.  Both firmwares include \<open>protocol/app_protocol.h\<close>.  All paths
  below are under \<open>src/\<close>, and those of the C files under the \<open>src/\<close> of the firmware named.

  How it is modelled.  A C function is a HOL function of the same name on the records of the static
  variables it uses; results of calls into FreeRTOS, ESP-IDF and the C library that depend on the
  outside (a mutex taken, an error code of a driver, a time read, the bytes a write accepted) are
  fields of environment records, so that every theorem holds for all of them, failures included.
  Integers of fixed width that wrap are words, 64-bit microseconds are \<open>int\<close> with the assumed range
  stated where it matters, \<open>float\<close> and \<open>double\<close> are rationals rounded to nearest (\<open>C_Float\<close>).  Errors are
  the constructors of \<open>esp_err\<close> or of the enumeration the function returns.  What a task or an
  interrupt does in one piece is one function; concurrency is any order of these pieces, as a list
  of events or an inductive step relation.  Queues are the locale \<open>rtos_queue\<close> of \<open>Rtos_Queue\<close>, a
  bounded first-in first-out queue, interpreted on lists; every theorem that speaks of a queue
  holds for any implementation of that contract.

  Foundations.  \<open>Daq_Prelude\<close>: types, truncating division, error codes, the collections of the
  development's automation.  \<open>Can_Payload\<close>: frames, little-endian payloads, packing of samples.
  \<open>App_Protocol\<close>: identifiers, masks and states of the protocol.  \<open>Rtos_Queue\<close>.  \<open>C_Format\<close>, \<open>C_Time\<close>,
  \<open>C_Float\<close>, \<open>C_Console\<close>: what the sources use of \<open>snprintf\<close>, the calendar, floating point, \<open>fgets\<close>,
  \<open>strtok_r\<close> and \<open>strtol\<close>.

  The master.  \<open>Twai_Port\<close> and \<open>Can_Master\<close>: \<open>can/can_master.c\<close>; the retained transmit frame is never
  overwritten in flight, command bursts, reception that loses nothing silently, bus-off recovery
  (locales \<open>retained_frame_port\<close> and \<open>bus_off_recovery\<close>, interpreted for both firmwares).
  \<open>Node_Registry\<close>: \<open>node_state/node_registry.c\<close> refines a specification of who is online.
  \<open>Live_Data\<close>: \<open>live/live_data.c\<close>, one viewer at a time who sees the latest values.
  \<open>Absolute_Clock\<close>: \<open>time/clock_discipline.c\<close>, \<open>gps_time.c\<close>, \<open>absolute_clock.c\<close>; the discipline rule and
  the order of readings.  \<open>Data_Logger\<close> and \<open>Log_Writer\<close>: \<open>logger/data_logger.c\<close>; names, start, rename,
  and the writer task, whose recording and UTC companion stay aligned and hold every accepted
  sample when no write fails.  \<open>Master_App\<close>: \<open>app/app_control.c\<close>, the handlers of \<open>main.c\<close>,
  \<open>time/time_beacon.c\<close>, \<open>console/serial_console.c\<close>; the modules agree about recording.
  \<open>Rmc_Parser\<close> and \<open>Gps_Receiver\<close>: \<open>gps/\<close>; exact reading of times, error detection, the rate set-up and
  the byte automaton.  \<open>Csv_Export\<close> and \<open>Web_Server\<close>: \<open>web/web_server.c\<close>; exports, responses and
  handlers.  \<open>Master_Boot\<close>: \<open>storage/sd_card.c\<close>, the initialisation functions and \<open>app_main\<close> with the
  tasks running between its calls; nodes are stopped before anything can start them, and the
  state stays well formed from reset on.

  The sensor nodes.  \<open>Sampler\<close>: \<open>time/time_sync.c\<close> and \<open>sampler/sampler.c\<close>; schedule, queue, sender.
  \<open>Can_Node\<close>: \<open>can/can_node.c\<close>; a node follows the commands and beacons it hears, acknowledges them,
  and recovers from bus-off.  \<open>Adc_Drivers\<close>, \<open>Bearing_Encoder\<close>, \<open>Engine_Rpm\<close>, \<open>Mpu6500\<close>: the drivers
  under \<open>sensors/\<close>, with bounds on what they report and a reference for what they count.
  \<open>Sensor_Registry\<close>: the builds of \<open>sensor_registry.c\<close>, the locale \<open>sensor_driver\<close> every build
  satisfies, and samples that survive the wire.  \<open>Node_Boot\<close>: \<open>main.c\<close>, the loop of the sampling task
  and the bench mode \<open>SENSOR_SERIAL_TEST\<close>.

  Compositions.  \<open>Can_Bus\<close>: beacons, commands and replies between the two firmwares; a node samples
  exactly if the master's logger records, on the master's clock, and the registry shows the state
  it is in.  \<open>System\<close>: from the frame of a sample to the row a browser downloads.
  \<open>Wheel_Simulator\<close>, \<open>Wheel_Bench\<close> and \<open>Engine_Simulator\<close>: the simulators, and what the node's drivers
  measure of their signals.

  Bounds.  Loops of the code are structural recursion where they run over data.  The only other
  ones are the schedule loop (\<open>advance\<close>, a partial function that returns for positive periods, as
  all periodic builds have), the search for a default name (\<open>first_free\<close>, which \<open>default_name_is_free\<close>
  shows to end while the card holds fewer than two to the 31 files) and the waits for GPS
  bytes and acknowledgements, which run over the readings they are given.  There is no fuel.

  Flaws the model showed are lemmas too: a STOP overtaken by a recovery report
  (\<open>stale_recovery_report\<close>), a start that beats the boot report (\<open>start_before_boot_report\<close>), a sample that
  enters the next recording (\<open>late_sample_enters_next_session\<close>), lost commands of the simulators' sweeps
  (\<open>rpm_command_kept_or_lost\<close>, \<open>engine_command_kept_or_lost\<close>).

  Not modelled.  The page \<open>web/index.html\<close> with its JavaScript; the libraries the sources call
  (FreeRTOS, the TWAI, UART, I2C, ADC, GPIO and timer drivers, FAT, NVS, Wi-Fi and the HTTP
  server), which appear as arguments with their results; the wording of log and help lines;
  pins, stack sizes and priorities, which only reach those libraries; the tests and documents
  of the repository.  What is left of the C files beside that is include directives, comments,
  declarations and these constants.  Time passes only as the clock and tick readings the
  definitions are given, so no statement bounds how long a task takes.
\<close>

end
